(* ===== verification/Prelude.thy ===== *)
theory Prelude
  imports Complex_Main "HOL-Library.List_Lexorder" "HOL-Library.Char_ord" "HOL-Library.Multiset"
begin

text \<open>
  What every component of the development shares: the Go string helpers of package
  \<^verbatim>\<open>strings\<close> that the program calls, Go maps with string keys as association lists
  sorted by key (so that equality of models is equality of maps, and the order is the
  one \<^verbatim>\<open>encoding/json\<close> prints), the iteration order of \<^verbatim>\<open>for ... range\<close> over a map as
  a parameter, and the collections of facts the components extend.
\<close>

named_theorems gomap_simps \<open>lookup laws of the operations on Go maps\<close>
named_theorems wf_intros \<open>introduction rules for well-formedness of JSON values\<close>

section \<open>Package strings\<close>

fun starts_with :: "string \<Rightarrow> string \<Rightarrow> bool" where
  "starts_with [] s = True"
| "starts_with (c # cs) [] = False"
| "starts_with (c # cs) (d # ds) = (c = d \<and> starts_with cs ds)"

text \<open>\<open>strings_Contains s sub\<close> is \<^verbatim>\<open>strings.Contains(s, sub)\<close>.\<close>

fun strings_Contains :: "string \<Rightarrow> string \<Rightarrow> bool" where
  "strings_Contains [] sub = (sub = [])"
| "strings_Contains (c # cs) sub = (starts_with sub (c # cs) \<or> strings_Contains cs sub)"

text \<open>
  \<open>strings_Split s sep\<close> is \<^verbatim>\<open>strings.Split(s, sep)\<close> for a separator that is not
  empty; every separator of the program is a nonempty literal. The accumulator holds
  the current piece, reversed.
\<close>

function split_from :: "string \<Rightarrow> string \<Rightarrow> string \<Rightarrow> string list" where
  "split_from sep acc s =
     (if s = [] then [rev acc]
      else if sep \<noteq> [] \<and> starts_with sep s
      then rev acc # split_from sep [] (drop (length sep) s)
      else split_from sep (hd s # acc) (tl s))"
  by pat_completeness auto
termination
  by (relation "measure (\<lambda>(sep, acc, s). length s)") auto

declare split_from.simps [simp del]

definition strings_Split :: "string \<Rightarrow> string \<Rightarrow> string list" where
  "strings_Split s sep = split_from sep [] s"

text \<open>\<open>strings_Trim s cs\<close> is \<^verbatim>\<open>strings.Trim(s, cut)\<close> for an ASCII cut set.\<close>

definition strings_Trim :: "string \<Rightarrow> string \<Rightarrow> string" where
  "strings_Trim s cs =
     rev (dropWhile (\<lambda>c. c \<in> set cs) (rev (dropWhile (\<lambda>c. c \<in> set cs) s)))"

text \<open>\<open>replace_char s c r\<close> is \<^verbatim>\<open>strings.Replace(s, c, r, -1)\<close> for a one-byte \<^verbatim>\<open>c\<close>.\<close>

definition replace_char :: "string \<Rightarrow> char \<Rightarrow> string \<Rightarrow> string" where
  "replace_char s c r = concat (map (\<lambda>x. if x = c then r else [x]) s)"

lemma starts_with_append [simp]: "starts_with p (p @ s)"
  by (induction p) auto

lemma starts_with_iff: "starts_with p s \<longleftrightarrow> (\<exists>t. s = p @ t)"
  by (induction p s rule: starts_with.induct) auto

lemma strings_Contains_iff: "strings_Contains s sub \<longleftrightarrow> (\<exists>u v. s = u @ sub @ v)"
proof (induction s)
  case (Cons c s)
  have "(\<exists>u v. c # s = u @ sub @ v) \<longleftrightarrow> (\<exists>v. c # s = sub @ v) \<or> (\<exists>u v. s = u @ sub @ v)"
    by (metis append_Cons append_Nil append_eq_Cons_conv)
  with Cons show ?case by (simp add: starts_with_iff)
qed auto

lemma split_from_Nil [simp]: "split_from sep acc [] = [rev acc]"
  by (simp add: split_from.simps [of sep acc "[]"])

text \<open>No piece of a split text contains the separator, and a text without it is one piece.\<close>

lemma split_from_pieces:
  assumes "sep \<noteq> []" "\<nexists>u v. length u < length acc \<and> rev acc @ s = u @ sep @ v"
    "piece \<in> set (split_from sep acc s)"
  shows "\<not> strings_Contains piece sep"
  using assms
proof (induction sep acc s rule: split_from.induct)
  case (1 sep acc s)
  note IH = 1(1,2) and prems = 1(3,4,5)
  have acc: "\<not> strings_Contains (rev acc) sep"
  proof
    assume "strings_Contains (rev acc) sep"
    then obtain u v where "rev acc = u @ sep @ v" by (auto simp: strings_Contains_iff)
    then have e: "rev acc @ s = u @ sep @ (v @ s)" by simp
    have l: "length acc = length u + length sep + length v"
      using \<open>rev acc = u @ sep @ v\<close> by (metis length_rev length_append add.assoc)
    have "0 < length sep" using prems(1) by simp
    then have "length u < length acc" using l by linarith
    with prems(2) e show False by blast
  qed
  consider "s = []" | "s \<noteq> []" "starts_with sep s" | "s \<noteq> []" "\<not> starts_with sep s" by blast
  then show ?case
  proof cases
    case 1
    with acc prems(3) show ?thesis by simp
  next
    case 2
    then show ?thesis
      using acc IH(1) prems(1,3) by (auto simp: split_from.simps [of sep acc s])
  next
    case 3
    have "\<nexists>u v. length u < length (hd s # acc) \<and> rev (hd s # acc) @ tl s = u @ sep @ v"
    proof
      assume "\<exists>u v. length u < length (hd s # acc) \<and> rev (hd s # acc) @ tl s = u @ sep @ v"
      then obtain u v where "length u < length (hd s # acc)" "rev (hd s # acc) @ tl s = u @ sep @ v"
        by blast
      then have u: "length u \<le> length acc" "rev acc @ s = u @ sep @ v"
        using 3(1) by simp_all
      then have "length u = length acc" using prems(2) by force
      then have "s = sep @ v" using u(2) by (simp add: append_eq_append_conv)
      with 3(2) show False by simp
    qed
    moreover have "piece \<in> set (split_from sep (hd s # acc) (tl s))"
      using 3 prems(3) by (simp add: split_from.simps [of sep acc s])
    ultimately show ?thesis using IH(2) prems(1) 3 by blast
  qed
qed

lemma Split_pieces:
  "sep \<noteq> [] \<Longrightarrow> piece \<in> set (strings_Split s sep) \<Longrightarrow> \<not> strings_Contains piece sep"
  unfolding strings_Split_def by (rule split_from_pieces) auto

lemma strings_Trim_sublist: "\<exists>u v. s = u @ strings_Trim s cs @ v"
proof -
  let ?d = "\<lambda>x. dropWhile (\<lambda>c. c \<in> set cs) x"
  obtain u where u: "s = u @ ?d s" by (metis takeWhile_dropWhile_id)
  obtain w where "rev (?d s) = w @ ?d (rev (?d s))" by (metis takeWhile_dropWhile_id)
  then have "?d s = strings_Trim s cs @ rev w"
    unfolding strings_Trim_def by (metis rev_append rev_rev_ident)
  with u show ?thesis by metis
qed

lemma Trim_Contains: "strings_Contains (strings_Trim s cs) sub \<Longrightarrow> strings_Contains s sub"
  using strings_Trim_sublist [of s cs] unfolding strings_Contains_iff by (metis append.assoc)

lemma replace_char_notin: "c \<notin> set r \<Longrightarrow> c \<notin> set (replace_char s c r)"
  by (induction s) (auto simp: replace_char_def)

section \<open>Results that may panic\<close>

text \<open>What a Go function gives: a value, or a run-time panic.\<close>

datatype 'a go = Return 'a | Panic

fun go_bind :: "'a go \<Rightarrow> ('a \<Rightarrow> 'b go) \<Rightarrow> 'b go" where
  "go_bind (Return x) f = f x"
| "go_bind Panic f = Panic"

lemma go_bind_Return [simp]: "go_bind x f = Return y \<longleftrightarrow> (\<exists>u. x = Return u \<and> f u = Return y)"
  by (cases x) auto

lemma go_bind_cong [fundef_cong]:
  "x = y \<Longrightarrow> (\<And>u. y = Return u \<Longrightarrow> f u = g u) \<Longrightarrow> go_bind x f = go_bind y g"
  by (cases y) auto

section \<open>Go maps with string keys\<close>

text \<open>
  A \<^verbatim>\<open>map[string]T\<close> that is not nil is an association list with strictly increasing
  keys (Go compares strings bytewise, as the lexicographic order on \<open>string\<close> does).
\<close>

type_synonym 'v gomap = "(string \<times> 'v) list"

definition msorted :: "'v gomap \<Rightarrow> bool" where
  "msorted m = sorted_wrt (<) (map fst m)"

fun mput :: "string \<Rightarrow> 'v \<Rightarrow> 'v gomap \<Rightarrow> 'v gomap" where
  "mput k v [] = [(k, v)]"
| "mput k v (p # m) =
     (if fst p < k then p # mput k v m
      else if fst p = k then (k, v) # m
      else (k, v) # p # m)"

definition mdel :: "string \<Rightarrow> 'v gomap \<Rightarrow> 'v gomap" where
  "mdel k m = filter (\<lambda>p. fst p \<noteq> k) m"

abbreviation mget :: "'v gomap \<Rightarrow> string \<Rightarrow> 'v option" where
  "mget \<equiv> map_of"

definition mkeys :: "'v gomap \<Rightarrow> string list" where
  "mkeys m = map fst m"

lemma msorted_Nil [simp]: "msorted []"
  by (simp add: msorted_def)

lemma msorted_Cons: "msorted (p # m) \<longleftrightarrow> (\<forall>q\<in>set m. fst p < fst q) \<and> msorted m"
  by (auto simp: msorted_def)

lemma msorted_distinct: "msorted m \<Longrightarrow> distinct (map fst m)"
  by (induction m) (force simp: msorted_Cons)+

lemma mget_below: "\<forall>q\<in>set m. k < fst q \<Longrightarrow> mget m k = None"
  by (force simp: map_of_eq_None_iff)

lemma set_mput: "set (mput k v m) \<subseteq> insert (k, v) (set m)"
  by (induction m) auto

lemma fst_mput: "fst ` set (mput k v m) = insert k (fst ` set m)"
  by (induction m) (auto simp: image_iff)

lemma msorted_mput: "msorted m \<Longrightarrow> msorted (mput k v m)"
proof (induction m)
  case (Cons p m)
  then have IH: "msorted (mput k v m)" by (simp add: msorted_Cons)
  show ?case
  proof (cases "fst p < k")
    case True
    moreover have "\<forall>q\<in>set (mput k v m). fst p < fst q"
      using True Cons.prems set_mput [of k v m] by (auto simp: msorted_Cons)
    ultimately show ?thesis using IH by (simp add: msorted_Cons)
  next
    case False
    with Cons.prems show ?thesis by (force simp: msorted_Cons)
  qed
qed (simp add: msorted_def)

lemma mget_mput [gomap_simps]:
  "msorted m \<Longrightarrow> mget (mput k v m) x = (if x = k then Some v else mget m x)"
  by (induction m) (auto simp: msorted_Cons)

lemma msorted_mdel: "msorted m \<Longrightarrow> msorted (mdel k m)"
  by (induction m) (auto simp: msorted_Cons mdel_def)

lemma mget_mdel [gomap_simps]: "mget (mdel k m) x = (if x = k then None else mget m x)"
  by (induction m) (auto simp: mdel_def)

lemma set_mdel: "set (mdel k m) \<subseteq> set m"
  by (auto simp: mdel_def)

lemma mdel_absent: "mget m k = None \<Longrightarrow> mdel k m = m"
  by (induction m) (auto simp: mdel_def map_of_eq_None_iff)

lemma mget_in_set: "mget m k = Some v \<Longrightarrow> (k, v) \<in> set m"
  by (rule map_of_SomeD)

text \<open>A map is its lookup function: two sorted lists with the same lookups are equal.\<close>

lemma msorted_hd: "msorted (p # m) \<Longrightarrow> mget (p # m) k \<noteq> None \<Longrightarrow> fst p \<le> k"
  by (auto simp: msorted_Cons split: if_splits dest!: mget_in_set)

lemma msorted_eqI:
  assumes "msorted a" "msorted b" "\<And>k. mget a k = mget b k"
  shows "a = b"
  using assms
proof (induction a arbitrary: b)
  case Nil
  have none: "mget b k = None" for k using Nil(3) [of k] by simp
  show ?case
  proof (cases b)
    case (Cons q c)
    with none [of "fst q"] show ?thesis by simp
  qed simp
next
  case (Cons p a)
  obtain q c where b: "b = q # c"
    using Cons.prems(3) [of "fst p"] by (cases b) auto
  have "mget b (fst p) = Some (snd p)" "mget (p # a) (fst q) = Some (snd q)"
    using Cons.prems(3) [of "fst p"] Cons.prems(3) [of "fst q"] b by auto
  then have fst: "fst p = fst q"
    using msorted_hd [of p a "fst q"] msorted_hd [of q c "fst p"] Cons.prems(1,2) b by auto
  moreover have "snd p = snd q"
    using \<open>mget b (fst p) = _\<close> b fst by simp
  ultimately have pq: "p = q" by (simp add: prod_eq_iff)
  have "mget a k = mget c k" for k
  proof (cases "k = fst p")
    case True
    then show ?thesis
      using Cons.prems(1,2) b fst by (simp add: msorted_Cons mget_below)
  next
    case False
    then show ?thesis using Cons.prems(3) [of k] b fst by simp
  qed
  with Cons.IH [of c] Cons.prems(1,2) b pq show ?case by (simp add: msorted_Cons)
qed

lemma mput_same: "msorted m \<Longrightarrow> mget m k = Some v \<Longrightarrow> mput k v m = m"
  by (rule msorted_eqI) (auto simp: msorted_mput gomap_simps)

lemma mget_map_snd: "mget (map (\<lambda>(k, v). (k, f v)) m) x = map_option f (mget m x)"
  by (induction m) auto

lemma msorted_map_snd: "msorted (map (\<lambda>(k, v). (k, f v)) m) = msorted m"
  by (simp add: msorted_def case_prod_unfold comp_def)

text \<open>Building a map from pairs in some order: later pairs win.\<close>

definition mfold :: "(string \<times> 'v) list \<Rightarrow> 'v gomap \<Rightarrow> 'v gomap" where
  "mfold kvs m = foldl (\<lambda>acc p. mput (fst p) (snd p) acc) m kvs"

lemma mfold_simps [simp]:
  "mfold [] m = m"
  "mfold (p # kvs) m = mfold kvs (mput (fst p) (snd p) m)"
  by (simp_all add: mfold_def)

lemma mfold_append: "mfold (xs @ ys) m = mfold ys (mfold xs m)"
  by (simp add: mfold_def)

lemma msorted_mfold: "msorted m \<Longrightarrow> msorted (mfold kvs m)"
  by (induction kvs arbitrary: m) (auto simp: msorted_mput)

lemma mget_mfold:
  "msorted m \<Longrightarrow> distinct (map fst kvs) \<Longrightarrow>
     mget (mfold kvs m) k = (case mget kvs k of Some v \<Rightarrow> Some v | None \<Rightarrow> mget m k)"
proof (induction kvs arbitrary: m)
  case (Cons p kvs)
  then have "mget kvs (fst p) = None" by (simp add: map_of_eq_None_iff)
  with Cons show ?case by (auto simp: msorted_mput gomap_simps split: option.splits)
qed simp

lemma set_mfold: "set (mfold kvs m) \<subseteq> set kvs \<union> set m"
proof (induction kvs arbitrary: m)
  case (Cons p kvs)
  have "set (mfold kvs (mput (fst p) (snd p) m)) \<subseteq> set kvs \<union> set (mput (fst p) (snd p) m)"
    by (rule Cons.IH)
  with set_mput [of "fst p" "snd p" m] show ?case by auto
qed simp

lemma mfold_sorted: "msorted m \<Longrightarrow> mfold m [] = m"
  by (rule msorted_eqI) (auto simp: msorted_mfold mget_mfold msorted_distinct split: option.splits)

section \<open>Iteration over a map\<close>

text \<open>
  \<^verbatim>\<open>for k, v := range m\<close> visits the entries of a Go map in an order the language
  leaves open. The order is a parameter: a function that permutes the list of keys.
\<close>

type_synonym range_order = "string list \<Rightarrow> string list"

definition range_ok :: "range_order \<Rightarrow> bool" where
  "range_ok ord = (\<forall>ks. mset (ord ks) = mset ks)"

definition map_range :: "range_order \<Rightarrow> 'v gomap \<Rightarrow> (string \<times> 'v) list" where
  "map_range ord m = map (\<lambda>k. (k, the (mget m k))) (ord (mkeys m))"

lemma range_ok_set: "range_ok ord \<Longrightarrow> set (ord ks) = set ks"
  unfolding range_ok_def by (metis set_mset_mset)

lemma range_ok_length: "range_ok ord \<Longrightarrow> length (ord ks) = length ks"
  unfolding range_ok_def by (metis size_mset)

lemma range_ok_distinct: "range_ok ord \<Longrightarrow> distinct (ord ks) = distinct ks"
  unfolding range_ok_def by (metis mset_eq_imp_distinct_iff)

lemma range_ok_id: "range_ok (\<lambda>ks. ks)"
  by (simp add: range_ok_def)

lemma set_map_range: "range_ok ord \<Longrightarrow> msorted m \<Longrightarrow> set (map_range ord m) = set m"
  using msorted_distinct [of m]
  by (force simp: map_range_def range_ok_set mkeys_def image_iff)

lemma mset_map_range:
  assumes "range_ok ord" "msorted m"
  shows "mset (map_range ord m) = mset m"
proof -
  have d: "distinct (map fst m)" using assms(2) by (rule msorted_distinct)
  have "distinct (map_range ord m)"
    using assms(1) d by (simp add: map_range_def distinct_map range_ok_distinct mkeys_def inj_on_def)
  moreover have "distinct m" using d by (simp add: distinct_map)
  ultimately show ?thesis
    using set_map_range [OF assms] by (simp add: set_eq_iff_mset_eq_distinct)
qed

lemma distinct_map_range:
  "range_ok ord \<Longrightarrow> msorted m \<Longrightarrow> distinct (map fst (map_range ord m))"
  by (simp add: map_range_def comp_def range_ok_distinct mkeys_def msorted_distinct)

lemma map_range_id: "msorted m \<Longrightarrow> map_range (\<lambda>ks. ks) m = m"
  using msorted_distinct [of m]
  by (auto simp: map_range_def mkeys_def intro!: map_idI)

end
