(* ===== verification/GoFloat.thy ===== *)
theory GoFloat
  imports Prelude "HOL-Library.Log_Nat"
begin

text \<open>
  Go's \<^verbatim>\<open>float64\<close>, the type of every number \<^verbatim>\<open>encoding/json\<close> decodes into an
  \<^verbatim>\<open>interface{}\<close> and of the host statistics: IEEE 754 binary64 values, rounding to
  nearest with ties to even, the arithmetic the program uses, the decimal text that
  \<^verbatim>\<open>json.Marshal\<close> prints and the number literals \<^verbatim>\<open>json.Unmarshal\<close> reads. The main
  result is that reading back what was printed gives the same value.
\<close>

section \<open>Values and rounding\<close>

text \<open>
  \<open>F_fin s m e\<close> is the value \<open>\<plusminus> m * 2 ^ e\<close> (negative when \<open>s\<close>), with a 53 bit mantissa.
\<close>

datatype float64 = F_fin bool nat int | F_inf bool | F_nan

fun wf64 :: "float64 \<Rightarrow> bool" where
  "wf64 (F_fin s m e) =
     (m < 2 ^ 53 \<and> -1074 \<le> e \<and> e \<le> 971 \<and> (2 ^ 52 \<le> m \<or> e = -1074))"
| "wf64 _ = False"

text \<open>\<open>wf64\<close> are the finite values: those a JSON document can hold.\<close>

fun mag64 :: "float64 \<Rightarrow> rat" where
  "mag64 (F_fin s m e) = of_nat m * 2 powi e"
| "mag64 _ = 0"

fun val64 :: "float64 \<Rightarrow> rat" where
  "val64 (F_fin s m e) = (if s then - mag64 (F_fin s m e) else mag64 (F_fin s m e))"
| "val64 _ = 0"

definition ilog2 :: "rat \<Rightarrow> int" where
  "ilog2 q = (case quotient_of q of (n, d) \<Rightarrow>
     let x = bitlen n - bitlen d in if 2 powi x \<le> q then x else x - 1)"

definition round_even :: "rat \<Rightarrow> int" where
  "round_even q =
     (let f = \<lfloor>q\<rfloor>; r = q - of_int f in
      if r < 1 / 2 then f else if 1 / 2 < r then f + 1 else if even f then f else f + 1)"

definition round64 :: "bool \<Rightarrow> rat \<Rightarrow> float64" where
  "round64 s q =
     (if q = 0 then F_fin s 0 (-1074)
      else let e = max (ilog2 q - 52) (-1074);
               m = nat (round_even (q / 2 powi e))
           in if m = 2 ^ 53
              then (if 971 < e + 1 then F_inf s else F_fin s (2 ^ 52) (e + 1))
              else (if 971 < e then F_inf s else F_fin s m e))"

lemma powi2_pos [simp]: "0 < (2 :: rat) powi e"
  by simp

lemma powi2_add: "(2 :: rat) powi (a + b) = 2 powi a * 2 powi b"
  by (simp add: power_int_add)

lemma powi2_le_iff: "(2 :: rat) powi a \<le> 2 powi b \<longleftrightarrow> a \<le> b"
  using power_int_strict_increasing [of b a "2 :: rat"] power_int_increasing [of a b "2 :: rat"]
  by force

lemma powi2_less_iff: "(2 :: rat) powi a < 2 powi b \<longleftrightarrow> a < b"
  by (meson linorder_not_le powi2_le_iff)

lemma ilog2_unique:
  assumes "2 powi x \<le> (q :: rat)" "q < 2 powi (x + 1)" "2 powi y \<le> q" "q < 2 powi (y + 1)"
  shows "x = y"
proof -
  have "2 powi x < (2 :: rat) powi (y + 1)" "2 powi y < (2 :: rat) powi (x + 1)"
    using assms by linarith+
  then show ?thesis by (simp add: powi2_less_iff)
qed

lemma bitlen_rat_bounds:
  assumes "0 < (n :: int)"
  shows "2 powi (bitlen n - 1) \<le> (of_int n :: rat)" "(of_int n :: rat) < 2 powi bitlen n"
proof -
  have pos: "1 \<le> bitlen n" using assms bitlen_bounds [of n] bitlen_nonneg [of n]
    by (metis bitlen_eq_zero_iff int_one_le_iff_zero_less order_le_less order_less_le_trans
        linorder_not_le)
  have "2 ^ nat (bitlen n - 1) \<le> n \<and> n < 2 ^ nat (bitlen n)"
    by (rule bitlen_bounds [OF assms])
  then have "(2 ^ nat (bitlen n - 1) :: rat) \<le> of_int n" "(of_int n :: rat) < 2 ^ nat (bitlen n)"
    by (metis of_int_le_iff of_int_numeral of_int_power, metis of_int_less_iff of_int_numeral of_int_power)
  with pos show "2 powi (bitlen n - 1) \<le> (of_int n :: rat)" "(of_int n :: rat) < 2 powi bitlen n"
    by (simp_all add: power_int_nonneg_exp)
qed

lemma ilog2_bounds:
  assumes "0 < q"
  shows "2 powi ilog2 q \<le> q" "q < 2 powi (ilog2 q + 1)"
proof -
  obtain n d where nd: "quotient_of q = (n, d)" by fastforce
  have d: "0 < d" and q: "q = of_int n / of_int d"
    using nd by (simp_all add: quotient_of_denom_pos quotient_of_div)
  have n: "0 < n" using assms d q by (simp add: zero_less_divide_iff)
  define x where "x = bitlen n - bitlen d"
  have "q * 2 powi (bitlen d - 1) \<le> q * of_int d"
    using bitlen_rat_bounds(1) [OF d] assms by (intro mult_left_mono) simp_all
  also have "\<dots> = of_int n" using d q by simp
  also have "\<dots> < 2 powi bitlen n" by (rule bitlen_rat_bounds(2) [OF n])
  finally have "q < 2 powi bitlen n / 2 powi (bitlen d - 1)"
    by (simp add: field_simps)
  then have hi: "q < 2 powi (x + 1)"
    by (simp add: x_def power_int_diff field_simps power_int_add)
  have "2 powi (bitlen n - 1) \<le> (of_int n :: rat)" by (rule bitlen_rat_bounds(1) [OF n])
  also have "\<dots> = q * of_int d" using d q by simp
  also have "\<dots> < q * 2 powi bitlen d"
    using bitlen_rat_bounds(2) [OF d] assms by simp
  finally have "2 powi (bitlen n - 1) / 2 powi bitlen d < q"
    by (simp add: field_simps)
  then have lo: "2 powi (x - 1) < q"
    by (simp add: x_def power_int_diff field_simps power_int_add)
  show "2 powi ilog2 q \<le> q" "q < 2 powi (ilog2 q + 1)"
    using lo hi by (auto simp: ilog2_def nd x_def [symmetric] Let_def)
qed

lemma ilog2_eqI: "0 < q \<Longrightarrow> 2 powi x \<le> q \<Longrightarrow> q < 2 powi (x + 1) \<Longrightarrow> ilog2 q = x"
  using ilog2_bounds [of q] ilog2_unique by blast

lemma round_even_of_int [simp]: "round_even (of_int k) = k"
  by (simp add: round_even_def)

lemma round_even_mono_bounds:
  "of_int a \<le> q \<Longrightarrow> a \<le> round_even q"
  "q \<le> of_int b \<Longrightarrow> round_even q \<le> b"
proof -
  have "\<lfloor>q\<rfloor> \<le> round_even q" by (simp add: round_even_def Let_def)
  then show "of_int a \<le> q \<Longrightarrow> a \<le> round_even q"
    using order_trans le_floor_iff [of a q] by blast
  assume "q \<le> of_int b"
  then have "\<lfloor>q\<rfloor> \<le> b" by (simp add: floor_le_iff)
  moreover have "\<lfloor>q\<rfloor> = b \<Longrightarrow> q = of_int b"
    using \<open>q \<le> of_int b\<close> of_int_floor_le [of q] by simp
  ultimately show "round_even q \<le> b"
    by (cases "\<lfloor>q\<rfloor> = b") (auto simp: round_even_def Let_def)
qed

lemma wf_round64:
  assumes "0 \<le> q"
  shows "wf64 (round64 s q) \<or> round64 s q = F_inf s"
proof (cases "q = 0")
  case False
  with assms have q: "0 < q" by simp
  define e where "e = max (ilog2 q - 52) (-1074)"
  define m where "m = nat (round_even (q / 2 powi e))"
  have "ilog2 q + 1 \<le> 53 + e" by (simp add: e_def)
  then have "(2 :: rat) powi (ilog2 q + 1) \<le> 2 powi (53 + e)"
    by (simp only: powi2_le_iff)
  with ilog2_bounds(2) [OF q] have "q < 2 powi (53 + e)" by linarith
  then have "q / 2 powi e \<le> of_int (2 ^ 53)"
    by (simp add: powi2_add field_simps)
  then have hi: "m \<le> 2 ^ 53"
    using round_even_mono_bounds(2) [of "q / 2 powi e" "2 ^ 53"] by (simp add: m_def)
  have lo: "2 ^ 52 \<le> m" if "e \<noteq> -1074"
  proof -
    from that have "e = ilog2 q - 52" by (simp add: e_def max_def split: if_splits)
    then have "2 powi (52 + e) \<le> q" using ilog2_bounds(1) [OF q] by simp
    then have "of_int (2 ^ 52) \<le> q / 2 powi e"
      by (simp add: powi2_add field_simps)
    then have "2 ^ 52 \<le> round_even (q / 2 powi e)"
      by (rule round_even_mono_bounds(1))
    then show ?thesis by (simp add: m_def)
  qed
  have "-1074 \<le> e" by (simp add: e_def)
  with hi lo False show ?thesis
    by (auto simp: round64_def e_def [symmetric] m_def [symmetric] Let_def)
qed (simp add: round64_def)

text \<open>Rounding a value that is a float changes nothing.\<close>

lemma round64_exact:
  assumes "wf64 (F_fin s m e)"
  shows "round64 t (mag64 (F_fin s m e)) = F_fin t m e"
proof (cases "m = 0")
  case False
  define q where "q = mag64 (F_fin s m e)"
  have q: "0 < q" using False by (simp add: q_def)
  have m: "q / 2 powi e = of_int (int m)" by (simp add: q_def)
  have up: "q < 2 powi (53 + e)"
  proof -
    have "(of_nat m :: rat) < of_nat (2 ^ 53)" using assms by (simp only: of_nat_less_iff wf64.simps)
    then show ?thesis by (simp add: q_def powi2_add)
  qed
  have "max (ilog2 q - 52) (-1074) = e"
  proof (cases "2 ^ 52 \<le> m")
    case True
    then have "(of_nat (2 ^ 52) :: rat) \<le> of_nat m" by (simp only: of_nat_le_iff)
    then have "2 powi (52 + e) \<le> q" by (simp add: q_def powi2_add)
    with q up have "ilog2 q = 52 + e" by (intro ilog2_eqI) simp_all
    with assms show ?thesis by simp
  next
    case small: False
    with assms have e: "e = -1074" by simp
    have "(of_nat m :: rat) < of_nat (2 ^ 52)" using small by (simp only: of_nat_less_iff not_le)
    then have "q < 2 powi (52 + e)" by (simp add: q_def powi2_add)
    then have "2 powi ilog2 q < (2 :: rat) powi (52 + e)"
      using ilog2_bounds(1) [OF q] by linarith
    then have "ilog2 q < 52 + e" by (simp only: powi2_less_iff)
    with e show ?thesis by simp
  qed
  moreover have "m \<noteq> 2 ^ 53" "e \<le> 971" using assms by auto
  moreover have "nat (round_even (q / 2 powi e)) = m" by (simp only: m round_even_of_int nat_int)
  ultimately show ?thesis
    unfolding q_def [symmetric] using q by (simp add: round64_def Let_def)
qed (use assms in \<open>simp add: round64_def\<close>)

section \<open>Arithmetic and comparison\<close>

text \<open>
  \<open>f64_add\<close>, \<open>f64_div\<close> and \<open>f64_less\<close> are \<^verbatim>\<open>+\<close>, \<^verbatim>\<open>/\<close> and \<^verbatim>\<open><\<close> on
  \<^verbatim>\<open>float64\<close>; \<open>f64_of_int\<close> is the conversion \<^verbatim>\<open>float64(n)\<close>.
\<close>

definition f64_of_int :: "int \<Rightarrow> float64" where
  "f64_of_int n = round64 (n < 0) (of_int \<bar>n\<bar>)"

fun f64_sign :: "float64 \<Rightarrow> bool" where
  "f64_sign (F_fin s m e) = s"
| "f64_sign (F_inf s) = s"
| "f64_sign F_nan = False"

fun f64_add :: "float64 \<Rightarrow> float64 \<Rightarrow> float64" where
  "f64_add (F_fin s m e) (F_fin t n f) =
     (let v = val64 (F_fin s m e) + val64 (F_fin t n f) in
      if v = 0 then F_fin (s \<and> t) 0 (-1074) else round64 (v < 0) \<bar>v\<bar>)"
| "f64_add (F_inf s) (F_inf t) = (if s = t then F_inf s else F_nan)"
| "f64_add (F_inf s) (F_fin t n f) = F_inf s"
| "f64_add (F_fin s m e) (F_inf t) = F_inf t"
| "f64_add _ _ = F_nan"

fun f64_div :: "float64 \<Rightarrow> float64 \<Rightarrow> float64" where
  "f64_div (F_fin s m e) (F_fin t n f) =
     (if n = 0 then (if m = 0 then F_nan else F_inf (s \<noteq> t))
      else round64 (s \<noteq> t) (mag64 (F_fin s m e) / mag64 (F_fin t n f)))"
| "f64_div (F_inf s) (F_fin t n f) = F_inf (s \<noteq> t)"
| "f64_div (F_fin s m e) (F_inf t) = F_fin (s \<noteq> t) 0 (-1074)"
| "f64_div _ _ = F_nan"

fun f64_less :: "float64 \<Rightarrow> float64 \<Rightarrow> bool" where
  "f64_less (F_fin s m e) (F_fin t n f) = (val64 (F_fin s m e) < val64 (F_fin t n f))"
| "f64_less (F_inf s) (F_fin t n f) = s"
| "f64_less (F_fin s m e) (F_inf t) = (\<not> t)"
| "f64_less (F_inf s) (F_inf t) = (s \<and> \<not> t)"
| "f64_less _ _ = False"

abbreviation f64_zero :: float64 where
  "f64_zero \<equiv> F_fin False 0 (-1074)"

abbreviation f64_one :: float64 where
  "f64_one \<equiv> F_fin False (2 ^ 52) (-52)"

lemma wf64_zero_one: "wf64 f64_zero" "wf64 f64_one"
  by simp_all

lemma val64_one: "val64 f64_one = 1"
  by (simp add: power_int_minus)

text \<open>Whole numbers up to \<open>2 ^ 53\<close> are floats, and conversion to them is exact.\<close>

lemma f64_of_nat_exact:
  assumes "n \<le> 2 ^ 53"
  shows "\<exists>m e. f64_of_int (int n) = F_fin False m e \<and> wf64 (F_fin False m e)
           \<and> val64 (F_fin False m e) = of_nat n"
proof (cases "n = 0")
  case True
  then show ?thesis by (simp add: f64_of_int_def round64_def)
next
  case False
  define x where "x = ilog2 (of_nat n)"
  have n: "(0 :: rat) < of_nat n" using False by simp
  have b: "2 powi x \<le> (of_nat n :: rat)" "(of_nat n :: rat) < 2 powi (x + 1)"
    using ilog2_bounds [OF n] by (simp_all add: x_def)
  have "x \<le> 53"
  proof (rule ccontr)
    assume "\<not> x \<le> 53"
    then have "(2 :: rat) powi 54 \<le> 2 powi x" by (simp only: powi2_le_iff)
    also note b(1)
    also have "(of_nat n :: rat) \<le> of_nat (2 ^ 53)" using assms by (simp only: of_nat_le_iff)
    finally show False by simp
  qed
  have x0: "0 \<le> x"
  proof (rule ccontr)
    assume "\<not> 0 \<le> x"
    then have "(2 :: rat) powi (x + 1) \<le> 2 powi 0" by (simp only: powi2_le_iff)
    with b(2) False show False by simp
  qed
  show ?thesis
  proof (cases "n = 2 ^ 53")
    case True
    have "wf64 (F_fin False (2 ^ 52) 1)" by simp
    from round64_exact [OF this, of False] True show ?thesis
      by (simp add: f64_of_int_def)
  next
    case less: False
    define e where "e = x - 52"
    define m where "m = n * 2 ^ nat (- e)"
    have "x \<le> 52"
    proof (rule ccontr)
      assume "\<not> x \<le> 52"
      then have "(2 :: rat) powi 53 \<le> 2 powi x" by (simp only: powi2_le_iff)
      with b(1) have "(of_nat (2 ^ 53) :: rat) \<le> of_nat n" by simp
      then have "2 ^ 53 \<le> n" by (simp only: of_nat_le_iff)
      with assms less show False by simp
    qed
    then have e: "e \<le> 0" "-1074 \<le> e" using x0 by (simp_all add: e_def)
    have pw: "(2 :: rat) ^ nat (- e) = 2 powi (- e)"
      using e by (simp add: power_int_nonneg_exp)
    have mq: "(of_nat m :: rat) = of_nat n * 2 powi (- e)"
      by (simp add: m_def pw)
    have "(2 :: rat) powi 52 \<le> of_nat m" "(of_nat m :: rat) < 2 powi 53"
      using b by (simp_all add: mq e_def power_int_diff power_int_add power_int_minus field_simps)
    then have "(of_nat (2 ^ 52) :: rat) \<le> of_nat m" "(of_nat m :: rat) < of_nat (2 ^ 53)"
      by simp_all
    then have "2 ^ 52 \<le> m" "m < 2 ^ 53" by (simp_all only: of_nat_le_iff of_nat_less_iff)
    with e have wf: "wf64 (F_fin False m e)" by simp
    have v: "mag64 (F_fin False m e) = of_nat n"
      by (simp add: mq power_int_minus)
    show ?thesis
      using round64_exact [OF wf, of False] wf v by (auto simp: f64_of_int_def)
  qed
qed

section \<open>Counting and ratios\<close>

text \<open>Rounding is monotone on the nonnegative values.\<close>

definition exp64 :: "rat \<Rightarrow> int" where
  "exp64 q = max (ilog2 q - 52) (-1074)"

lemma round_even_mono: "p \<le> q \<Longrightarrow> round_even p \<le> round_even q"
proof (cases "\<lfloor>p\<rfloor> = \<lfloor>q\<rfloor>")
  case True
  assume "p \<le> q"
  then show ?thesis using True by (auto simp: round_even_def Let_def)
next
  case False
  assume "p \<le> q"
  with False have "\<lfloor>p\<rfloor> + 1 \<le> \<lfloor>q\<rfloor>" using floor_mono [of p q] by linarith
  moreover have "round_even p \<le> \<lfloor>p\<rfloor> + 1" "\<lfloor>q\<rfloor> \<le> round_even q"
    by (auto simp: round_even_def Let_def)
  ultimately show ?thesis by linarith
qed

lemma mag64_round64:
  assumes "0 < q" "exp64 q < 971"
  shows "mag64 (round64 s q) = of_int (round_even (q / 2 powi exp64 q)) * 2 powi exp64 q"
    and "\<exists>m e. round64 s q = F_fin s m e"
proof -
  have "0 \<le> round_even (q / 2 powi exp64 q)"
    using round_even_mono_bounds(1) [of 0 "q / 2 powi exp64 q"] assms(1) by simp
  moreover have "(of_nat (2 ^ 52) :: rat) * 2 powi (exp64 q + 1) = of_nat (2 ^ 53) * 2 powi exp64 q"
    by (simp add: powi2_add)
  moreover have "nat x = 2 ^ 53 \<Longrightarrow> (of_int x :: rat) = of_nat (2 ^ 53)" for x
    by (metis nat_eq_iff2 of_int_of_nat_eq power_eq_0_iff zero_neq_numeral)
  ultimately show "mag64 (round64 s q) = of_int (round_even (q / 2 powi exp64 q)) * 2 powi exp64 q"
    using assms by (auto simp: round64_def Let_def exp64_def [symmetric])
  show "\<exists>m e. round64 s q = F_fin s m e"
    using assms by (auto simp: round64_def Let_def exp64_def [symmetric])
qed

lemma ilog2_mono: "0 < p \<Longrightarrow> p \<le> q \<Longrightarrow> ilog2 p \<le> ilog2 q"
proof (rule ccontr)
  assume a: "0 < p" "p \<le> q" "\<not> ilog2 p \<le> ilog2 q"
  then have "(2 :: rat) powi (ilog2 q + 1) \<le> 2 powi ilog2 p" by (simp only: powi2_le_iff)
  with ilog2_bounds [of p] ilog2_bounds [of q] a show False by linarith
qed

lemma mag64_round64_mono:
  assumes p: "0 < p" and pq: "p \<le> q" and e: "exp64 q < 971"
  shows "mag64 (round64 s p) \<le> mag64 (round64 t q)"
proof -
  have q: "0 < q" using p pq by linarith
  have le: "exp64 p \<le> exp64 q" using ilog2_mono [OF p pq] by (simp add: exp64_def)
  note m = mag64_round64(1) [OF p, of s] mag64_round64(1) [OF q e, of t]
  show ?thesis
  proof (cases "exp64 p = exp64 q")
    case True
    have "round_even (p / 2 powi exp64 q) \<le> round_even (q / 2 powi exp64 q)"
      by (rule round_even_mono) (use pq in \<open>simp add: divide_right_mono\<close>)
    then show ?thesis using m e True by simp
  next
    case False
    with le have lt: "exp64 p < exp64 q" by simp
    then have eq: "exp64 q = ilog2 q - 52" unfolding exp64_def by linarith
    have "ilog2 p + 1 \<le> exp64 p + 53" by (simp add: exp64_def)
    then have "(2 :: rat) powi (ilog2 p + 1) \<le> 2 powi (exp64 p + 53)" by (simp only: powi2_le_iff)
    then have "p < 2 powi (exp64 p + 53)" using ilog2_bounds(2) [OF p] by linarith
    then have "p / 2 powi exp64 p \<le> of_int (2 ^ 53)" by (simp add: powi2_add field_simps)
    then have "round_even (p / 2 powi exp64 p) \<le> 2 ^ 53" by (rule round_even_mono_bounds(2))
    then have "(of_int (round_even (p / 2 powi exp64 p)) :: rat) \<le> of_int (2 ^ 53)"
      by (simp only: of_int_le_iff)
    then have a: "mag64 (round64 s p) \<le> 2 powi (exp64 p + 53)"
      using m(1) lt e by (simp add: powi2_add)
    have "2 powi (52 + exp64 q) \<le> q" using ilog2_bounds(1) [OF q] eq by simp
    then have "of_int (2 ^ 52) \<le> q / 2 powi exp64 q" by (simp add: powi2_add field_simps)
    then have "2 ^ 52 \<le> round_even (q / 2 powi exp64 q)" by (rule round_even_mono_bounds(1))
    then have "(of_int (2 ^ 52) :: rat) \<le> of_int (round_even (q / 2 powi exp64 q))"
      by (simp only: of_int_le_iff)
    then have b: "2 powi (exp64 q + 52) \<le> mag64 (round64 t q)"
      using m(2) by (simp add: powi2_add)
    have "(2 :: rat) powi (exp64 p + 53) \<le> 2 powi (exp64 q + 52)" using lt by (simp only: powi2_le_iff)
    with a b show ?thesis by linarith
  qed
qed

lemma exp64_le_1:
  assumes "0 < q" "q \<le> 1"
  shows "exp64 q < 971"
proof -
  have "ilog2 1 = 0" by (rule ilog2_eqI) simp_all
  then have "ilog2 q \<le> 0" using ilog2_mono [OF assms] by simp
  then show ?thesis by (simp add: exp64_def)
qed

lemma f64_of_nat_succ:
  assumes "n < 2 ^ 53"
  shows "f64_add (f64_of_int (int n)) f64_one = f64_of_int (int (Suc n))"
proof -
  obtain m e where "f64_of_int (int n) = F_fin False m e" "val64 (F_fin False m e) = of_nat n"
    using f64_of_nat_exact [of n] assms by auto
  then show ?thesis
    by (simp add: val64_one [simplified] f64_of_int_def [of "1 + int n"])
       (simp add: add.commute)
qed

text \<open>The share of \<open>c\<close> hosts among \<open>t\<close>.\<close>

definition share64 :: "nat \<Rightarrow> nat \<Rightarrow> float64" where
  "share64 c t = f64_div (f64_of_int (int c)) (f64_of_int (int t))"

lemma share64_round:
  assumes "c \<le> t" "0 < t" "t \<le> 2 ^ 53"
  shows "share64 c t = round64 False (of_nat c / of_nat t)"
proof -
  obtain m e n f where c: "f64_of_int (int c) = F_fin False m e" "val64 (F_fin False m e) = of_nat c"
    and t: "f64_of_int (int t) = F_fin False n f" "val64 (F_fin False n f) = of_nat t"
    using f64_of_nat_exact [of c] f64_of_nat_exact [of t] assms by (auto simp: order_trans)
  have "n \<noteq> 0"
  proof
    assume "n = 0"
    with t(2) assms(2) show False by simp
  qed
  then show ?thesis using c t by (simp add: share64_def)
qed

lemma share64_facts:
  assumes "0 < c" "c \<le> t" "t \<le> 2 ^ 52"
  shows "\<exists>m e. share64 c t = F_fin False m e" "0 < val64 (share64 c t)"
    "val64 (share64 c t) \<le> 1" "val64 (share64 c t) = 1 \<longleftrightarrow> c = t"
proof -
  let ?q = "of_nat c / of_nat t :: rat"
  have t: "0 < t" using assms by simp
  have q: "0 < ?q" "?q \<le> 1" using assms t by (simp_all add: field_simps)
  have s: "share64 c t = round64 False ?q" using share64_round [of c t] assms by simp
  obtain m e where me: "share64 c t = F_fin False m e"
    using mag64_round64(2) [OF q(1) exp64_le_1 [OF q], of False] s by auto
  then show "\<exists>m e. share64 c t = F_fin False m e" by blast
  have v: "val64 (share64 c t) = mag64 (round64 False ?q)" using me s by simp
  have one: "round64 False 1 = f64_one"
    using round64_exact [of False "2 ^ 52" "-52" False] by (simp add: power_int_minus)
  show "val64 (share64 c t) \<le> 1"
    using mag64_round64_mono [OF q, of False False] one v exp64_le_1 [of 1] by (simp add: power_int_minus)
  have tiny: "(2 :: rat) powi (- 52) \<le> ?q"
  proof -
    have "(of_nat t :: rat) \<le> of_nat (2 ^ 52)" using assms(3) by (simp only: of_nat_le_iff)
    then have "1 / of_nat (2 ^ 52) \<le> (1 / of_nat t :: rat)" using t by (simp add: frac_le)
    also have "\<dots> \<le> ?q" using assms(1) t by (simp add: divide_right_mono)
    finally show ?thesis by (simp add: power_int_minus inverse_eq_divide)
  qed
  have wf1: "wf64 (F_fin False (2 ^ 52) (- 104))" "mag64 (F_fin False (2 ^ 52) (- 104)) = 2 powi (- 52)"
    by (simp_all add: power_int_minus field_simps)
  have "mag64 (round64 False (2 powi (- 52))) \<le> mag64 (round64 False ?q)"
    by (rule mag64_round64_mono [OF _ tiny exp64_le_1 [OF q]]) simp
  then have "(2 :: rat) powi (- 52) \<le> val64 (share64 c t)"
    using round64_exact [OF wf1(1), of False] wf1(2) v by simp
  then show "0 < val64 (share64 c t)" using powi2_pos [of "-52"] by linarith
  show "val64 (share64 c t) = 1 \<longleftrightarrow> c = t"
  proof
    assume "c = t"
    then show "val64 (share64 c t) = 1" using v one t by (simp add: power_int_minus)
  next
    assume r: "val64 (share64 c t) = 1"
    show "c = t"
    proof (rule ccontr)
      assume "c \<noteq> t"
      then have "c + 1 \<le> t" using assms(2) by simp
      then have "(of_nat c + 1 :: rat) \<le> of_nat t" by (metis of_nat_1 of_nat_add of_nat_le_iff)
      then have "?q \<le> 1 - 1 / of_nat t" using t by (simp add: field_simps)
      moreover have "1 / (2 ^ 52) \<le> (1 / of_nat t :: rat)"
      proof -
        have "(of_nat t :: rat) \<le> of_nat (2 ^ 52)" using assms(3) by (simp only: of_nat_le_iff)
        then show ?thesis using t by (simp add: frac_le)
      qed
      ultimately have le: "?q \<le> 1 - 1 / 2 ^ 52" by linarith
      have wf2: "wf64 (F_fin False (2 ^ 53 - 2) (- 53))"
        "mag64 (F_fin False (2 ^ 53 - 2) (- 53)) = 1 - 1 / 2 ^ 52"
        by (simp_all add: power_int_minus field_simps)
      have pos: "(0 :: rat) < 1 - 1 / 2 ^ 52" "(1 :: rat) - 1 / 2 ^ 52 \<le> 1" by simp_all
      have "mag64 (round64 False ?q) \<le> mag64 (round64 False (1 - 1 / 2 ^ 52))"
        by (rule mag64_round64_mono [OF q(1) le exp64_le_1 [OF pos]])
      then have "val64 (share64 c t) \<le> 1 - 1 / 2 ^ 52"
        using round64_exact [OF wf2(1), of False] wf2(2) v by simp
      with r show False by simp
    qed
  qed
qed

lemma share64_mono:
  assumes "c \<le> d" "d \<le> t" "0 < t" "t \<le> 2 ^ 52"
  shows "val64 (share64 c t) \<le> val64 (share64 d t)"
proof (cases "c = 0")
  case True
  then have "share64 c t = F_fin False 0 (-1074)"
    using share64_round [of c t] assms by (simp add: round64_def)
  moreover have "0 \<le> val64 (share64 d t)"
    using share64_facts(2) [of d t] assms share64_round [of d t] by (cases "d = 0") (auto simp: round64_def)
  ultimately show ?thesis by simp
next
  case False
  let ?p = "of_nat c / of_nat t :: rat" and ?q = "of_nat d / of_nat t :: rat"
  have pq: "0 < ?p" "?p \<le> ?q" "0 < ?q" "?q \<le> 1" using False assms by (simp_all add: field_simps)
  have "mag64 (round64 False ?p) \<le> mag64 (round64 False ?q)"
    by (rule mag64_round64_mono [OF pq(1,2) exp64_le_1 [OF pq(3,4)]])
  moreover obtain m e where "round64 False ?p = F_fin False m e"
    using mag64_round64(2) [OF pq(1) exp64_le_1, of False] pq by force
  moreover obtain n f where "round64 False ?q = F_fin False n f"
    using mag64_round64(2) [OF pq(3) exp64_le_1 [OF pq(3,4)], of False] by blast
  ultimately show ?thesis using share64_round [of c t] share64_round [of d t] assms by simp
qed

end
