(* ===== verification/JsonNumber.thy ===== *)
theory JsonNumber
  imports GoFloat
begin

text \<open>
  JSON number literals: the text \<^verbatim>\<open>encoding/json\<close> prints for a \<^verbatim>\<open>float64\<close> (the
  shortest decimal that reads back as the same value, in exponent form below \<open>1e-6\<close>
  and from \<open>1e21\<close> on), the scanner for number literals and the conversion of a
  literal to the nearest float. \<open>scan_json_f64\<close> is the round trip.
\<close>

section \<open>Decimal digits\<close>

fun digits :: "nat \<Rightarrow> nat list" where
  "digits n = (if n < 10 then [n] else digits (n div 10) @ [n mod 10])"

declare digits.simps [simp del]

definition undigits :: "nat list \<Rightarrow> nat" where
  "undigits ds = foldl (\<lambda>a d. 10 * a + d) 0 ds"

definition digit_char :: "nat \<Rightarrow> char" where
  "digit_char d = char_of (48 + d)"

definition char_digit :: "char \<Rightarrow> nat" where
  "char_digit c = of_char c - 48"

definition is_digit :: "char \<Rightarrow> bool" where
  "is_digit c = (48 \<le> (of_char c :: nat) \<and> (of_char c :: nat) \<le> 57)"

definition nat_text :: "nat \<Rightarrow> string" where
  "nat_text n = map digit_char (digits n)"

definition text_nat :: "string \<Rightarrow> nat" where
  "text_nat s = undigits (map char_digit s)"

lemma undigits_snoc [simp]: "undigits (ds @ [d]) = 10 * undigits ds + d"
  by (simp add: undigits_def)

lemma undigits_Nil [simp]: "undigits [] = 0"
  by (simp add: undigits_def)

lemma undigits_digits [simp]: "undigits (digits n) = n"
proof (induction n rule: digits.induct)
  case (1 n)
  then show ?case by (subst digits.simps) (auto simp: undigits_def)
qed

lemma digits_small: "d \<in> set (digits n) \<Longrightarrow> d < 10"
proof (induction n rule: digits.induct)
  case (1 n)
  then show ?case by (subst (asm) (2) digits.simps) (auto split: if_splits)
qed

lemma digits_nonempty [simp]: "digits n \<noteq> []"
  by (subst digits.simps) simp

lemma hd_digits: "0 < n \<Longrightarrow> hd (digits n) \<noteq> 0"
proof (induction n rule: digits.induct)
  case (1 n)
  then show ?case by (subst digits.simps) (auto simp: hd_append)
qed

lemma digit_char_digit: "d < 10 \<Longrightarrow> char_digit (digit_char d) = d"
  by (simp add: char_digit_def digit_char_def)

lemma is_digit_char: "d < 10 \<Longrightarrow> is_digit (digit_char d)"
  by (simp add: is_digit_def digit_char_def)

lemma digit_char_eq_0:
  assumes "d < 10"
  shows "digit_char d = CHR ''0'' \<longleftrightarrow> d = 0"
proof
  assume "digit_char d = CHR ''0''"
  then have "char_digit (digit_char d) = char_digit (CHR ''0'')" by simp
  with assms show "d = 0" by (simp add: digit_char_digit) (simp add: char_digit_def)
next
  have "digit_char 0 = CHR ''0''" by code_simp
  then show "d = 0 \<Longrightarrow> digit_char d = CHR ''0''" by simp
qed

lemma nat_text_digits: "list_all is_digit (nat_text n)"
  by (auto simp: nat_text_def list_all_iff is_digit_char digits_small)

lemma nat_text_nonempty [simp]: "nat_text n \<noteq> []"
  by (simp add: nat_text_def)

lemma text_nat_nat_text [simp]: "text_nat (nat_text n) = n"
proof -
  have "map (char_digit \<circ> digit_char) (digits n) = digits n"
    by (rule map_idI) (simp add: digit_char_digit digits_small)
  then show ?thesis by (simp add: text_nat_def nat_text_def)
qed

lemma hd_nat_text: "0 < n \<Longrightarrow> hd (nat_text n) \<noteq> CHR ''0''"
  using hd_digits [of n] digits_small [of "hd (digits n)" n]
  by (simp add: nat_text_def hd_map digit_char_eq_0)

lemma text_nat_append_zeros: "text_nat (s @ replicate k (CHR ''0'')) = text_nat s * 10 ^ k"
proof (induction k)
  case (Suc k)
  have "text_nat (s @ replicate (Suc k) (CHR ''0''))
      = text_nat ((s @ replicate k (CHR ''0'')) @ [CHR ''0''])"
    by (simp add: replicate_append_same [symmetric])
  also have "\<dots> = 10 * text_nat (s @ replicate k (CHR ''0''))"
    by (simp add: text_nat_def char_digit_def del: append_assoc)
  finally show ?case using Suc by simp
qed simp

lemma text_nat_prepend_zeros: "text_nat (replicate k (CHR ''0'') @ s) = text_nat s"
  by (induction k) (simp_all add: text_nat_def undigits_def char_digit_def)

section \<open>Printing: the shortest decimal that reads back\<close>

text \<open>
  A decimal \<open>(d, k)\<close> is \<open>d * 10 ^ k\<close>. \<open>strip10\<close> moves trailing zeros of \<open>d\<close> into
  the exponent. \<open>dec_cands n v\<close> are the decimals of \<open>n\<close> digits next to \<open>v\<close>, the
  nearer first; \<open>shortest_from\<close> tries \<open>n = 1, 2, ..., 17\<close> digits and takes the first
  candidate that rounds to the given float. 17 digits are enough for every float; the
  exact decimal expansion stands behind the search, so that the result always reads
  back.
\<close>

type_synonym decimal = "nat \<times> int"

definition dec_val :: "decimal \<Rightarrow> rat" where
  "dec_val = (\<lambda>(d, k). of_nat d * 10 powi k)"

fun strip10 :: "nat \<Rightarrow> int \<Rightarrow> decimal" where
  "strip10 d k = (if 0 < d \<and> d mod 10 = 0 then strip10 (d div 10) (k + 1) else (d, k))"

declare strip10.simps [simp del]

text \<open>\<open>10 powi (dec_exp v - 1) \<le> v < 10 powi dec_exp v\<close>.\<close>

definition dec_exp :: "rat \<Rightarrow> int" where
  "dec_exp v =
     (if 1 \<le> v then int (length (digits (nat \<lfloor>v\<rfloor>)))
      else int (length (digits (nat \<lfloor>v * 10 ^ 400\<rfloor>))) - 400)"

definition dec_cands :: "nat \<Rightarrow> rat \<Rightarrow> decimal list" where
  "dec_cands n v =
     (let k = dec_exp v - int n;
          x = v / 10 powi k;
          lo = \<lfloor>x\<rfloor>;
          r = x - of_int lo;
          down = (nat lo, k);
          up = (nat (lo + 1), k)
      in if r = 0 then [down]
         else if r < 1 / 2 \<or> (r = 1 / 2 \<and> even lo) then [down, up] else [up, down])"

definition dec_exact :: "nat \<Rightarrow> int \<Rightarrow> decimal" where
  "dec_exact m e = (if 0 \<le> e then (m * 2 ^ nat e, 0) else (m * 5 ^ nat (- e), e))"

function shortest_from :: "nat \<Rightarrow> nat \<Rightarrow> int \<Rightarrow> decimal" where
  "shortest_from n m e =
     (if 17 < n then dec_exact m e
      else case find (\<lambda>c. round64 False (dec_val c) = F_fin False m e)
                  (dec_cands n (mag64 (F_fin False m e))) of
             Some c \<Rightarrow> c
           | None \<Rightarrow> shortest_from (Suc n) m e)"
  by pat_completeness auto
termination
  by (relation "measure (\<lambda>(n, m, e). 18 - n)") auto

declare shortest_from.simps [simp del]

definition shortest :: "nat \<Rightarrow> int \<Rightarrow> decimal" where
  "shortest m e = (case shortest_from 1 m e of (d, k) \<Rightarrow> strip10 d k)"

lemma dec_val_strip10 [simp]: "dec_val (strip10 d k) = dec_val (d, k)"
proof (induction d k rule: strip10.induct)
  case (1 d k)
  show ?case
  proof (cases "0 < d \<and> d mod 10 = 0")
    case True
    then have "d = 10 * (d div 10)" by auto
    then have "(of_nat d :: rat) = 10 * of_nat (d div 10)"
      by (metis of_nat_mult of_nat_numeral)
    with 1 True show ?thesis
      by (subst strip10.simps) (simp add: dec_val_def power_int_add)
  qed (subst strip10.simps, auto)
qed

lemma dec_val_exact: "dec_val (dec_exact m e) = of_nat m * 2 powi e"
proof (cases "0 \<le> e")
  case False
  have "(10 :: rat) powi e = inverse (10 ^ nat (- e))" "(2 :: rat) powi e = inverse (2 ^ nat (- e))"
    using False by (simp_all add: power_int_def power_one_over inverse_eq_divide)
  moreover have "(10 :: rat) ^ nat (- e) = 2 ^ nat (- e) * 5 ^ nat (- e)"
    by (simp add: power_mult_distrib [symmetric])
  ultimately show ?thesis using False by (simp add: dec_exact_def dec_val_def)
qed (simp add: dec_exact_def dec_val_def power_int_nonneg_exp)

lemma shortest_from_round:
  assumes "wf64 (F_fin False m e)"
  shows "round64 False (dec_val (shortest_from n m e)) = F_fin False m e"
  using assms
proof (induction n m e rule: shortest_from.induct)
  case (1 n m e)
  have exact: "round64 False (dec_val (dec_exact m e)) = F_fin False m e"
    using round64_exact [OF "1.prems", of False] by (simp add: dec_val_exact)
  show ?case
  proof (cases "17 < n")
    case True
    with exact show ?thesis by (subst shortest_from.simps) simp
  next
    case False
    with 1 show ?thesis
      by (subst shortest_from.simps) (auto simp: find_Some_iff split: option.split)
  qed
qed

lemma shortest_round:
  "wf64 (F_fin False m e) \<Longrightarrow> round64 False (dec_val (shortest m e)) = F_fin False m e"
  using shortest_from_round [of m e 1]
  by (cases "shortest_from 1 m e") (simp add: shortest_def)

lemma shortest_pos:
  assumes "wf64 (F_fin False m e)" "0 < m"
  shows "0 < fst (shortest m e)"
proof (rule ccontr)
  assume "\<not> 0 < fst (shortest m e)"
  then have "dec_val (shortest m e) = 0" by (cases "shortest m e") (simp add: dec_val_def)
  with shortest_round [OF assms(1)] assms(2) show False by (simp add: round64_def)
qed

text \<open>
  \<open>fixed_text\<close> and \<open>expo_text\<close> are \<^verbatim>\<open>strconv.AppendFloat\<close> in the formats \<^verbatim>\<open>'f'\<close> and
  \<^verbatim>\<open>'e'\<close> on the shortest decimal; \<^verbatim>\<open>encoding/json\<close> removes the padding zero of a
  negative exponent, and exponents from 21 on need no padding.
\<close>

fun fixed_text :: "decimal \<Rightarrow> string" where
  "fixed_text (d, k) =
     (if 0 \<le> k then nat_text d @ replicate (nat k) (CHR ''0'')
      else let n = nat (- k);
               t = nat_text d;
               p = replicate (n + 1 - length t) (CHR ''0'') @ t
           in take (length p - n) p @ CHR ''.'' # drop (length p - n) p)"

fun expo_text :: "decimal \<Rightarrow> string" where
  "expo_text (d, k) =
     (let t = nat_text d;
          x = k + int (length t) - 1
      in hd t # (if tl t = [] then [] else CHR ''.'' # tl t) @ CHR ''e''
           # (if x < 0 then CHR ''-'' else CHR ''+'') # nat_text (nat \<bar>x\<bar>))"

fun json_f64 :: "float64 \<Rightarrow> string" where
  "json_f64 (F_fin s m e) =
     (let v = mag64 (F_fin False m e) in
      (if s then [CHR ''-''] else []) @
      (if m = 0 then ''0''
       else if v < 1 / 10 ^ 6 \<or> 10 ^ 21 \<le> v then expo_text (shortest m e)
       else fixed_text (shortest m e)))"
| "json_f64 _ = []"

section \<open>Reading a number literal\<close>

text \<open>
  \<open>scan_number s\<close> reads the longest number literal at the start of \<open>s\<close> by the JSON
  grammar (no leading zeros, at least one digit after the point and in the exponent)
  and gives its sign, integer digits, fraction digits, exponent and the rest.
\<close>

definition scan_exponent :: "string \<Rightarrow> (int \<times> string) option" where
  "scan_exponent s =
     (case s of
        [] \<Rightarrow> Some (0, s)
      | c # t \<Rightarrow>
          if c = CHR ''e'' \<or> c = CHR ''E''
          then let neg = (t \<noteq> [] \<and> hd t = CHR ''-'');
                   u = (if t \<noteq> [] \<and> (hd t = CHR ''-'' \<or> hd t = CHR ''+'') then tl t else t);
                   x = takeWhile is_digit u
               in if x = [] then None
                  else Some (if neg then - int (text_nat x) else int (text_nat x), dropWhile is_digit u)
          else Some (0, s))"

definition scan_fraction :: "string \<Rightarrow> (string \<times> string) option" where
  "scan_fraction s =
     (case s of
        [] \<Rightarrow> Some ([], s)
      | c # t \<Rightarrow>
          if c = CHR ''.''
          then (if takeWhile is_digit t = [] then None
                else Some (takeWhile is_digit t, dropWhile is_digit t))
          else Some ([], s))"

definition number_val :: "bool \<Rightarrow> string \<Rightarrow> string \<Rightarrow> int \<Rightarrow> float64" where
  "number_val neg i f x =
     round64 neg (of_nat (text_nat (i @ f)) * 10 powi (x - int (length f)))"

definition scan_unsigned :: "bool \<Rightarrow> string \<Rightarrow> (float64 \<times> string) option" where
  "scan_unsigned neg s =
     (let i = takeWhile is_digit s in
      if i = [] \<or> (hd i = CHR ''0'' \<and> 1 < length i) then None
      else case scan_fraction (dropWhile is_digit s) of
             None \<Rightarrow> None
           | Some (f, s2) \<Rightarrow>
               (case scan_exponent s2 of
                  None \<Rightarrow> None
                | Some (x, rest) \<Rightarrow> Some (number_val neg i f x, rest)))"

definition scan_number :: "string \<Rightarrow> (float64 \<times> string) option" where
  "scan_number s =
     (if s \<noteq> [] \<and> hd s = CHR ''-'' then scan_unsigned True (tl s) else scan_unsigned False s)"

text \<open>Text that cannot continue a number literal.\<close>

definition number_stop :: "string \<Rightarrow> bool" where
  "number_stop s = (s = [] \<or> \<not> (is_digit (hd s) \<or> hd s \<in> set ''.eE''))"

section \<open>Round trip\<close>

lemma digits_takeWhile:
  assumes "list_all is_digit t" "rest = [] \<or> \<not> is_digit (hd rest)"
  shows "takeWhile is_digit (t @ rest) = t" "dropWhile is_digit (t @ rest) = rest"
  using assms by (induction t) (cases rest; auto)+

lemma number_stop_scan [simp]:
  assumes "number_stop rest"
  shows "scan_fraction rest = Some ([], rest)" "scan_exponent rest = Some (0, rest)"
    "rest = [] \<or> \<not> is_digit (hd rest)"
  using assms by (auto simp: number_stop_def scan_fraction_def scan_exponent_def split: list.split)

lemma not_digit_chars [simp]:
  "\<not> is_digit (CHR ''.'')" "\<not> is_digit (CHR ''e'')" "\<not> is_digit (CHR ''-'')"
  "is_digit (CHR ''0'')"
  by (simp_all add: is_digit_def)

lemma scan_exponent_text:
  assumes "number_stop rest"
  shows "scan_exponent (CHR ''e'' # (if x < 0 then CHR ''-'' else CHR ''+'')
           # nat_text (nat \<bar>x\<bar>) @ rest) = Some (x, rest)"
proof -
  define n where "n = nat \<bar>x\<bar>"
  have "(if x < 0 then - int n else int n) = x" by (simp add: n_def)
  then show ?thesis
    using digits_takeWhile [OF nat_text_digits number_stop_scan(3) [OF assms], of n]
    unfolding n_def [symmetric] by (auto simp: scan_exponent_def Let_def)
qed

lemma scan_unsigned_parts:
  assumes "list_all is_digit i" "i \<noteq> []" "hd i = CHR ''0'' \<longrightarrow> length i \<le> 1"
    and "s2 = [] \<or> \<not> is_digit (hd s2)"
    and "scan_fraction s2 = Some (f, s3)" "scan_exponent s3 = Some (x, rest)"
  shows "scan_unsigned neg (i @ s2) = Some (number_val neg i f x, rest)"
  using assms digits_takeWhile [OF assms(1,4)] by (auto simp: scan_unsigned_def Let_def)

lemma scan_fraction_text:
  assumes "list_all is_digit f" "f \<noteq> []" "rest = [] \<or> \<not> is_digit (hd rest)"
  shows "scan_fraction (CHR ''.'' # f @ rest) = Some (f, rest)"
  using assms(2) digits_takeWhile [OF assms(1,3)] by (simp add: scan_fraction_def)

lemma fixed_text_neg:
  assumes "\<not> 0 \<le> k" "n = nat (- k)" "t = nat_text d"
    "p = replicate (n + 1 - length t) (CHR ''0'') @ t"
  shows "fixed_text (d, k) = take (length p - n) p @ CHR ''.'' # drop (length p - n) p"
  unfolding assms(2-4) using assms(1) by (simp only: fixed_text.simps if_False Let_def)

lemma if_two: "\<not> a \<Longrightarrow> (if a then z else if b then x else y) \<in> {x, y}"
  by simp

lemma scan_fixed_text:
  assumes d: "0 < d" and stop: "number_stop rest"
  shows "scan_unsigned neg (fixed_text (d, k) @ rest) = Some (round64 neg (dec_val (d, k)), rest)"
proof (cases "0 \<le> k")
  case True
  define i where "i = nat_text d @ replicate (nat k) (CHR ''0'')"
  have "list_all is_digit i" using nat_text_digits [of d] by (auto simp: i_def list_all_iff)
  moreover have "hd i \<noteq> CHR ''0''" using hd_nat_text [OF d] by (simp add: i_def)
  ultimately have "scan_unsigned neg (i @ rest) = Some (number_val neg i [] 0, rest)"
    using stop by (intro scan_unsigned_parts) (auto simp: i_def)
  moreover have "number_val neg i [] 0 = round64 neg (dec_val (d, k))"
    using True by (simp add: number_val_def i_def text_nat_append_zeros dec_val_def power_int_nonneg_exp)
  ultimately show ?thesis using True by (simp add: i_def)
next
  case False
  define n where "n = nat (- k)"
  define t where "t = nat_text d"
  define p where "p = replicate (n + 1 - length t) (CHR ''0'') @ t"
  define i f where "i = take (length p - n) p" and "f = drop (length p - n) p"
  have n: "0 < n" using False by (simp add: n_def)
  have len: "n < length p" by (simp add: p_def)
  have dig: "list_all is_digit p"
    using nat_text_digits [of d] by (auto simp: p_def t_def list_all_iff)
  then have di: "list_all is_digit i" "list_all is_digit f"
    by (auto simp: i_def f_def list_all_iff dest: in_set_takeD in_set_dropD)
  have ne: "i \<noteq> []" "f \<noteq> []" "length f = n" using len n by (auto simp: i_def f_def)
  have lead: "hd i = CHR ''0'' \<longrightarrow> length i \<le> 1"
  proof (cases "n < length t")
    case True
    then have "hd i = hd t" by (simp add: i_def p_def)
    then show ?thesis using hd_nat_text [OF d] by (simp add: t_def)
  qed (simp add: i_def p_def)
  have fr: "scan_fraction (CHR ''.'' # f @ rest) = Some (f, rest)"
    by (rule scan_fraction_text [OF di(2) ne(2) number_stop_scan(3) [OF stop]])
  have "scan_unsigned neg (i @ CHR ''.'' # f @ rest) = Some (number_val neg i f 0, rest)"
    using di ne lead stop by (intro scan_unsigned_parts [OF _ _ _ _ fr]) auto
  moreover have "number_val neg i f 0 = round64 neg (dec_val (d, k))"
  proof -
    have "i @ f = p" by (simp add: i_def f_def)
    then have "text_nat (i @ f) = d" by (simp add: p_def text_nat_prepend_zeros t_def)
    moreover have "- int n = k" using False by (simp add: n_def)
    ultimately show ?thesis using ne(3) by (simp add: number_val_def dec_val_def)
  qed
  moreover have "fixed_text (d, k) @ rest = i @ CHR ''.'' # f @ rest"
    by (simp only: fixed_text_neg [OF False n_def t_def p_def] i_def f_def append_assoc append_Cons)
  ultimately show ?thesis by (simp only:)
qed

lemma scan_expo_text:
  assumes d: "0 < d" and stop: "number_stop rest"
  shows "scan_unsigned neg (expo_text (d, k) @ rest) = Some (round64 neg (dec_val (d, k)), rest)"
proof -
  define t where "t = nat_text d"
  define x where "x = k + int (length t) - 1"
  define e where "e = CHR ''e'' # (if x < 0 then CHR ''-'' else CHR ''+'') # nat_text (nat \<bar>x\<bar>) @ rest"
  have t: "t = hd t # tl t" by (simp add: t_def)
  have dt: "list_all is_digit (hd t # tl t)"
    using nat_text_digits [of d] t by (simp add: t_def [symmetric])
  have ex: "scan_exponent e = Some (x, rest)"
    unfolding e_def by (rule scan_exponent_text [OF stop])
  have fr: "scan_fraction ((if tl t = [] then [] else CHR ''.'' # tl t) @ e) = Some (tl t, e)"
  proof (cases "tl t = []")
    case True
    then show ?thesis by (simp add: scan_fraction_def e_def)
  next
    case False
    then show ?thesis using dt by (simp add: scan_fraction_text e_def)
  qed
  have "scan_unsigned neg ([hd t] @ (if tl t = [] then [] else CHR ''.'' # tl t) @ e)
      = Some (number_val neg [hd t] (tl t) x, rest)"
    using dt by (intro scan_unsigned_parts [OF _ _ _ _ fr ex]) (auto simp: e_def)
  moreover have "number_val neg [hd t] (tl t) x = round64 neg (dec_val (d, k))"
  proof -
    have "text_nat ([hd t] @ tl t) = d" using t by (simp add: t_def)
    moreover have "length t = Suc (length (tl t))" using t by (metis length_Cons)
    then have "x - int (length (tl t)) = k" by (simp add: x_def)
    ultimately show ?thesis by (simp add: number_val_def dec_val_def)
  qed
  moreover have "expo_text (d, k) @ rest = [hd t] @ (if tl t = [] then [] else CHR ''.'' # tl t) @ e"
    unfolding expo_text.simps t_def [symmetric] Let_def x_def [symmetric] e_def by simp
  ultimately show ?thesis by (simp only:)
qed

lemma round64_sign: "round64 False q = F_fin False m e \<Longrightarrow> round64 s q = F_fin s m e"
  by (auto simp: round64_def Let_def split: if_splits)

lemma hd_scan_text:
  assumes "0 < d"
  shows "\<exists>c u. fixed_text (d, k) = c # u \<and> is_digit c" "\<exists>c u. expo_text (d, k) = c # u \<and> is_digit c"
proof -
  have t: "nat_text d = hd (nat_text d) # tl (nat_text d)" "is_digit (hd (nat_text d))"
    using nat_text_digits [of d] by (simp, cases "nat_text d") auto
  then show "\<exists>c u. expo_text (d, k) = c # u \<and> is_digit c" by (simp add: Let_def)
  show "\<exists>c u. fixed_text (d, k) = c # u \<and> is_digit c"
  proof (cases "0 \<le> k")
    case True
    then show ?thesis using t by (cases "nat_text d") auto
  next
    case False
    define n t where "n = nat (- k)" and "t = nat_text d"
    define p where "p = replicate (n + 1 - length t) (CHR ''0'') @ t"
    have "list_all is_digit p"
      using nat_text_digits [of d] by (auto simp: p_def t_def list_all_iff)
    moreover have "n < length p" by (simp add: p_def)
    ultimately have ne: "take (length p - n) p \<noteq> []" and dig: "\<forall>c\<in>set p. is_digit c"
      by (auto simp: list_all_iff)
    from hd_in_set [OF ne] have "hd (take (length p - n) p) \<in> set p" by (rule in_set_takeD)
    with dig have hd: "take (length p - n) p \<noteq> []" "is_digit (hd (take (length p - n) p))"
      using ne by blast+
    from hd(1) obtain c u where "take (length p - n) p = c # u" by (meson neq_Nil_conv)
    with hd(2) show ?thesis
      by (simp only: fixed_text_neg [OF False n_def t_def p_def] list.sel append_Cons) blast
  qed
qed

text \<open>What \<^verbatim>\<open>json.Marshal\<close> prints for a finite float reads back as that float.\<close>

lemma scan_json_f64:
  assumes wf: "wf64 x" and stop: "number_stop rest"
  shows "scan_number (json_f64 x @ rest) = Some (x, rest)"
proof -
  obtain s m e where x: "x = F_fin s m e" using wf by (cases x) auto
  have wf': "wf64 (F_fin False m e)" using wf x by simp
  define u where "u = (if m = 0 then ''0''
       else if mag64 (F_fin False m e) < 1 / 10 ^ 6 \<or> 10 ^ 21 \<le> mag64 (F_fin False m e)
       then expo_text (shortest m e) else fixed_text (shortest m e))"
  have u: "scan_unsigned neg (u @ rest) = Some (F_fin neg m e, rest) \<and> u \<noteq> [] \<and> is_digit (hd u)" for neg
  proof (cases "m = 0")
    case True
    then have "scan_unsigned neg (''0'' @ rest) = Some (number_val neg ''0'' [] 0, rest)"
      using stop by (intro scan_unsigned_parts) auto
    moreover have "number_val neg ''0'' [] 0 = F_fin neg m e"
      using True wf' by (simp add: number_val_def text_nat_def undigits_def char_digit_def round64_def)
    ultimately show ?thesis using True by (simp add: u_def)
  next
    case False
    obtain d k where dk: "shortest m e = (d, k)" by fastforce
    have d: "0 < d" using shortest_pos [OF wf'] False dk by simp
    have "round64 neg (dec_val (d, k)) = F_fin neg m e"
      using round64_sign [OF shortest_round [OF wf']] dk by simp
    with scan_fixed_text [OF d stop, of neg k] scan_expo_text [OF d stop, of neg k]
    have scans: "scan_unsigned neg (fixed_text (d, k) @ rest) = Some (F_fin neg m e, rest)"
      "scan_unsigned neg (expo_text (d, k) @ rest) = Some (F_fin neg m e, rest)"
      by simp_all
    have "u \<in> {expo_text (d, k), fixed_text (d, k)}"
      unfolding u_def dk by (rule if_two [OF False])
    then have "u = expo_text (d, k) \<or> u = fixed_text (d, k)" by blast
    then show ?thesis
    proof
      assume "u = expo_text (d, k)"
      with scans(2) hd_scan_text(2) [OF d, of k] show ?thesis by (metis list.sel(1) list.discI)
    next
      assume "u = fixed_text (d, k)"
      with scans(1) hd_scan_text(1) [OF d, of k] show ?thesis by (metis list.sel(1) list.discI)
    qed
  qed
  have "json_f64 x = (if s then [CHR ''-''] else []) @ u"
    by (simp add: x u_def Let_def)
  moreover have "hd u \<noteq> CHR ''-''" using u [of False] by auto
  ultimately show ?thesis
    using u [of True] u [of False] x by (auto simp: scan_number_def)
qed

lemma json_f64_head:
  assumes "wf64 x"
  shows "\<exists>c u. json_f64 x = c # u \<and> (is_digit c \<or> c = CHR ''-'')"
proof -
  obtain s m e where x: "x = F_fin s m e" using assms by (cases x) auto
  have wf': "wf64 (F_fin False m e)" using assms x by simp
  obtain d k where dk: "shortest m e = (d, k)" by fastforce
  have d: "m \<noteq> 0 \<Longrightarrow> 0 < d" using shortest_pos [OF wf'] dk by simp
  show ?thesis
    using hd_scan_text [OF d, of k] dk
    by (cases s; cases "m = 0")
      (auto simp: x Let_def simp del: fixed_text.simps expo_text.simps)
qed

end
