(* ===== verification/JsonString.thy ===== *)
theory JsonString
  imports JsonNumber
begin

text \<open>
  Strings in JSON text, as \<^verbatim>\<open>encoding/json\<close> reads and writes them. A Go string is a
  list of bytes (\<open>char\<close> is a byte). Reading resolves the escapes, joins surrogate pairs
  and replaces invalid UTF-8 and lone surrogates by U+FFFD; writing escapes quotes,
  backslashes, control bytes, the HTML characters and U+2028/U+2029 and replaces invalid
  UTF-8. \<open>scan_string_encode\<close> is the round trip for valid UTF-8, and every string that
  was read is valid UTF-8.
\<close>

section \<open>UTF-8\<close>

definition byte :: "char \<Rightarrow> nat" where
  "byte c = of_char c"

definition cont :: "char \<Rightarrow> bool" where
  "cont c = (128 \<le> byte c \<and> byte c < 192)"

text \<open>
  \<open>utf8_len s\<close> is the length of the UTF-8 sequence at the start of \<open>s\<close>, or 0 where
  there is none (\<^verbatim>\<open>utf8.DecodeRune\<close> gives \<^verbatim>\<open>RuneError\<close> there).
\<close>

text \<open>By the lead byte: the length of the sequence and the range of its second byte.\<close>

definition utf8_lead :: "nat \<Rightarrow> nat \<times> nat \<times> nat" where
  "utf8_lead b =
     (if b < 128 then (1, 0, 0)
      else if b < 194 then (0, 0, 0)
      else if b < 224 then (2, 128, 191)
      else if b < 240 then
        (3, if b = 224 then 160 else 128, if b = 237 then 159 else 191)
      else if b < 245 then
        (4, if b = 240 then 144 else 128, if b = 244 then 143 else 191)
      else (0, 0, 0))"

fun utf8_tail :: "nat \<Rightarrow> nat \<Rightarrow> nat \<Rightarrow> string \<Rightarrow> bool" where
  "utf8_tail n lo hi [] = False"
| "utf8_tail n lo hi (c # cs) =
     (length cs + 2 = n \<and> lo \<le> byte c \<and> byte c \<le> hi \<and> list_all cont cs)"

definition utf8_len :: "string \<Rightarrow> nat" where
  "utf8_len s = (case s of [] \<Rightarrow> 0 | a # t \<Rightarrow>
     (case utf8_lead (byte a) of (n, lo, hi) \<Rightarrow>
        if n \<le> 1 then n else if utf8_tail n lo hi (take (n - 1) t) then n else 0))"

function valid_utf8 :: "string \<Rightarrow> bool" where
  "valid_utf8 s =
     (if s = [] then True
      else if utf8_len s = 0 then False
      else valid_utf8 (drop (utf8_len s) s))"
  by pat_completeness auto
termination
  by (relation "measure length") auto

declare valid_utf8.simps [simp del]

text \<open>\<open>encode_rune r\<close> is \<^verbatim>\<open>utf8.EncodeRune\<close>; U+FFFD stands for what is not a rune.\<close>

definition rune_error :: string where
  "rune_error = [char_of (239 :: nat), char_of (191 :: nat), char_of (189 :: nat)]"

definition encode_rune :: "nat \<Rightarrow> string" where
  "encode_rune r =
     (if r < 128 then [char_of r]
      else if r < 2048 then [char_of (192 + r div 64), char_of (128 + r mod 64)]
      else if 55296 \<le> r \<and> r < 57344 \<or> 1114112 \<le> r then rune_error
      else if r < 65536 then
        [char_of (224 + r div 4096), char_of (128 + r div 64 mod 64), char_of (128 + r mod 64)]
      else
        [char_of (240 + r div 262144), char_of (128 + r div 4096 mod 64),
         char_of (128 + r div 64 mod 64), char_of (128 + r mod 64)])"

lemma byte_char_of [simp]: "n < 256 \<Longrightarrow> byte (char_of n) = n"
  by (simp add: byte_def)

lemma byte_less [simp]: "byte c < 256"
  by (simp add: byte_def)

lemma byte_inject: "byte c = byte d \<Longrightarrow> c = d"
  by (simp add: byte_def)

lemma utf8_tail_length: "utf8_tail n lo hi t \<Longrightarrow> Suc (length t) = n"
  by (cases t) auto

lemma utf8_len_cases:
  assumes "utf8_len s \<noteq> 0"
  obtains a t lo hi where "s = a # t" "utf8_lead (byte a) = (utf8_len s, lo, hi)"
    "utf8_len s = 1 \<or> (1 < utf8_len s \<and> utf8_tail (utf8_len s) lo hi (take (utf8_len s - 1) t))"
  using assms by (cases s) (auto simp: utf8_len_def split: if_splits prod.splits)

lemma utf8_len_le: "utf8_len s \<le> length s"
proof (cases "utf8_len s = 0")
  case False
  then show ?thesis
    by (rule utf8_len_cases) (auto dest: utf8_tail_length)
qed simp

lemma utf8_len_ascii: "byte c < 128 \<Longrightarrow> utf8_len (c # s) = 1"
  by (simp add: utf8_len_def utf8_lead_def)

lemma utf8_len_prefix:
  assumes "utf8_len s \<noteq> 0" "take (utf8_len s) s = take (utf8_len s) u"
  shows "utf8_len u = utf8_len s"
  using assms(1)
proof (rule utf8_len_cases)
  fix a t lo hi
  assume s: "s = a # t" and lead: "utf8_lead (byte a) = (utf8_len s, lo, hi)"
    and tail: "utf8_len s = 1 \<or> (1 < utf8_len s \<and> utf8_tail (utf8_len s) lo hi (take (utf8_len s - 1) t))"
  define n where "n = utf8_len s"
  from assms s have "u \<noteq> []" by auto
  then obtain b v where u: "u = b # v" by (cases u) auto
  have n: "0 < n" using assms(1) by (simp add: n_def)
  have "take n (a # t) = take n (b # v)" using assms(2) s u by (simp add: n_def)
  then have "b = a" "take (n - 1) v = take (n - 1) t"
    using n by (cases n; simp)+
  with lead tail u show "utf8_len u = utf8_len s"
    unfolding n_def [symmetric] by (auto simp: utf8_len_def)
qed

lemma utf8_len_append: "utf8_len s \<noteq> 0 \<Longrightarrow> utf8_len (s @ t) = utf8_len s"
  using utf8_len_le [of s] by (intro utf8_len_prefix) auto

lemma utf8_len_take: "utf8_len s \<noteq> 0 \<Longrightarrow> utf8_len (take (utf8_len s) s @ t) = utf8_len s"
  using utf8_len_le [of s] by (intro utf8_len_prefix) auto

lemma div_bounds:
  fixes r :: nat
  assumes "0 < k"
  shows "k * (r div k) \<le> r" "r < k * (r div k) + k"
  using assms by (simp_all add: mult.commute div_mult_mod_eq [symmetric] times_div_less_eq_dividend)
    (metis add.commute div_mult_mod_eq mod_less_divisor mult.commute nat_add_left_cancel_less)

lemma div_mod_ranges:
  fixes r :: nat
  shows "2048 \<le> r \<Longrightarrow> r div 4096 = 0 \<Longrightarrow> 32 \<le> r div 64 mod 64"
    "\<not> (55296 \<le> r \<and> r < 57344) \<Longrightarrow> r div 4096 = 13 \<Longrightarrow> r div 64 mod 64 < 32"
    "65536 \<le> r \<Longrightarrow> r div 262144 = 0 \<Longrightarrow> 16 \<le> r div 4096 mod 64"
    "r < 1114112 \<Longrightarrow> r div 262144 = 4 \<Longrightarrow> r div 4096 mod 64 < 16"
proof -
  have d: "r div 4096 = r div 64 div 64" "r div 262144 = r div 4096 div 64"
    by (simp_all add: div_mult2_eq [symmetric])
  have b: "64 * (r div 64) \<le> r" "r < 64 * (r div 64) + 64"
    "4096 * (r div 4096) \<le> r" "r < 4096 * (r div 4096) + 4096"
    by (simp_all add: div_bounds)
  have m: "r div 64 = 64 * (r div 4096) + r div 64 mod 64" "r div 64 mod 64 < 64"
    "r div 4096 = 64 * (r div 262144) + r div 4096 mod 64" "r div 4096 mod 64 < 64"
    unfolding d by simp_all
  show "2048 \<le> r \<Longrightarrow> r div 4096 = 0 \<Longrightarrow> 32 \<le> r div 64 mod 64"
    "65536 \<le> r \<Longrightarrow> r div 262144 = 0 \<Longrightarrow> 16 \<le> r div 4096 mod 64"
    "r < 1114112 \<Longrightarrow> r div 262144 = 4 \<Longrightarrow> r div 4096 mod 64 < 16"
    using b m by linarith+
  show "\<not> (55296 \<le> r \<and> r < 57344) \<Longrightarrow> r div 4096 = 13 \<Longrightarrow> r div 64 mod 64 < 32"
    using b(1,2) m(1,2) by linarith
qed

lemma utf8_len_encode_rune: "utf8_len (encode_rune r) = length (encode_rune r)"
proof -
  consider "r < 128" | "128 \<le> r" "r < 2048"
    | "2048 \<le> r" "55296 \<le> r \<and> r < 57344 \<or> 1114112 \<le> r"
    | "2048 \<le> r" "\<not> (55296 \<le> r \<and> r < 57344 \<or> 1114112 \<le> r)" "r < 65536"
    | "65536 \<le> r" "r < 1114112"
    by linarith
  then show ?thesis
  proof cases
    case 2
    then have "r div 64 < 32" "2 \<le> r div 64" by auto
    with 2 show ?thesis by (simp add: encode_rune_def utf8_len_def utf8_lead_def cont_def)
  next
    case 4
    define x y z where "x = r div 4096" and "y = r div 64 mod 64" and "z = r mod 64"
    have b: "x < 16" "y < 64" "z < 64" "x = 0 \<longrightarrow> 32 \<le> y" "x = 13 \<longrightarrow> y < 32"
      using 4 div_mod_ranges(1,2) [of r] by (auto simp: x_def y_def z_def)
    have "encode_rune r = [char_of (224 + x), char_of (128 + y), char_of (128 + z)]"
      using 4 by (auto simp: encode_rune_def x_def y_def z_def)
    with b show ?thesis by (auto simp: utf8_len_def utf8_lead_def cont_def)
  next
    case 5
    define w x y z where "w = r div 262144" and "x = r div 4096 mod 64"
      and "y = r div 64 mod 64" and "z = r mod 64"
    have b: "w \<le> 4" "x < 64" "y < 64" "z < 64" "w = 0 \<longrightarrow> 16 \<le> x" "w = 4 \<longrightarrow> x < 16"
      using 5 div_mod_ranges(3,4) [of r] by (auto simp: w_def x_def y_def z_def)
    have "encode_rune r = [char_of (240 + w), char_of (128 + x), char_of (128 + y), char_of (128 + z)]"
      using 5 by (simp add: encode_rune_def w_def x_def y_def z_def)
    with b show ?thesis by (auto simp: utf8_len_def utf8_lead_def cont_def)
  qed (simp_all add: encode_rune_def utf8_len_def utf8_lead_def cont_def rune_error_def)
qed

lemma encode_rune_nonempty [simp]: "encode_rune r \<noteq> []"
  by (simp add: encode_rune_def rune_error_def)

lemma valid_utf8_Nil [simp]: "valid_utf8 []"
  by (simp add: valid_utf8.simps)

text \<open>A unit is one UTF-8 sequence; valid text is a concatenation of units.\<close>

definition utf8_unit :: "string \<Rightarrow> bool" where
  "utf8_unit u = (u \<noteq> [] \<and> utf8_len u = length u)"

lemma valid_utf8_unit_append: "utf8_unit u \<Longrightarrow> valid_utf8 (u @ s) = valid_utf8 s"
  by (subst valid_utf8.simps) (auto simp: utf8_unit_def utf8_len_append)

lemma utf8_unit_encode_rune: "utf8_unit (encode_rune r)"
  by (simp add: utf8_unit_def utf8_len_encode_rune)

lemma utf8_unit_rune_error: "utf8_unit rune_error"
  by (simp add: utf8_unit_def utf8_len_def utf8_lead_def rune_error_def cont_def)

lemma utf8_unit_ascii: "byte c < 128 \<Longrightarrow> utf8_unit [c]"
  by (simp add: utf8_unit_def utf8_len_ascii)

lemma utf8_unit_take: "utf8_len s \<noteq> 0 \<Longrightarrow> utf8_unit (take (utf8_len s) s)"
  using utf8_len_take [of s "[]"] utf8_len_le [of s] by (auto simp: utf8_unit_def)

lemma valid_utf8_ascii: "list_all (\<lambda>c. byte c < 128) s \<Longrightarrow> valid_utf8 s"
proof (induction s)
  case (Cons c s)
  then show ?case using valid_utf8_unit_append [OF utf8_unit_ascii, of c s] by simp
qed simp

text \<open>Replacing ASCII characters by ASCII characters keeps text valid.\<close>

definition ascii_map :: "(char \<Rightarrow> char) \<Rightarrow> bool" where
  "ascii_map f = (\<forall>c. f c = c \<or> (byte c < 128 \<and> byte (f c) < 128))"

lemma utf8_tail_map:
  assumes "ascii_map f" "128 \<le> lo"
  shows "utf8_tail n lo hi (map f s) = utf8_tail n lo hi s"
proof -
  have c: "(lo \<le> byte (f c) \<and> byte (f c) \<le> hi) = (lo \<le> byte c \<and> byte c \<le> hi)" "cont (f c) = cont c" for c
    using assms(1) [unfolded ascii_map_def, rule_format, of c] assms(2) by (auto simp: cont_def)
  then have "list_all cont (map f s) = list_all cont s" for s by (simp add: list_all_iff)
  with c(1) show ?thesis by (cases s) auto
qed

lemma utf8_len_map: "ascii_map f \<Longrightarrow> utf8_len (map f s) = utf8_len s"
proof (cases s)
  case (Cons a t)
  assume f: "ascii_map f"
  show ?thesis
  proof (cases "byte a < 128")
    case True
    then have "byte (f a) < 128" using f [unfolded ascii_map_def, rule_format, of a] by auto
    with True Cons show ?thesis by (simp add: utf8_len_ascii)
  next
    case False
    then have "f a = a" using f [unfolded ascii_map_def, rule_format, of a] by auto
    moreover obtain n lo hi where l: "utf8_lead (byte a) = (n, lo, hi)" by (cases "utf8_lead (byte a)") auto
    moreover have "1 < n \<Longrightarrow> 128 \<le> lo" using l by (auto simp: utf8_lead_def split: if_splits)
    ultimately show ?thesis
      using Cons utf8_tail_map [OF f, of lo n hi "take (n - 1) t"] by (auto simp: utf8_len_def take_map)
  qed
qed simp

lemma valid_utf8_map: "ascii_map f \<Longrightarrow> valid_utf8 (map f s) = valid_utf8 s"
proof (induction s rule: valid_utf8.induct)
  case (1 s)
  show ?case
  proof (cases "s = [] \<or> utf8_len s = 0")
    case True
    then show ?thesis
      using utf8_len_map [OF 1(2), of s]
      by (auto simp: valid_utf8.simps [of "map f s"] valid_utf8.simps [of s])
  next
    case False
    then have "valid_utf8 (map f (drop (utf8_len s) s)) = valid_utf8 (drop (utf8_len s) s)"
      using 1 by blast
    with False show ?thesis
      using utf8_len_map [OF 1(2), of s]
      by (simp add: valid_utf8.simps [of "map f s"] valid_utf8.simps [of s] drop_map)
  qed
qed

section \<open>Reading a string literal\<close>

definition hex_val :: "char \<Rightarrow> nat option" where
  "hex_val c =
     (let b = byte c in
      if 48 \<le> b \<and> b \<le> 57 then Some (b - 48)
      else if 97 \<le> b \<and> b \<le> 102 then Some (b - 87)
      else if 65 \<le> b \<and> b \<le> 70 then Some (b - 55)
      else None)"

text \<open>\<open>scan_u4 s\<close>: the four hexadecimal digits after \<^verbatim>\<open>\u\<close>.\<close>

fun scan_u4 :: "string \<Rightarrow> (nat \<times> string) option" where
  "scan_u4 (a # b # c # d # s) =
     (case (hex_val a, hex_val b, hex_val c, hex_val d) of
        (Some i, Some j, Some k, Some l) \<Rightarrow> Some (4096 * i + 256 * j + 16 * k + l, s)
      | _ \<Rightarrow> None)"
| "scan_u4 _ = None"

definition is_surrogate :: "nat \<Rightarrow> bool" where
  "is_surrogate r = (55296 \<le> r \<and> r < 57344)"

text \<open>After a surrogate \<open>r\<close>: with a low surrogate escape next, the pair is one rune.\<close>

definition surrogate_step :: "nat \<Rightarrow> string \<Rightarrow> string \<times> string" where
  "surrogate_step r s =
     (case s of
        a # b # t \<Rightarrow>
          (case (if a = CHR 0x5C \<and> b = CHR ''u'' then scan_u4 t else None) of
             Some (l, u) \<Rightarrow>
               if r < 56320 \<and> 56320 \<le> l \<and> l < 57344
               then (encode_rune (65536 + 1024 * (r - 55296) + (l - 56320)), u)
               else (rune_error, s)
           | None \<Rightarrow> (rune_error, s))
      | _ \<Rightarrow> (rune_error, s))"

text \<open>\<open>escape_step s\<close>: the escape whose backslash was read.\<close>

definition escape_step :: "string \<Rightarrow> (string \<times> string) option" where
  "escape_step s = (case s of [] \<Rightarrow> None | c # t \<Rightarrow>
     (if c = CHR 0x22 \<or> c = CHR 0x5C \<or> c = CHR 0x2F then Some ([c], t)
      else if c = CHR ''b'' then Some ([CHR 0x08], t)
      else if c = CHR ''f'' then Some ([CHR 0x0C], t)
      else if c = CHR ''n'' then Some ([CHR 0x0A], t)
      else if c = CHR ''r'' then Some ([CHR 0x0D], t)
      else if c = CHR ''t'' then Some ([CHR 0x09], t)
      else if c = CHR ''u'' then
        (case scan_u4 t of
           None \<Rightarrow> None
         | Some (r, u) \<Rightarrow> Some (if is_surrogate r then surrogate_step r u else (encode_rune r, u)))
      else None))"

text \<open>\<open>string_step s\<close>: the next character of a literal, decoded, and the rest.\<close>

definition string_step :: "string \<Rightarrow> (string \<times> string) option" where
  "string_step s = (case s of [] \<Rightarrow> None | c # t \<Rightarrow>
     (if c = CHR 0x5C then escape_step t
      else if byte c < 32 then None
      else if utf8_len s = 0 then Some (rune_error, t)
      else Some (take (utf8_len s) s, drop (utf8_len s) s)))"

lemma scan_u4_length: "scan_u4 s = Some (r, t) \<Longrightarrow> length t < length s"
  by (induction s rule: scan_u4.induct) (auto split: option.splits)

lemma surrogate_step_length: "surrogate_step r s = (u, t) \<Longrightarrow> length t \<le> length s"
  by (auto simp: surrogate_step_def split: list.splits option.splits if_splits dest!: scan_u4_length)

lemma escape_step_length: "escape_step s = Some (u, t) \<Longrightarrow> length t < length s"
  by (auto simp: escape_step_def split: list.splits option.splits if_splits
      dest!: scan_u4_length surrogate_step_length)

lemma string_step_length: "string_step s = Some (u, t) \<Longrightarrow> length t < length s"
  by (auto simp: string_step_def split: list.splits if_splits dest: escape_step_length)

text \<open>
  \<open>scan_string s\<close> reads the rest of a literal whose opening quote was read: the decoded
  string and the text after the closing quote.
\<close>

function scan_string :: "string \<Rightarrow> (string \<times> string) option" where
  "scan_string s =
     (if s = [] then None
      else if hd s = CHR 0x22 then Some ([], tl s)
      else case string_step s of
             None \<Rightarrow> None
           | Some (u, t) \<Rightarrow>
               (case scan_string t of None \<Rightarrow> None | Some (v, r) \<Rightarrow> Some (u @ v, r)))"
  by pat_completeness auto
termination
  by (relation "measure length") (auto dest: string_step_length)

declare scan_string.simps [simp del]

lemma scan_string_length: "scan_string s = Some (v, r) \<Longrightarrow> length r < length s"
proof (induction s arbitrary: v rule: scan_string.induct)
  case (1 s)
  show ?case
  proof (cases "s = [] \<or> hd s = CHR 0x22")
    case True
    with 1(2) show ?thesis by (subst (asm) scan_string.simps) (auto split: if_splits)
  next
    case False
    with 1(2) obtain u t w where "string_step s = Some (u, t)" "scan_string t = Some (w, r)"
      by (subst (asm) scan_string.simps) (auto split: option.splits)
    with 1(1) False show ?thesis by (fastforce dest: string_step_length)
  qed
qed

text \<open>Whatever was read is valid UTF-8.\<close>

lemma surrogate_step_unit: "surrogate_step r x = (u, t) \<Longrightarrow> utf8_unit u"
  by (auto simp: surrogate_step_def utf8_unit_rune_error utf8_unit_encode_rune
      split: list.splits option.splits if_splits)

lemma escape_step_unit: "escape_step x = Some (u, t) \<Longrightarrow> utf8_unit u"
  by (auto simp: escape_step_def utf8_unit_encode_rune utf8_unit_ascii byte_def
      split: list.splits option.splits if_splits dest: surrogate_step_unit)

lemma string_step_unit: "string_step s = Some (u, t) \<Longrightarrow> utf8_unit u"
  by (auto simp: string_step_def utf8_unit_rune_error utf8_unit_take
      split: list.splits if_splits dest: escape_step_unit)

lemma scan_string_valid: "scan_string s = Some (v, r) \<Longrightarrow> valid_utf8 v"
proof (induction s arbitrary: v rule: scan_string.induct)
  case (1 s)
  show ?case
  proof (cases "s = [] \<or> hd s = CHR 0x22")
    case True
    with 1(2) show ?thesis by (subst (asm) scan_string.simps) (auto split: if_splits)
  next
    case False
    with 1(2) obtain u t w where "string_step s = Some (u, t)" "scan_string t = Some (w, r)" "v = u @ w"
      by (subst (asm) scan_string.simps) (auto split: option.splits)
    with 1(1) False show ?thesis by (auto simp: valid_utf8_unit_append string_step_unit)
  qed
qed

section \<open>Writing a string\<close>

definition hex_digit :: "nat \<Rightarrow> char" where
  "hex_digit n = char_of (if n < 10 then 48 + n else 87 + n)"

text \<open>\<open>encode_step s\<close>: the text for the first character of \<open>s\<close>, and the rest of \<open>s\<close>.\<close>

definition encode_ascii :: "char \<Rightarrow> string" where
  "encode_ascii c =
     (if c = CHR 0x22 \<or> c = CHR 0x5C then [CHR 0x5C, c]
      else if c = CHR 0x08 then [CHR 0x5C, CHR ''b'']
      else if c = CHR 0x0C then [CHR 0x5C, CHR ''f'']
      else if c = CHR 0x0A then [CHR 0x5C, CHR ''n'']
      else if c = CHR 0x0D then [CHR 0x5C, CHR ''r'']
      else if c = CHR 0x09 then [CHR 0x5C, CHR ''t'']
      else if byte c < 32 \<or> c = CHR 0x3C \<or> c = CHR 0x3E \<or> c = CHR 0x26
      then CHR 0x5C # ''u00'' @ [hex_digit (byte c div 16), hex_digit (byte c mod 16)]
      else [c])"

definition encode_step :: "string \<Rightarrow> string \<times> string" where
  "encode_step s =
     (if byte (hd s) < 128 then (encode_ascii (hd s), tl s)
      else if utf8_len s = 0 then (CHR 0x5C # ''ufffd'', tl s)
      else if take 3 s = [char_of (226 :: nat), char_of (128 :: nat), char_of (168 :: nat)]
      then (CHR 0x5C # ''u2028'', drop 3 s)
      else if take 3 s = [char_of (226 :: nat), char_of (128 :: nat), char_of (169 :: nat)]
      then (CHR 0x5C # ''u2029'', drop 3 s)
      else (take (utf8_len s) s, drop (utf8_len s) s))"

function encode_string :: "string \<Rightarrow> string" where
  "encode_string s =
     (if s = [] then [] else case encode_step s of (u, t) \<Rightarrow> u @ encode_string t)"
  by pat_completeness auto
termination
  by (relation "measure length") (auto simp: encode_step_def split: if_splits)

declare encode_string.simps [simp del]

definition json_string :: "string \<Rightarrow> string" where
  "json_string s = CHR 0x22 # encode_string s @ [CHR 0x22]"

section \<open>Round trip\<close>

lemma hex_val_digit: "n < 16 \<Longrightarrow> hex_val (hex_digit n) = Some n"
  by (auto simp: hex_val_def hex_digit_def Let_def)

lemma char_of_byte [simp]: "char_of (byte c) = c"
  by (simp add: byte_def)

lemma hex_val_0 [simp]: "hex_val (CHR ''0'') = Some 0" "hex_val (CHR ''2'') = Some 2"
  "hex_val (CHR ''8'') = Some 8" "hex_val (CHR ''9'') = Some 9"
  by (simp_all add: hex_val_def byte_def)

lemma escape_step_simple:
  "escape_step (CHR 0x22 # r) = Some ([CHR 0x22], r)" "escape_step (CHR 0x5C # r) = Some ([CHR 0x5C], r)"
  "escape_step (CHR ''b'' # r) = Some ([CHR 0x08], r)" "escape_step (CHR ''f'' # r) = Some ([CHR 0x0C], r)"
  "escape_step (CHR ''n'' # r) = Some ([CHR 0x0A], r)" "escape_step (CHR ''r'' # r) = Some ([CHR 0x0D], r)"
  "escape_step (CHR ''t'' # r) = Some ([CHR 0x09], r)"
  by (simp_all add: escape_step_def)

lemma string_step_escape: "string_step (CHR 0x5C # s) = escape_step s"
  by (simp add: string_step_def)

lemma encode_ascii_cases:
  obtains (simple) d where "encode_ascii c = [CHR 0x5C, d]" "\<And>r. escape_step (d # r) = Some ([c], r)"
  | (hex) "encode_ascii c = CHR 0x5C # ''u00'' @ [hex_digit (byte c div 16), hex_digit (byte c mod 16)]"
  | (plain) "encode_ascii c = [c]" "c \<noteq> CHR 0x5C" "\<not> byte c < 32"
proof -
  have "(\<exists>d. encode_ascii c = [CHR 0x5C, d] \<and> (\<forall>r. escape_step (d # r) = Some ([c], r)))
    \<or> encode_ascii c = CHR 0x5C # ''u00'' @ [hex_digit (byte c div 16), hex_digit (byte c mod 16)]
    \<or> encode_ascii c = [c] \<and> c \<noteq> CHR 0x5C \<and> \<not> byte c < 32"
    unfolding encode_ascii_def by (simp add: escape_step_simple)
  then show thesis using that by blast
qed

lemma string_step_ascii:
  assumes "byte c < 128"
  shows "string_step (encode_ascii c @ rest) = Some ([c], rest)"
proof (cases c rule: encode_ascii_cases)
  case hex
  have "byte c div 16 < 16" by (simp add: less_mult_imp_div_less)
  then have "scan_u4 (''00'' @ [hex_digit (byte c div 16), hex_digit (byte c mod 16)] @ rest)
      = Some (byte c, rest)"
    by (simp add: hex_val_digit)
  moreover have "\<not> is_surrogate (byte c)" "encode_rune (byte c) = [c]"
    using assms by (simp_all add: is_surrogate_def encode_rune_def)
  ultimately show ?thesis
    unfolding hex by (simp add: string_step_escape escape_step_def)
next
  case plain
  then show ?thesis
    using utf8_len_ascii [OF assms, of rest] by (simp add: string_step_def)
qed (simp add: string_step_escape)

lemma encode_ascii_hd: "encode_ascii c \<noteq> [] \<and> hd (encode_ascii c) \<noteq> CHR 0x22"
  by (simp add: encode_ascii_def)

lemma string_step_u2028:
  "string_step (CHR 0x5C # ''u2028'' @ rest) = Some ([char_of (226 :: nat), char_of (128 :: nat), char_of (168 :: nat)], rest)"
  "string_step (CHR 0x5C # ''u2029'' @ rest) = Some ([char_of (226 :: nat), char_of (128 :: nat), char_of (169 :: nat)], rest)"
  by (simp_all add: string_step_def escape_step_def is_surrogate_def encode_rune_def)

lemma string_step_encode:
  assumes "s \<noteq> []" "valid_utf8 s" "encode_step s = (u, t)"
  shows "u \<noteq> [] \<and> hd u \<noteq> CHR 0x22 \<and> valid_utf8 t \<and>
    (\<exists>w. string_step (u @ rest) = Some (w, rest) \<and> w @ t = s)"
proof -
  define n where "n = utf8_len s"
  have n: "n \<noteq> 0" and rest_valid: "valid_utf8 (drop n s)"
    using assms(1,2) by (auto simp: n_def valid_utf8.simps [of s] split: if_splits)
  obtain c x where s: "s = c # x" using assms(1) by (cases s) auto
  consider (ascii) "byte c < 128"
    | (sep8) "128 \<le> byte c" "take 3 s = [char_of (226 :: nat), char_of (128 :: nat), char_of (168 :: nat)]"
    | (sep9) "128 \<le> byte c" "take 3 s = [char_of (226 :: nat), char_of (128 :: nat), char_of (169 :: nat)]"
    | (multi) "128 \<le> byte c" "u = take n s" "t = drop n s"
    using assms(3) n s by (auto simp: encode_step_def n_def split: if_splits)
  then show ?thesis
  proof cases
    case ascii
    then have "u = encode_ascii c" "t = x" "n = 1"
      using assms(3) s by (simp_all add: encode_step_def n_def utf8_len_ascii)
    then show ?thesis
      using string_step_ascii [OF ascii] encode_ascii_hd [of c] rest_valid s by simp
  next
    case sep8
    then have "n = 3" using utf8_len_prefix [of "take 3 s" s]
      by (simp add: n_def utf8_len_def utf8_lead_def cont_def)
    moreover have "u = CHR 0x5C # ''u2028''" "t = drop 3 s"
      using sep8 assms(3) n s by (auto simp: encode_step_def n_def)
    moreover have "take 3 s @ drop 3 s = s" by simp
    ultimately show ?thesis
      using string_step_u2028(1) [of rest] rest_valid sep8(2) by simp
  next
    case sep9
    then have "n = 3" using utf8_len_prefix [of "take 3 s" s]
      by (simp add: n_def utf8_len_def utf8_lead_def cont_def)
    moreover have "u = CHR 0x5C # ''u2029''" "t = drop 3 s"
      using sep9 assms(3) n s by (auto simp: encode_step_def n_def)
    moreover have "take 3 s @ drop 3 s = s" by simp
    ultimately show ?thesis
      using string_step_u2028(2) [of rest] rest_valid sep9(2) by simp
  next
    case multi
    have len: "utf8_len (u @ rest) = n"
      using utf8_len_take [of s rest] n multi(2) by (simp add: n_def)
    obtain u' where u: "u = c # u'" using multi(2) n s by (cases n) auto
    have lu: "length u = n" using multi(2) utf8_len_le [of s] by (simp add: n_def)
    have "c \<noteq> CHR 0x22" "c \<noteq> CHR 0x5C" "\<not> byte c < 32" using multi(1) by (auto simp: byte_def)
    then have "string_step (u @ rest) = Some (take n (u @ rest), drop n (u @ rest))"
      using len n u by (simp add: string_step_def)
    moreover have "take n (u @ rest) = u" "drop n (u @ rest) = rest" using lu by simp_all
    moreover have "u @ t = s" using multi by simp
    ultimately show ?thesis
      using u rest_valid multi(3) \<open>c \<noteq> CHR 0x22\<close> by (metis list.sel(1) list.discI)
  qed
qed

lemma scan_string_encode:
  "valid_utf8 s \<Longrightarrow> scan_string (encode_string s @ CHR 0x22 # rest) = Some (s, rest)"
proof (induction s rule: encode_string.induct)
  case (1 s)
  show ?case
  proof (cases "s = []")
    case True
    then show ?thesis by (simp add: encode_string.simps [of "[]"] scan_string.simps [of "CHR 0x22 # rest"])
  next
    case False
    obtain u t where ut: "encode_step s = (u, t)" by fastforce
    define x where "x = encode_string t @ CHR 0x22 # rest"
    obtain w where w: "u \<noteq> []" "hd u \<noteq> CHR 0x22" "valid_utf8 t"
      "string_step (u @ x) = Some (w, x)" "w @ t = s"
      using string_step_encode [OF False 1(2) ut, of x] by blast
    have "encode_string s = u @ encode_string t"
      using False ut by (simp add: encode_string.simps [of s])
    moreover have "scan_string (u @ x) = Some (s, rest)"
      using w 1(1) [OF False ut [symmetric]]
      by (simp add: scan_string.simps [of "u @ x"] x_def [symmetric])
    ultimately show ?thesis by (simp add: x_def)
  qed
qed

lemma encode_string_length: "length s \<le> length (encode_string s)"
proof (induction s rule: encode_string.induct)
  case (1 s)
  show ?case
  proof (cases "s = []")
    case False
    obtain u t where ut: "encode_step s = (u, t)" by fastforce
    have "length s \<le> length u + length t"
      using ut False by (auto simp: encode_step_def encode_ascii_def split: if_splits)
    with 1 [OF False ut [symmetric]] False ut show ?thesis
      by (simp add: encode_string.simps [of s])
  qed simp
qed

end
