(* ===== verification/JsonText.thy ===== *)
theory JsonText
  imports JsonString
begin

text \<open>
  JSON values and their text, as \<^verbatim>\<open>encoding/json\<close> reads and writes them. A value of
  type \<open>json\<close> is what a Go \<^verbatim>\<open>interface{}\<close> holds after decoding: nil, a bool, a
  \<^verbatim>\<open>float64\<close>, a string, a \<^verbatim>\<open>[]interface{}\<close> or a \<^verbatim>\<open>map[string]interface{}\<close>. The same
  type is the syntax tree of a text, where the members of an object stand in textual
  order; \<open>canon\<close> turns the tree into the value. \<open>json_Unmarshal\<close> and \<open>json_Marshal\<close>
  are the two library calls, and \<open>Unmarshal_Marshal\<close> is the round trip.
\<close>

section \<open>Values\<close>

datatype json =
    JNull
  | JBool bool
  | JNum float64
  | JStr string
  | JArr "json list"
  | JObj "(string \<times> json) list"

type_synonym jobject = "json gomap"

text \<open>
  \<open>jok\<close>: finite numbers and valid UTF-8 throughout. \<open>jcanon\<close>: every object is sorted
  by key without duplicates, so it is a Go map. \<open>jwf\<close> is both, the values the
  program's \<^verbatim>\<open>interface{}\<close> variables hold.
\<close>

fun jok :: "json \<Rightarrow> bool" where
  "jok JNull = True"
| "jok (JBool b) = True"
| "jok (JNum x) = wf64 x"
| "jok (JStr s) = valid_utf8 s"
| "jok (JArr vs) = (\<forall>v\<in>set vs. jok v)"
| "jok (JObj kvs) = (\<forall>p\<in>set kvs. valid_utf8 (fst p) \<and> jok (snd p))"

fun jcanon :: "json \<Rightarrow> bool" where
  "jcanon (JArr vs) = (\<forall>v\<in>set vs. jcanon v)"
| "jcanon (JObj kvs) = (msorted kvs \<and> (\<forall>p\<in>set kvs. jcanon (snd p)))"
| "jcanon v = True"

fun jdistinct :: "json \<Rightarrow> bool" where
  "jdistinct (JArr vs) = (\<forall>v\<in>set vs. jdistinct v)"
| "jdistinct (JObj kvs) = (distinct (map fst kvs) \<and> (\<forall>p\<in>set kvs. jdistinct (snd p)))"
| "jdistinct v = True"

definition jwf :: "json \<Rightarrow> bool" where
  "jwf v = (jok v \<and> jcanon v)"

fun canon :: "json \<Rightarrow> json" where
  "canon (JArr vs) = JArr (map canon vs)"
| "canon (JObj kvs) = JObj (mfold (map (\<lambda>p. (fst p, canon (snd p))) kvs) [])"
| "canon v = v"

lemma jcanon_distinct: "jcanon v \<Longrightarrow> jdistinct v"
  by (induction v rule: jdistinct.induct) (auto simp: msorted_distinct)

lemma jcanon_canon: "jcanon (canon v)"
proof (induction v rule: canon.induct)
  case (2 kvs)
  have "set (mfold (map (\<lambda>p. (fst p, canon (snd p))) kvs) []) \<subseteq>
      (\<lambda>p. (fst p, canon (snd p))) ` set kvs"
    using set_mfold [of "map (\<lambda>p. (fst p, canon (snd p))) kvs" "[]"] by simp
  then have "\<forall>p\<in>set (mfold (map (\<lambda>p. (fst p, canon (snd p))) kvs) []). jcanon (snd p)"
    using 2 by fastforce
  then show ?case by (simp add: msorted_mfold)
qed auto

lemma jok_canon: "jok v \<Longrightarrow> jok (canon v)"
proof (induction v rule: canon.induct)
  case (2 kvs)
  have "set (mfold (map (\<lambda>p. (fst p, canon (snd p))) kvs) []) \<subseteq>
      (\<lambda>p. (fst p, canon (snd p))) ` set kvs"
    using set_mfold [of "map (\<lambda>p. (fst p, canon (snd p))) kvs" "[]"] by simp
  then show ?case using 2 by fastforce
qed auto

lemma canon_id: "jcanon v \<Longrightarrow> canon v = v"
proof (induction v rule: canon.induct)
  case (1 vs)
  then show ?case by (simp add: map_idI)
next
  case (2 kvs)
  then have "map (\<lambda>p. (fst p, canon (snd p))) kvs = kvs"
    by (intro map_idI) (auto simp: prod_eq_iff)
  with 2 show ?case by (simp add: mfold_sorted)
qed auto

lemma jwf_canon: "jok v \<Longrightarrow> jwf (canon v)"
  by (simp add: jwf_def jok_canon jcanon_canon)

lemma jwf_simps [simp]:
  "jwf JNull" "jwf (JBool b)" "jwf (JNum x) = wf64 x" "jwf (JStr s) = valid_utf8 s"
  "jwf (JArr vs) = (\<forall>v\<in>set vs. jwf v)"
  "jwf (JObj kvs) = (msorted kvs \<and> (\<forall>p\<in>set kvs. valid_utf8 (fst p) \<and> jwf (snd p)))"
  by (auto simp: jwf_def)

section \<open>json.Marshal\<close>

fun jprint :: "json \<Rightarrow> string" and jprint_elems :: "json list \<Rightarrow> string"
  and jprint_members :: "(string \<times> json) list \<Rightarrow> string" where
  "jprint JNull = ''null''"
| "jprint (JBool b) = (if b then ''true'' else ''false'')"
| "jprint (JNum x) = json_f64 x"
| "jprint (JStr s) = json_string s"
| "jprint (JArr vs) = CHR ''['' # jprint_elems vs @ '']''"
| "jprint (JObj kvs) = CHR ''{'' # jprint_members kvs @ ''}''"
| "jprint_elems [] = []"
| "jprint_elems (v # vs) = jprint v @ (if vs = [] then [] else CHR '','' # jprint_elems vs)"
| "jprint_members [] = []"
| "jprint_members ((k, v) # kvs) =
     json_string k @ CHR '':'' # jprint v @ (if kvs = [] then [] else CHR '','' # jprint_members kvs)"

fun jfinite :: "json \<Rightarrow> bool" where
  "jfinite (JNum (F_fin s m e)) = True"
| "jfinite (JNum x) = False"
| "jfinite (JArr vs) = (\<forall>v\<in>set vs. jfinite v)"
| "jfinite (JObj kvs) = (\<forall>p\<in>set kvs. jfinite (snd p))"
| "jfinite v = True"

text \<open>\<^verbatim>\<open>json.Marshal(v)\<close>: an infinite number or a NaN is an \<^verbatim>\<open>UnsupportedValueError\<close>.\<close>

definition json_Marshal :: "json \<Rightarrow> string option" where
  "json_Marshal v = (if jfinite v then Some (jprint v) else None)"

lemma jok_jfinite: "jok v \<Longrightarrow> jfinite v"
  by (induction v rule: jfinite.induct) auto

section \<open>json.Unmarshal\<close>

definition is_ws :: "char \<Rightarrow> bool" where
  "is_ws c = (c = CHR '' '' \<or> c = CHR 0x09 \<or> c = CHR 0x0A \<or> c = CHR 0x0D)"

definition skip_ws :: "string \<Rightarrow> string" where
  "skip_ws s = dropWhile is_ws s"

text \<open>
  The grammar, by recursive descent. The first argument is fuel; \<open>parse_value\<close> spends
  at most two units per byte, so \<open>2 * length s + 1\<close> are enough (\<open>parse_fuel_enough\<close>).
  Each function gives the tree and the text that follows.
\<close>

fun parse_value :: "nat \<Rightarrow> string \<Rightarrow> (json \<times> string) option"
  and parse_elems :: "nat \<Rightarrow> string \<Rightarrow> (json list \<times> string) option"
  and parse_members :: "nat \<Rightarrow> string \<Rightarrow> ((string \<times> json) list \<times> string) option" where
  "parse_value 0 s = None"
| "parse_value (Suc n) s =
     (case skip_ws s of
        [] \<Rightarrow> None
      | c # t \<Rightarrow>
          if c = CHR ''{'' then
            (if starts_with ''}'' (skip_ws t) then Some (JObj [], tl (skip_ws t))
             else map_option (\<lambda>(kvs, r). (JObj kvs, r)) (parse_members n t))
          else if c = CHR ''['' then
            (if starts_with '']'' (skip_ws t) then Some (JArr [], tl (skip_ws t))
             else map_option (\<lambda>(vs, r). (JArr vs, r)) (parse_elems n t))
          else if c = CHR 0x22 then map_option (\<lambda>(u, r). (JStr u, r)) (scan_string t)
          else if c = CHR ''t'' then
            (if starts_with ''rue'' t then Some (JBool True, drop 3 t) else None)
          else if c = CHR ''f'' then
            (if starts_with ''alse'' t then Some (JBool False, drop 4 t) else None)
          else if c = CHR ''n'' then
            (if starts_with ''ull'' t then Some (JNull, drop 3 t) else None)
          else map_option (\<lambda>(x, r). (JNum x, r)) (scan_number (c # t)))"
| "parse_elems 0 s = None"
| "parse_elems (Suc n) s =
     (case parse_value n s of
        None \<Rightarrow> None
      | Some (v, t) \<Rightarrow>
          (case skip_ws t of
             [] \<Rightarrow> None
           | c # u \<Rightarrow>
               if c = CHR '','' then map_option (\<lambda>(vs, r). (v # vs, r)) (parse_elems n u)
               else if c = CHR '']'' then Some ([v], u)
               else None))"
| "parse_members 0 s = None"
| "parse_members (Suc n) s =
     (case skip_ws s of
        [] \<Rightarrow> None
      | q # s1 \<Rightarrow>
          if q \<noteq> CHR 0x22 then None
          else case scan_string s1 of
            None \<Rightarrow> None
          | Some (k, s2) \<Rightarrow>
              (if \<not> starts_with '':'' (skip_ws s2) then None
               else case parse_value n (tl (skip_ws s2)) of
                 None \<Rightarrow> None
               | Some (v, t) \<Rightarrow>
                   (case skip_ws t of
                      [] \<Rightarrow> None
                    | c # u \<Rightarrow>
                        if c = CHR '','' then map_option (\<lambda>(kvs, r). ((k, v) # kvs, r)) (parse_members n u)
                        else if c = CHR ''}'' then Some ([(k, v)], u)
                        else None)))"

definition json_parse :: "string \<Rightarrow> json option" where
  "json_parse s =
     (case parse_value (2 * length s + 1) s of
        None \<Rightarrow> None
      | Some (v, r) \<Rightarrow> if skip_ws r = [] then Some v else None)"

text \<open>
  \<^verbatim>\<open>json.Unmarshal(data, &x)\<close> for an \<^verbatim>\<open>interface{}\<close> variable \<^verbatim>\<open>x\<close>: no value on a syntax
  error, nor when a number does not fit a \<^verbatim>\<open>float64\<close> (\<^verbatim>\<open>UnmarshalTypeError\<close>). Of
  several members with the same key the last one stays.
\<close>

definition json_Unmarshal :: "string \<Rightarrow> json option" where
  "json_Unmarshal s =
     (case json_parse s of
        None \<Rightarrow> None
      | Some t \<Rightarrow> if jfinite t then Some (canon t) else None)"

section \<open>The fuel is enough\<close>

lemma skip_ws_length: "length (skip_ws s) \<le> length s"
  by (simp add: skip_ws_def length_dropWhile_le)

lemma starts_with_length: "starts_with p s \<Longrightarrow> length p \<le> length s"
  by (induction p s rule: starts_with.induct) auto

lemma scan_exponent_length: "scan_exponent s = Some (x, r) \<Longrightarrow> length r \<le> length s"
  using length_dropWhile_le [of is_digit "tl (tl s)"] length_dropWhile_le [of is_digit "tl s"]
  by (cases s) (auto simp: scan_exponent_def Let_def split: if_splits intro: le_SucI le_trans)

lemma scan_fraction_length: "scan_fraction s = Some (f, r) \<Longrightarrow> length r \<le> length s"
  using length_dropWhile_le [of is_digit "tl s"]
  by (cases s) (auto simp: scan_fraction_def split: if_splits)

lemma scan_unsigned_length:
  assumes "scan_unsigned neg s = Some (x, r)"
  shows "length r < length s"
proof -
  have "takeWhile is_digit s \<noteq> []" using assms by (auto simp: scan_unsigned_def Let_def split: if_splits)
  then have "length (dropWhile is_digit s) < length s"
    by (metis length_greater_0_conv takeWhile_dropWhile_id length_append less_add_same_cancel2)
  moreover have "length r \<le> length (dropWhile is_digit s)"
    using assms by (auto simp: scan_unsigned_def Let_def split: if_splits option.splits
        dest!: scan_fraction_length scan_exponent_length)
  ultimately show ?thesis by linarith
qed

lemma scan_number_length: "scan_number s = Some (x, r) \<Longrightarrow> length r < length s"
  by (cases s) (auto simp: scan_number_def split: if_splits dest!: scan_unsigned_length)

lemma skip_ws_Cons_length: "skip_ws s = c # t \<Longrightarrow> length t < length s"
  using skip_ws_length [of s] by simp

lemma tl_skip_ws_length: "starts_with [c] (skip_ws s) \<Longrightarrow> length (tl (skip_ws s)) < length s"
  using skip_ws_length [of s] starts_with_length [of "[c]" "skip_ws s"] by simp

declare parse_value.simps [simp del] parse_elems.simps [simp del] parse_members.simps [simp del]

lemma parse_0 [simp]: "parse_value 0 s = None" "parse_elems 0 s = None" "parse_members 0 s = None"
  by (simp_all add: parse_value.simps parse_elems.simps parse_members.simps)

text \<open>One step of each function, as a case rule.\<close>

lemma parse_value_SucE:
  assumes "parse_value (Suc n) s = Some (v, r)"
  obtains (empty_obj) t where "skip_ws s = CHR ''{'' # t" "starts_with ''}'' (skip_ws t)" "v = JObj []" "r = tl (skip_ws t)"
    | (obj) t kvs where "skip_ws s = CHR ''{'' # t" "parse_members n t = Some (kvs, r)" "v = JObj kvs"
    | (empty_arr) t where "skip_ws s = CHR ''['' # t" "starts_with '']'' (skip_ws t)" "v = JArr []" "r = tl (skip_ws t)"
    | (arr) t vs where "skip_ws s = CHR ''['' # t" "parse_elems n t = Some (vs, r)" "v = JArr vs"
    | (str) t u where "skip_ws s = CHR 0x22 # t" "scan_string t = Some (u, r)" "v = JStr u"
    | (lit) c t k where "skip_ws s = c # t" "r = drop k t" "v \<in> {JNull, JBool True, JBool False}"
    | (num) x where "scan_number (skip_ws s) = Some (x, r)" "v = JNum x"
proof -
  obtain c t where ct: "skip_ws s = c # t" using assms by (auto simp: parse_value.simps split: list.splits)
  show thesis
    using assms empty_obj obj empty_arr arr str lit [OF ct] num ct
    unfolding parse_value.simps ct list.case by (force split: if_splits)
qed

lemma parse_elems_SucE:
  assumes "parse_elems (Suc n) s = Some (vs, r)"
  obtains v t u ws where "parse_value n s = Some (v, t)" "skip_ws t = CHR '','' # u" "parse_elems n u = Some (ws, r)" "vs = v # ws"
    | v t where "parse_value n s = Some (v, t)" "skip_ws t = CHR '']'' # r" "vs = [v]"
  using assms by (auto simp: parse_elems.simps split: list.splits if_splits option.splits)

lemma parse_members_SucE:
  assumes "parse_members (Suc n) s = Some (kvs, r)"
  obtains s1 k s2 v t u kws where "skip_ws s = CHR 0x22 # s1" "scan_string s1 = Some (k, s2)"
      "starts_with '':'' (skip_ws s2)" "parse_value n (tl (skip_ws s2)) = Some (v, t)"
      "skip_ws t = CHR '','' # u" "parse_members n u = Some (kws, r)" "kvs = (k, v) # kws"
    | s1 k s2 v t where "skip_ws s = CHR 0x22 # s1" "scan_string s1 = Some (k, s2)"
      "starts_with '':'' (skip_ws s2)" "parse_value n (tl (skip_ws s2)) = Some (v, t)"
      "skip_ws t = CHR ''}'' # r" "kvs = [(k, v)]"
  using assms by (auto simp: parse_members.simps split: list.splits if_splits option.splits)

lemma parse_length:
  "parse_value n s = Some (v, r) \<Longrightarrow> length r < length s"
  "parse_elems n s = Some (vs, r) \<Longrightarrow> length r < length s"
  "parse_members n s = Some (kvs, r) \<Longrightarrow> length r < length s"
proof (induction n arbitrary: s v r vs kvs)
  case (Suc n)
  { case 1
    then show ?case
    proof (cases rule: parse_value_SucE)
      case (num x)
      then show ?thesis using scan_number_length [of "skip_ws s" x r] skip_ws_length [of s] by simp
    next
      case (lit c t k)
      then show ?thesis using skip_ws_Cons_length [of s c t] by simp
    next
      case (empty_obj t)
      then show ?thesis using skip_ws_Cons_length [of s _ t] tl_skip_ws_length [of "CHR ''}''" t] by simp
    next
      case (empty_arr t)
      then show ?thesis using skip_ws_Cons_length [of s _ t] tl_skip_ws_length [of "CHR '']''" t] by simp
    next
      case (obj t kvs)
      then show ?thesis using skip_ws_Cons_length [of s _ t] Suc.IH(3) [of t kvs r] by simp
    next
      case (arr t vs)
      then show ?thesis using skip_ws_Cons_length [of s _ t] Suc.IH(2) [of t vs r] by simp
    next
      case (str t u)
      then show ?thesis using skip_ws_Cons_length [of s _ t] scan_string_length [of t u r] by simp
    qed
  next
    case 2
    then show ?case
      by (cases rule: parse_elems_SucE) (force dest!: Suc.IH skip_ws_Cons_length)+
  next
    case 3
    then show ?case
      by (cases rule: parse_members_SucE)
        (force dest!: Suc.IH skip_ws_Cons_length scan_string_length tl_skip_ws_length)+
  }
qed simp_all

text \<open>More fuel than \<open>2 * length s + 1\<close> changes nothing.\<close>

lemma parse_fuel_Suc:
  "2 * length s + 1 \<le> n \<Longrightarrow> parse_value (Suc n) s = parse_value n s"
  "2 * length s + 2 \<le> n \<Longrightarrow> parse_elems (Suc n) s = parse_elems n s"
  "2 * length s + 2 \<le> n \<Longrightarrow> parse_members (Suc n) s = parse_members n s"
proof (induction n arbitrary: s)
  case (Suc n)
  { case 1
    have "parse_elems (Suc n) t = parse_elems n t" "parse_members (Suc n) t = parse_members n t"
      if "skip_ws s = c # t" for c t
      using Suc(2,3) [of t] skip_ws_Cons_length [OF that] 1 by simp_all
    then show ?case
      by (subst (1 2) parse_value.simps) (simp split: list.split)
  next
    case 2
    have v: "parse_value (Suc n) s = parse_value n s" using Suc(1) [of s] 2 by simp
    have "parse_elems (Suc n) u = parse_elems n u"
      if "parse_value n s = Some (w, t)" "skip_ws t = c # u" for w t c u
      using Suc(2) [of u] skip_ws_Cons_length [OF that(2)] parse_length(1) [OF that(1)] 2 by simp
    then show ?case
      by (subst (1 2) parse_elems.simps) (auto simp: v split: list.split option.split)
  next
    case 3
    have v: "parse_value (Suc n) (tl (skip_ws s2)) = parse_value n (tl (skip_ws s2))"
      if "skip_ws s = q # s1" "scan_string s1 = Some (k, s2)" "starts_with '':'' (skip_ws s2)" for q s1 k s2
      using Suc(1) [of "tl (skip_ws s2)"] skip_ws_Cons_length [OF that(1)] scan_string_length [OF that(2)]
        tl_skip_ws_length [OF that(3)] 3 by simp
    have m: "parse_members (Suc n) u = parse_members n u"
      if "skip_ws s = q # s1" "scan_string s1 = Some (k, s2)" "starts_with '':'' (skip_ws s2)"
        "parse_value n (tl (skip_ws s2)) = Some (w, t)" "skip_ws t = c # u" for q s1 k s2 w t c u
      using Suc(3) [of u] skip_ws_Cons_length [OF that(1)] scan_string_length [OF that(2)]
        tl_skip_ws_length [OF that(3)] parse_length(1) [OF that(4)] skip_ws_Cons_length [OF that(5)] 3
      by simp
    show ?case
      by (subst (1 2) parse_members.simps) (auto simp: v m split: list.split option.split)
  }
qed simp_all

lemma parse_fuel_enough:
  assumes "2 * length s + 1 \<le> n"
  shows "parse_value n s = parse_value (2 * length s + 1) s"
  using assms
proof (induction n rule: dec_induct)
  case (step n)
  then show ?case using parse_fuel_Suc(1) [of s n] by simp
qed simp

section \<open>What was read is well formed\<close>

lemma scan_number_wf: "scan_number s = Some (x, r) \<Longrightarrow> wf64 x \<or> x = F_inf (f64_sign x)"
proof -
  have u: "scan_unsigned neg t = Some (x, r) \<Longrightarrow> wf64 x \<or> x = F_inf (f64_sign x)" for neg t
  proof -
    assume "scan_unsigned neg t = Some (x, r)"
    then obtain i f e where "x = number_val neg i f e"
      by (auto simp: scan_unsigned_def Let_def split: if_splits option.splits)
    then show ?thesis
      using wf_round64 [of "of_nat (text_nat (i @ f)) * 10 powi (e - int (length f))" neg]
      by (auto simp: number_val_def)
  qed
  then show "scan_number s = Some (x, r) \<Longrightarrow> wf64 x \<or> x = F_inf (f64_sign x)"
    by (auto simp: scan_number_def split: if_splits)
qed

lemma scan_number_jok: "scan_number s = Some (x, r) \<Longrightarrow> jfinite (JNum x) \<Longrightarrow> wf64 x"
  using scan_number_wf [of s x r] by (cases x) auto

lemma parse_jok:
  "parse_value n s = Some (v, r) \<Longrightarrow> jfinite v \<Longrightarrow> jok v"
  "parse_elems n s = Some (vs, r) \<Longrightarrow> w \<in> set vs \<Longrightarrow> jfinite w \<Longrightarrow> jok w"
  "parse_members n s = Some (kvs, r) \<Longrightarrow>
     p \<in> set kvs \<Longrightarrow> valid_utf8 (fst p) \<and> (jfinite (snd p) \<longrightarrow> jok (snd p))"
proof (induction n arbitrary: s v r vs kvs w p)
  case (Suc n)
  { case 1
    then show ?case
      by (cases rule: parse_value_SucE)
        (use Suc.IH(2,3) in \<open>auto dest: scan_string_valid scan_number_jok\<close>)
  next
    case 2
    then show ?case
      by (cases rule: parse_elems_SucE) (use Suc.IH(1,2) in auto)
  next
    case 3
    then show ?case
      by (cases rule: parse_members_SucE) (use Suc.IH(1) Suc.IH(3) [where p = p] in \<open>auto simp: split_paired_all dest: scan_string_valid\<close>)
  }
qed simp_all

lemma json_parse_jok: "json_parse s = Some t \<Longrightarrow> jfinite t \<Longrightarrow> jok t"
  by (auto simp: json_parse_def split: option.splits if_splits dest: parse_jok(1))

lemma json_Unmarshal_jwf: "json_Unmarshal s = Some v \<Longrightarrow> jwf v"
  by (auto simp: json_Unmarshal_def jwf_canon json_parse_jok split: option.splits if_splits)

section \<open>Round trip\<close>

text \<open>How the text of a value begins, and what may follow it inside a document.\<close>

definition value_head :: "char \<Rightarrow> bool" where
  "value_head c = (is_digit c \<or> c \<in> {CHR ''-'', CHR 0x22, CHR ''['', CHR ''{'', CHR ''t'', CHR ''f'', CHR ''n''})"

lemma jprint_head: "jok v \<Longrightarrow> \<exists>c t. jprint v = c # t \<and> value_head c"
  using json_f64_head [of "case v of JNum x \<Rightarrow> x | _ \<Rightarrow> f64_zero"]
  by (cases v) (auto simp: value_head_def json_string_def)

lemma value_head_facts:
  assumes "value_head c"
  shows "\<not> is_ws c" "c \<noteq> CHR '']''" "c \<noteq> CHR ''}''" "c \<noteq> CHR '',''"
  using assms by (auto simp: value_head_def is_ws_def is_digit_def)

lemma skip_ws_head [simp]: "\<not> is_ws c \<Longrightarrow> skip_ws (c # t) = c # t"
  by (simp add: skip_ws_def)

lemma skip_ws_jprint: "jok v \<Longrightarrow> skip_ws (jprint v @ rest) = jprint v @ rest"
  using jprint_head [of v] value_head_facts(1) by auto

lemma not_ws [simp]: "\<not> is_ws (CHR ''['')" "\<not> is_ws (CHR '']'')" "\<not> is_ws (CHR ''{'')"
  "\<not> is_ws (CHR ''}'')" "\<not> is_ws (CHR '','')" "\<not> is_ws (CHR '':'')" "\<not> is_ws (CHR 0x22)"
  "\<not> is_ws (CHR ''t'')" "\<not> is_ws (CHR ''f'')" "\<not> is_ws (CHR ''n'')"
  by (simp_all add: is_ws_def)

lemma number_stop_delim [simp]: "number_stop []" "number_stop (CHR '','' # t)" "number_stop (CHR '']'' # t)"
  "number_stop (CHR ''}'' # t)"
  by (simp_all add: number_stop_def is_digit_def)

lemma scan_json_string: "valid_utf8 s \<Longrightarrow> scan_string (encode_string s @ CHR 0x22 # rest) = Some (s, rest)"
  by (rule scan_string_encode)

lemma parse_num_print:
  assumes "wf64 x" "number_stop rest"
  shows "parse_value (Suc n) (json_f64 x @ rest) = Some (JNum x, rest)"
proof -
  obtain c u where c: "json_f64 x = c # u" "is_digit c \<or> c = CHR ''-''"
    using json_f64_head [OF assms(1)] by blast
  then have "\<not> is_ws c"
    and ne: "c \<noteq> CHR ''{''" "c \<noteq> CHR ''[''" "c \<noteq> CHR 0x22" "c \<noteq> CHR ''t''" "c \<noteq> CHR ''f''" "c \<noteq> CHR ''n''"
    by (auto simp: is_ws_def is_digit_def)
  then have ws: "skip_ws (json_f64 x @ rest) = c # (u @ rest)" using c(1) by simp
  have "scan_number (c # (u @ rest)) = Some (x, rest)"
    using scan_json_f64 [OF assms] c(1) by simp
  then show ?thesis using ne by (simp add: parse_value.simps ws)
qed

lemma starts_with_head: "c \<noteq> d \<Longrightarrow> \<not> starts_with [d] (c # t)"
  by simp

lemma jprint_elems_head:
  "vs \<noteq> [] \<Longrightarrow> \<forall>v\<in>set vs. jok v \<Longrightarrow> \<exists>c t. jprint_elems vs = c # t \<and> value_head c"
  using jprint_head [of "hd vs"] by (cases vs) auto

lemma parse_print:
  "jok v \<Longrightarrow> number_stop rest \<Longrightarrow> 2 * length (jprint v) + 1 \<le> n \<Longrightarrow>
     parse_value n (jprint v @ rest) = Some (v, rest)"
  "vs \<noteq> [] \<Longrightarrow> \<forall>v\<in>set vs. jok v \<Longrightarrow> 2 * length (jprint_elems vs) + 2 \<le> n \<Longrightarrow>
     parse_elems n (jprint_elems vs @ CHR '']'' # rest) = Some (vs, rest)"
  "kvs \<noteq> [] \<Longrightarrow> \<forall>p\<in>set kvs. valid_utf8 (fst p) \<and> jok (snd p) \<Longrightarrow> 2 * length (jprint_members kvs) + 2 \<le> n \<Longrightarrow>
     parse_members n (jprint_members kvs @ CHR ''}'' # rest) = Some (kvs, rest)"
proof (induction v and vs and kvs arbitrary: n rest and n rest and n rest
    rule: jprint_jprint_elems_jprint_members.induct)
  case 1
  then show ?case by (cases n) (simp_all add: parse_value.simps)
next
  case (2 b)
  then show ?case by (cases n) (simp_all add: parse_value.simps)
next
  case (3 x)
  then show ?case by (cases n) (simp_all add: parse_num_print)
next
  case (4 s)
  obtain m where m: "n = Suc m" using 4(3) by (cases n) auto
  show ?case using 4(1) by (simp add: m parse_value.simps json_string_def scan_json_string)
next
  case (5 vs)
  obtain m where m: "n = Suc m" using 5(4) by (cases n) auto
  show ?case
  proof (cases "vs = []")
    case False
    have ok: "\<forall>v\<in>set vs. jok v" using 5(2) by simp
    obtain c t where c: "jprint_elems vs = c # t" "value_head c"
      using jprint_elems_head [OF False ok] by blast
    have "parse_elems m (jprint_elems vs @ CHR '']'' # rest) = Some (vs, rest)"
      by (rule 5(1) [OF False ok]) (use 5(4) m in simp)
    then show ?thesis using m c value_head_facts [OF c(2)] by (simp add: parse_value.simps)
  qed (simp add: m parse_value.simps)
next
  case (6 kvs)
  obtain m where m: "n = Suc m" using 6(4) by (cases n) auto
  show ?case
  proof (cases "kvs = []")
    case False
    then obtain t where c: "jprint_members kvs = CHR 0x22 # t"
      by (cases kvs) (auto simp: json_string_def)
    have "parse_members m (jprint_members kvs @ CHR ''}'' # rest) = Some (kvs, rest)"
      by (rule 6(1) [OF False]) (use 6(2,4) m in simp_all)
    then show ?thesis using m c by (simp add: parse_value.simps)
  qed (simp add: m parse_value.simps)
next
  case (8 v vs)
  obtain m where m: "n = Suc m" using 8(5) by (cases n) auto
  show ?case
  proof (cases "vs = []")
    case True
    then show ?thesis using 8(1) [of "CHR '']'' # rest" m] 8(4,5) m by (simp add: parse_elems.simps)
  next
    case False
    then show ?thesis
      using 8(1) [of "CHR '','' # jprint_elems vs @ CHR '']'' # rest" m] 8(2) [of m rest] 8(4,5) m
      by (simp add: parse_elems.simps)
  qed
next
  case (10 k v kvs)
  obtain m where m: "n = Suc m" using 10(5) by (cases n) auto
  show ?case
  proof (cases "kvs = []")
    case True
    then show ?thesis using 10(1) [of "CHR ''}'' # rest" m] 10(4,5) m
      by (simp add: parse_members.simps json_string_def scan_json_string)
  next
    case False
    then show ?thesis
      using 10(1) [of "CHR '','' # jprint_members kvs @ CHR ''}'' # rest" m] 10(2) [of m rest] 10(4,5) m
      by (simp add: parse_members.simps json_string_def scan_json_string)
  qed
qed simp_all

lemma json_parse_jprint: "jok v \<Longrightarrow> json_parse (jprint v) = Some v"
  using parse_print(1) [of v "[]" "2 * length (jprint v) + 1"]
  by (simp add: json_parse_def skip_ws_def)

text \<open>What the library prints reads back as the value printed.\<close>

lemma Unmarshal_jprint: "jok v \<Longrightarrow> json_Unmarshal (jprint v) = Some (canon v)"
  by (simp add: json_Unmarshal_def json_parse_jprint jok_jfinite)

lemma Unmarshal_Marshal: "jwf v \<Longrightarrow> json_Marshal v = Some d \<Longrightarrow> json_Unmarshal d = Some v"
  by (auto simp: json_Marshal_def jwf_def Unmarshal_jprint canon_id split: if_splits)

lemma Marshal_jwf: "jwf v \<Longrightarrow> json_Marshal v = Some (jprint v)"
  by (simp add: json_Marshal_def jwf_def jok_jfinite)

end
