(* ===== verification/JsonTree.thy ===== *)
theory JsonTree
  imports JsonText
begin

text \<open>
  Paths into a JSON value. A path of the program is a text like \<^verbatim>\<open>cluster.feature_usage\<close>;
  \<open>segs\<close> cuts it at the dots and \<open>plain_path\<close> says that every segment is a nonempty
  word of lower-case letters and underscores, with none of the characters that gjson
  and sjson give a meaning. \<open>jget\<close>, \<open>jset\<close> and \<open>jdel\<close> read, write and remove the node
  at a path; their laws are what the edits of \<^verbatim>\<open>pkg/jsonedit\<close> are specified with.
\<close>

section \<open>Paths\<close>

definition segs :: "string \<Rightarrow> string list" where
  "segs p = strings_Split p ''.''"

definition plain_char :: "char \<Rightarrow> bool" where
  "plain_char c = (c = CHR ''_'' \<or> (97 \<le> byte c \<and> byte c \<le> 122))"

definition plain_path :: "string \<Rightarrow> bool" where
  "plain_path p = list_all (\<lambda>k. k \<noteq> [] \<and> list_all plain_char k) (segs p)"

lemma split_from_nonempty [simp]: "split_from sep acc s \<noteq> []"
  by (induction sep acc s rule: split_from.induct) (subst split_from.simps, simp)

lemma segs_nonempty [simp]: "segs p \<noteq> []"
  by (simp add: segs_def strings_Split_def)

lemma plain_char_ascii: "plain_char c \<Longrightarrow> byte c < 128"
  by (auto simp: plain_char_def byte_def)

lemma plain_segs: "plain_path p \<Longrightarrow> k \<in> set (segs p) \<Longrightarrow> valid_utf8 k"
  by (auto simp: plain_path_def list_all_iff intro!: valid_utf8_ascii plain_char_ascii)

section \<open>Reading, writing and removing a node\<close>

fun jget :: "string list \<Rightarrow> json \<Rightarrow> json option" where
  "jget [] v = Some v"
| "jget (k # ks) (JObj m) = (case mget m k of None \<Rightarrow> None | Some w \<Rightarrow> jget ks w)"
| "jget (k # ks) v = None"

text \<open>
  \<open>jset\<close> is meant for a path whose parent is an object (\<open>settable\<close>); \<open>jdel\<close> leaves
  the value alone when there is no node at the path.
\<close>

fun jset :: "string list \<Rightarrow> json \<Rightarrow> json \<Rightarrow> json" where
  "jset [] w v = w"
| "jset (k # ks) w (JObj m) =
     (case mget m k of
        None \<Rightarrow> (if ks = [] then JObj (mput k w m) else JObj m)
      | Some u \<Rightarrow> JObj (mput k (jset ks w u) m))"
| "jset (k # ks) w v = v"

fun jdel :: "string list \<Rightarrow> json \<Rightarrow> json" where
  "jdel [] v = v"
| "jdel (k # ks) (JObj m) =
     (if ks = [] then JObj (mdel k m)
      else case mget m k of None \<Rightarrow> JObj m | Some u \<Rightarrow> JObj (mput k (jdel ks u) m))"
| "jdel (k # ks) v = v"

fun is_JStr :: "json \<Rightarrow> bool" where
  "is_JStr (JStr s) = True"
| "is_JStr v = False"

fun is_JObj :: "json \<Rightarrow> bool" where
  "is_JObj (JObj m) = True"
| "is_JObj v = False"

definition settable :: "string list \<Rightarrow> json \<Rightarrow> bool" where
  "settable ks v = (ks \<noteq> [] \<and> (case jget (butlast ks) v of Some u \<Rightarrow> is_JObj u | None \<Rightarrow> False))"

text \<open>No string on the way to the last segment.\<close>

fun clear_path :: "string list \<Rightarrow> json \<Rightarrow> bool" where
  "clear_path [] v = True"
| "clear_path (k # ks) (JObj m) =
     (case mget m k of None \<Rightarrow> True | Some w \<Rightarrow> ks = [] \<or> clear_path ks w)"
| "clear_path (k # ks) v = (\<not> is_JStr v)"

lemma jwf_mget: "jwf (JObj m) \<Longrightarrow> mget m k = Some w \<Longrightarrow> jwf w"
  by (fastforce dest: mget_in_set)

lemma jwf_mput [wf_intros]: "jwf (JObj m) \<Longrightarrow> valid_utf8 k \<Longrightarrow> jwf w \<Longrightarrow> jwf (JObj (mput k w m))"
  using set_mput [of k w m] by (fastforce simp: msorted_mput)

lemma jwf_mdel [wf_intros]: "jwf (JObj m) \<Longrightarrow> jwf (JObj (mdel k m))"
  using set_mdel [of k m] by (auto simp: msorted_mdel)

lemma jget_jwf: "jwf v \<Longrightarrow> jget ks v = Some w \<Longrightarrow> jwf w"
  by (induction ks v rule: jget.induct) (auto simp del: jwf_simps(6) dest: jwf_mget split: option.splits)

lemma jset_jwf:
  "jwf v \<Longrightarrow> jwf w \<Longrightarrow> \<forall>k\<in>set ks. valid_utf8 k \<Longrightarrow> jwf (jset ks w v)"
  by (induction ks w v rule: jset.induct)
    (auto simp del: jwf_simps(6) intro!: jwf_mput dest: jwf_mget split: option.splits)

lemma jdel_jwf: "jwf v \<Longrightarrow> \<forall>k\<in>set ks. valid_utf8 k \<Longrightarrow> jwf (jdel ks v)"
  by (induction ks v rule: jdel.induct)
    (auto simp del: jwf_simps(6) intro!: jwf_mput jwf_mdel dest: jwf_mget split: option.splits)

section \<open>Laws\<close>

lemma jget_append: "jget (ks @ ls) v = (case jget ks v of None \<Rightarrow> None | Some u \<Rightarrow> jget ls u)"
  by (induction ks v rule: jget.induct) (auto split: option.splits)

lemma settable_Cons:
  "settable (k # ks) (JObj m) =
     (ks = [] \<or> (case mget m k of None \<Rightarrow> False | Some u \<Rightarrow> settable ks u))"
  by (auto simp: settable_def split: option.splits)

lemma settable_not_obj: "\<not> is_JObj v \<Longrightarrow> \<not> settable ks v"
  by (cases ks; cases "butlast ks"; cases v) (auto simp: settable_def)

lemma jget_settable: "jget ks v = Some w \<Longrightarrow> ks \<noteq> [] \<Longrightarrow> settable ks v"
proof (induction ks v rule: jget.induct)
  case (2 k ks m)
  then show ?case by (cases "ks = []") (auto simp: settable_Cons split: option.splits)
qed auto

lemma jget_jset_same: "jwf v \<Longrightarrow> settable ks v \<Longrightarrow> jget ks (jset ks w v) = Some w"
proof (induction ks w v rule: jset.induct)
  case (2 k ks w m)
  then show ?case
    using jwf_mget [of m k] by (auto simp: settable_Cons gomap_simps split: option.splits)
qed (auto simp: settable_not_obj)

lemma jset_same: "jwf v \<Longrightarrow> jget ks v = Some w \<Longrightarrow> jset ks w v = v"
proof (induction ks v rule: jget.induct)
  case (2 k ks m)
  then obtain u where "mget m k = Some u" by (auto split: option.splits)
  with 2 jwf_mget [OF 2(2)] show ?case by (auto simp: mput_same)
qed auto

text \<open>Two paths that part at some segment.\<close>

fun apart :: "string list \<Rightarrow> string list \<Rightarrow> bool" where
  "apart (k # ks) (l # ls) = (k \<noteq> l \<or> apart ks ls)"
| "apart ks ls = False"

lemma jget_jset_apart: "jwf v \<Longrightarrow> apart ks ls \<Longrightarrow> jget ls (jset ks w v) = jget ls v"
proof (induction ks ls arbitrary: v rule: apart.induct)
  case (1 k ks l ls)
  show ?case
  proof (cases v)
    case (JObj m)
    then show ?thesis
      using 1 jwf_mget [of m k]
      by (cases ks) (auto simp: gomap_simps split: option.splits)
  qed auto
qed auto

lemma jget_jdel_same: "jwf v \<Longrightarrow> ks \<noteq> [] \<Longrightarrow> jget ks (jdel ks v) = None"
proof (induction ks v rule: jdel.induct)
  case (2 k ks m)
  then show ?case
    using jwf_mget [of m k] by (auto simp: gomap_simps split: option.splits)
qed auto

lemma jget_jdel_apart: "jwf v \<Longrightarrow> apart ks ls \<Longrightarrow> jget ls (jdel ks v) = jget ls v"
proof (induction ks ls arbitrary: v rule: apart.induct)
  case (1 k ks l ls)
  show ?case
  proof (cases v)
    case (JObj m)
    then show ?thesis
      using 1 jwf_mget [of m k]
      by (cases ks) (auto simp: gomap_simps split: option.splits)
  qed auto
qed auto

lemma jdel_absent: "jwf v \<Longrightarrow> ks \<noteq> [] \<Longrightarrow> jget ks v = None \<Longrightarrow> jdel ks v = v"
proof (induction ks v rule: jdel.induct)
  case (2 k ks m)
  show ?case
  proof (cases "mget m k")
    case None
    then show ?thesis by (simp add: mdel_absent)
  next
    case (Some u)
    with 2 jwf_mget [OF 2(2) Some] show ?thesis by (auto simp: mput_same)
  qed
qed auto

lemma is_JObj_jset: "ks \<noteq> [] \<Longrightarrow> is_JObj (jset ks w v) = is_JObj v"
  by (induction ks w v rule: jset.induct) (auto split: option.splits)

lemma is_JObj_jdel: "is_JObj (jdel ks v) = is_JObj v"
  by (induction ks v rule: jdel.induct) (auto split: option.splits)

lemma is_JStr_jset: "ks \<noteq> [] \<Longrightarrow> is_JStr (jset ks w v) = is_JStr v"
  by (induction ks w v rule: jset.induct) (auto split: option.splits)

lemma is_JStr_jdel: "is_JStr (jdel ks v) = is_JStr v"
  by (induction ks v rule: jdel.induct) (auto split: option.splits)

lemma settable_clear: "settable ks v \<Longrightarrow> clear_path ks v"
proof (induction ks v rule: clear_path.induct)
  case (2 k ks m)
  then show ?case by (auto simp: settable_Cons split: option.splits)
qed (auto simp: settable_not_obj)

lemma is_JObj_not_JStr: "is_JObj v \<Longrightarrow> \<not> is_JStr v"
  by (cases v) auto

end
