(* ===== verification/JsonLib.thy ===== *)
theory JsonLib
  imports JsonTree
begin

text \<open>
  The third-party packages gjson and sjson as an interface. The program calls three of
  their functions on JSON text: \<^verbatim>\<open>gjson.Get\<close>, \<^verbatim>\<open>sjson.Set\<close> and \<^verbatim>\<open>sjson.Delete\<close>; a
  \<open>json_lib\<close> holds one implementation of each and is an argument of every definition
  that edits text. The locale \<open>json_edit_lib\<close> states what the documentation of the two
  packages promises for plain paths, on the documents the program edits, and the
  interpretation at the end shows that an implementation over the parser and the printer
  of \<^verbatim>\<open>encoding/json\<close> keeps these promises.
\<close>

text \<open>
  A \<^verbatim>\<open>gjson.Result\<close> that exists: whether \<^verbatim>\<open>Value()\<close> is nil, and the text \<^verbatim>\<open>String()\<close>.
\<close>

record gjson_result =
  gr_nil :: bool
  gr_string :: string

text \<open>
  \<open>gget d p\<close> is None when the result does not exist; \<open>sset d p w\<close> and \<open>sdel d p\<close> are
  None when the function returns an error.
\<close>

record json_lib =
  gget :: "string \<Rightarrow> string \<Rightarrow> gjson_result option"
  sset :: "string \<Rightarrow> string \<Rightarrow> json \<Rightarrow> string option"
  sdel :: "string \<Rightarrow> string \<Rightarrow> string option"

text \<open>The value a text stands for, and the texts the program edits.\<close>

definition denotes :: "string \<Rightarrow> json \<Rightarrow> bool" where
  "denotes d v = (\<exists>r. json_parse d = Some r \<and> jok r \<and> jdistinct r \<and> canon r = v)"

inductive edited :: "json_lib \<Rightarrow> string \<Rightarrow> bool" for L where
  edited_print: "jok r \<Longrightarrow> jdistinct r \<Longrightarrow> edited L (jprint r)"
| edited_set: "edited L d \<Longrightarrow> sset L d p w = Some d' \<Longrightarrow> edited L d'"
| edited_del: "edited L d \<Longrightarrow> sdel L d p = Some d' \<Longrightarrow> edited L d'"

definition reps :: "json_lib \<Rightarrow> string \<Rightarrow> json \<Rightarrow> bool" where
  "reps L d v = (edited L d \<and> denotes d v)"

lemma denotes_Unmarshal: "denotes d v \<Longrightarrow> json_Unmarshal d = Some v"
  by (auto simp: denotes_def json_Unmarshal_def jok_jfinite)

lemma denotes_jwf: "denotes d v \<Longrightarrow> jwf v"
  by (auto simp: denotes_def jwf_canon)

lemma denotes_jprint: "jok r \<Longrightarrow> jdistinct r \<Longrightarrow> denotes (jprint r) (canon r)"
  by (auto simp: denotes_def json_parse_jprint)

lemma reps_Unmarshal: "reps L d v \<Longrightarrow> json_Unmarshal d = Some v"
  by (simp add: reps_def denotes_Unmarshal)

lemma reps_jwf: "reps L d v \<Longrightarrow> jwf v"
  by (auto simp: reps_def denotes_jwf)

lemma reps_print: "jok r \<Longrightarrow> jdistinct r \<Longrightarrow> reps L (jprint r) (canon r)"
  by (simp add: reps_def denotes_jprint edited_print)

lemma reps_jprint: "jwf v \<Longrightarrow> reps L (jprint v) v"
  using reps_print [of v L] by (simp add: jwf_def jcanon_distinct canon_id)

text \<open>What \<^verbatim>\<open>String()\<close> gives for a node.\<close>

definition string_of :: "json \<Rightarrow> string \<Rightarrow> bool" where
  "string_of w s = (case w of JStr t \<Rightarrow> s = t | JNull \<Rightarrow> s = [] | _ \<Rightarrow> json_Unmarshal s = Some w)"

locale json_edit_lib =
  fixes L :: json_lib
  assumes get_absent: "reps L d v \<Longrightarrow> \<not> is_JStr v \<Longrightarrow> plain_path p \<Longrightarrow> jget (segs p) v = None \<Longrightarrow>
      gget L d p = None"
    and get_present: "reps L d v \<Longrightarrow> \<not> is_JStr v \<Longrightarrow> plain_path p \<Longrightarrow> jget (segs p) v = Some w \<Longrightarrow>
      \<exists>s. gget L d p = Some \<lparr> gr_nil = (w = JNull), gr_string = s \<rparr> \<and> string_of w s"
    and set_present: "reps L d v \<Longrightarrow> plain_path p \<Longrightarrow> settable (segs p) v \<Longrightarrow> jwf w \<Longrightarrow>
      \<exists>d'. sset L d p w = Some d' \<and> denotes d' (jset (segs p) w v)"
    and del_clear: "reps L d v \<Longrightarrow> plain_path p \<Longrightarrow> clear_path (segs p) v \<Longrightarrow>
      \<exists>d'. sdel L d p = Some d' \<and> denotes d' (jdel (segs p) v)"
begin

lemma set_reps:
  assumes "reps L d v" "plain_path p" "settable (segs p) v" "jwf w"
  obtains d' where "sset L d p w = Some d'" "reps L d' (jset (segs p) w v)"
  using set_present [OF assms] assms(1) by (auto simp: reps_def intro: edited_set)

lemma del_reps:
  assumes "reps L d v" "plain_path p" "clear_path (segs p) v"
  obtains d' where "sdel L d p = Some d'" "reps L d' (jdel (segs p) v)"
  using del_clear [OF assms] assms(1) by (auto simp: reps_def intro: edited_del)

end

section \<open>An implementation over the parser and the printer\<close>

definition node_string :: "json \<Rightarrow> string" where
  "node_string w = (case w of JStr s \<Rightarrow> s | JNull \<Rightarrow> [] | _ \<Rightarrow> jprint w)"

definition tree_get :: "string \<Rightarrow> string \<Rightarrow> gjson_result option" where
  "tree_get d p =
     (case json_Unmarshal d of
        None \<Rightarrow> None
      | Some v \<Rightarrow> map_option (\<lambda>w. \<lparr> gr_nil = (w = JNull), gr_string = node_string w \<rparr>) (jget (segs p) v))"

definition tree_set :: "string \<Rightarrow> string \<Rightarrow> json \<Rightarrow> string option" where
  "tree_set d p w =
     (case json_Unmarshal d of
        None \<Rightarrow> None
      | Some v \<Rightarrow> if settable (segs p) v then json_Marshal (jset (segs p) w v) else None)"

definition tree_del :: "string \<Rightarrow> string \<Rightarrow> string option" where
  "tree_del d p =
     (case json_Unmarshal d of
        None \<Rightarrow> None
      | Some v \<Rightarrow> json_Marshal (jdel (segs p) v))"

definition tree_lib :: json_lib where
  "tree_lib = \<lparr> gget = tree_get, sset = tree_set, sdel = tree_del \<rparr>"

lemma Unmarshal_jprint_jwf: "jwf w \<Longrightarrow> json_Unmarshal (jprint w) = Some w"
  by (simp add: jwf_def Unmarshal_jprint canon_id)

lemma string_of_node: "jwf w \<Longrightarrow> string_of w (node_string w)"
  using Unmarshal_jprint_jwf [of w]
  by (cases w) (simp_all add: string_of_def node_string_def del: jprint.simps)

lemma denotes_self: "jwf v \<Longrightarrow> denotes (jprint v) v"
  using denotes_jprint [of v] by (simp add: jwf_def jcanon_distinct canon_id)

interpretation tree: json_edit_lib tree_lib
proof
  fix d v p w
  { assume r: "reps tree_lib d v" and "jget (segs p) v = None"
    then show "gget tree_lib d p = None"
      by (simp add: tree_lib_def tree_get_def reps_Unmarshal [OF r])
  next
    assume r: "reps tree_lib d v" and g: "jget (segs p) v = Some w"
    have "string_of w (node_string w)"
      by (rule string_of_node [OF jget_jwf [OF reps_jwf [OF r] g]])
    with g show "\<exists>s. gget tree_lib d p = Some \<lparr>gr_nil = (w = JNull), gr_string = s\<rparr> \<and> string_of w s"
      by (simp add: tree_lib_def tree_get_def reps_Unmarshal [OF r])
  next
    assume r: "reps tree_lib d v" and p: "plain_path p" and s: "settable (segs p) v" and w: "jwf w"
    have "jwf (jset (segs p) w v)"
      using plain_segs [OF p] by (intro jset_jwf [OF reps_jwf [OF r] w]) blast
    then show "\<exists>d'. sset tree_lib d p w = Some d' \<and> denotes d' (jset (segs p) w v)"
      using s by (simp add: tree_lib_def tree_set_def reps_Unmarshal [OF r] Marshal_jwf denotes_self)
  next
    assume r: "reps tree_lib d v" and p: "plain_path p"
    have "jwf (jdel (segs p) v)"
      using plain_segs [OF p] by (intro jdel_jwf [OF reps_jwf [OF r]]) blast
    then show "\<exists>d'. sdel tree_lib d p = Some d' \<and> denotes d' (jdel (segs p) v)"
      by (simp add: tree_lib_def tree_del_def reps_Unmarshal [OF r] Marshal_jwf denotes_self)
  }
qed

end
