(* ===== verification/JsonEdit.thy ===== *)
theory JsonEdit
  imports JsonLib
begin

text \<open>
  Package \<^verbatim>\<open>pkg/jsonedit\<close>: \<^verbatim>\<open>Transform\<close>, \<^verbatim>\<open>Delete\<close> and \<^verbatim>\<open>Rename\<close> on JSON text, with
  paths of the form \<^verbatim>\<open>a.b\<close> or \<^verbatim>\<open>a.b[*].c.d\<close>. The definitions follow the Go code call by
  call, swallowed errors and the variable \<^verbatim>\<open>err\<close> that survives an iteration included;
  gjson and sjson are the argument \<open>L\<close>. The second half gives the same three operations
  on JSON values and shows that the text operations implement them.
\<close>

section \<open>Paths\<close>

definition isComplexPath :: "string \<Rightarrow> bool" where
  "isComplexPath path = strings_Contains path ''[*]''"

lemma Split_not_complex: "p \<in> set (strings_Split path ''[*]'') \<Longrightarrow> \<not> isComplexPath p"
  by (simp add: isComplexPath_def Split_pieces)

lemma Split_Trim_not_complex:
  "p \<in> set (strings_Split path ''[*]'') \<Longrightarrow> \<not> isComplexPath (strings_Trim p cs)"
  using Split_not_complex [of p path] Trim_Contains [of p cs] by (auto simp: isComplexPath_def)

lemma Split_two:
  assumes "strings_Split path ''[*]'' = [a, b]"
  shows "\<not> isComplexPath a \<and> \<not> isComplexPath (strings_Trim b cs)"
  using Split_not_complex [of a path] Split_Trim_not_complex [of b path] assms by simp

section \<open>Transform\<close>

text \<open>
  The body of the loop for a path that is not complex: the new \<^verbatim>\<open>jsonBytes\<close> and the
  value left in the outer \<^verbatim>\<open>err\<close> (True: not nil).
\<close>

definition transform_path ::
  "json_lib \<Rightarrow> (json \<Rightarrow> json option) \<Rightarrow> bool \<Rightarrow> string \<Rightarrow> string \<Rightarrow> string \<times> bool" where
  "transform_path L transformFn err jsonBytes path =
     (case gget L jsonBytes path of
        None \<Rightarrow> (jsonBytes, err)
      | Some value \<Rightarrow>
          let (item, err') =
            (if gr_nil value then (JNull, err)
             else let unpacked = (case json_Unmarshal (gr_string value) of
                        Some u \<Rightarrow> u | None \<Rightarrow> JStr (gr_string value))
                  in case transformFn unpacked of Some w \<Rightarrow> (w, False) | None \<Rightarrow> (JNull, True))
          in if err' then (jsonBytes, err')
             else case sset L jsonBytes path item of
               None \<Rightarrow> (jsonBytes, err')
             | Some jsonString \<Rightarrow> (jsonString, err'))"

text \<open>
  The loop of \<^verbatim>\<open>transformChildrenFn\<close>: \<open>g\<close> transforms and unpacks one item. An item that
  cannot be printed fails the whole function, one that cannot be unpacked is skipped.
\<close>

fun transform_items :: "(string \<Rightarrow> json option) \<Rightarrow> json list \<Rightarrow> json list option" where
  "transform_items g [] = Some []"
| "transform_items g (v # vs) =
     (case json_Marshal v of
        None \<Rightarrow> None
      | Some b \<Rightarrow>
          (case transform_items g vs of
             None \<Rightarrow> None
           | Some items \<Rightarrow> Some (case g b of None \<Rightarrow> items | Some item \<Rightarrow> item # items)))"

text \<open>
  \<^verbatim>\<open>Transform\<close> never returns an error, so it gives the text alone; the third argument
  is the variable \<^verbatim>\<open>err\<close>, False on entry.
\<close>

function (sequential) transform_loop ::
    "json_lib \<Rightarrow> (json \<Rightarrow> json option) \<Rightarrow> bool \<Rightarrow> string \<Rightarrow> string list \<Rightarrow> string"
  and transformFromComplexPath ::
    "json_lib \<Rightarrow> (json \<Rightarrow> json option) \<Rightarrow> string \<Rightarrow> string \<Rightarrow> string" where
  "transform_loop L f err jsonBytes [] = jsonBytes"
| "transform_loop L f err jsonBytes (path # paths) =
     (if isComplexPath path
      then transform_loop L f err (transformFromComplexPath L f jsonBytes path) paths
      else case transform_path L f err jsonBytes path of
        (jsonBytes', err') \<Rightarrow> transform_loop L f err' jsonBytes' paths)"
| "transformFromComplexPath L f jsonBytes complexPath =
     (case strings_Split complexPath ''[*]'' of
        [parent, rest] \<Rightarrow>
          transform_loop L
            (\<lambda>unpacked. case unpacked of
               JArr parentList \<Rightarrow>
                 map_option JArr (transform_items
                   (\<lambda>b. json_Unmarshal (transform_loop L f False b [strings_Trim rest ''.''])) parentList)
             | _ \<Rightarrow> None)
            False jsonBytes [parent]
      | _ \<Rightarrow> jsonBytes)"
  by pat_completeness auto
termination
proof (relation "measure (\<lambda>x. case x of
      Inl (L, f, err, d, ps) \<Rightarrow> sum_list (map (\<lambda>p. if isComplexPath p then 4 else 1) ps)
    | Inr (L, f, d, p) \<Rightarrow> 2)")
qed (auto dest: Split_two)

declare transformFromComplexPath.simps [simp del]

definition Transform :: "json_lib \<Rightarrow> string \<Rightarrow> string list \<Rightarrow> (json \<Rightarrow> json option) \<Rightarrow> string" where
  "Transform L jsonBytes paths transformFn = transform_loop L transformFn False jsonBytes paths"

section \<open>Delete\<close>

datatype edit_error = Unsupported_path string | Delete_failed

text \<open>The loop of \<^verbatim>\<open>deleteChild\<close>; here every error fails the function.\<close>

fun delete_items :: "json_lib \<Rightarrow> string \<Rightarrow> json list \<Rightarrow> json list option" where
  "delete_items L child [] = Some []"
| "delete_items L child (v # vs) =
     (case json_Marshal v of
        None \<Rightarrow> None
      | Some b \<Rightarrow>
          (case sdel L b child of
             None \<Rightarrow> None
           | Some jsonString \<Rightarrow>
               (case json_Unmarshal jsonString of
                  None \<Rightarrow> None
                | Some item \<Rightarrow> map_option ((#) item) (delete_items L child vs))))"

definition deleteFromComplexPath :: "json_lib \<Rightarrow> string \<Rightarrow> string \<Rightarrow> string \<times> edit_error option" where
  "deleteFromComplexPath L jsonBytes complexPath =
     (case strings_Split complexPath ''[*]'' of
        [parent, rest] \<Rightarrow>
          (Transform L jsonBytes [parent]
             (\<lambda>unpacked. case unpacked of
                JArr parentList \<Rightarrow> map_option JArr (delete_items L (strings_Trim rest ''.'') parentList)
              | _ \<Rightarrow> None), None)
      | _ \<Rightarrow> (jsonBytes, Some (Unsupported_path complexPath)))"

fun Delete :: "json_lib \<Rightarrow> string \<Rightarrow> string list \<Rightarrow> string \<times> edit_error option" where
  "Delete L jsonBytes [] = (jsonBytes, None)"
| "Delete L jsonBytes (path # paths) =
     (if isComplexPath path then
        (case deleteFromComplexPath L jsonBytes path of
           (jsonBytes', Some err) \<Rightarrow> (jsonBytes', Some err)
         | (jsonBytes', None) \<Rightarrow> Delete L jsonBytes' paths)
      else case sdel L jsonBytes path of
        None \<Rightarrow> (jsonBytes, Some Delete_failed)
      | Some strEventJson \<Rightarrow> Delete L strEventJson paths)"

section \<open>Rename\<close>

text \<open>
  The loop over the children of a complex path; \<open>g\<close> is the recursive \<^verbatim>\<open>Rename\<close>, which
  may panic. \<open>raw\<close> is the text of the whole list: it takes the place of a child whose
  new text cannot be unpacked.
\<close>

fun rename_items ::
  "(string \<Rightarrow> (string \<times> edit_error option) go) \<Rightarrow> string \<Rightarrow> json list \<Rightarrow> json list go" where
  "rename_items g raw [] = Return []"
| "rename_items g raw (child # children) =
     (case json_Marshal child of
        None \<Rightarrow> rename_items g raw children
      | Some childBytes \<Rightarrow>
          go_bind (g childBytes) (\<lambda>(renamedBytes, err).
            go_bind (rename_items g raw children) (\<lambda>items.
              Return (if err \<noteq> None then items
                      else (case json_Unmarshal renamedBytes of Some item \<Rightarrow> item | None \<Rightarrow> JStr raw) # items))))"

text \<open>
  The loop over the entries of \<^verbatim>\<open>paths\<close>, in the order the map gives them. The type
  assertion \<^verbatim>\<open>unpacked.([]interface{})\<close> panics on any other value.
\<close>

function (sequential) rename_loop ::
  "json_lib \<Rightarrow> string \<Rightarrow> (string \<times> string) list \<Rightarrow> (string \<times> edit_error option) go" where
  "rename_loop L jsonBytes [] = Return (jsonBytes, None)"
| "rename_loop L jsonBytes ((srcPath, dstPath) # paths) =
     (if isComplexPath srcPath then
        (case strings_Split srcPath ''[*]'' of
           [srcParent, srcRest] \<Rightarrow>
             (case strings_Split dstPath ''[*]'' of
                [dstParent, dstRest] \<Rightarrow>
                  if srcParent \<noteq> dstParent then rename_loop L jsonBytes paths
                  else (case gget L jsonBytes srcParent of
                    None \<Rightarrow> rename_loop L jsonBytes paths
                  | Some value \<Rightarrow>
                      (case json_Unmarshal (gr_string value) of
                         None \<Rightarrow> rename_loop L jsonBytes paths
                       | Some (JArr parentList) \<Rightarrow>
                           go_bind (rename_items
                               (\<lambda>b. rename_loop L b [(strings_Trim srcRest ''.'', strings_Trim dstRest ''.'')])
                               (gr_string value) parentList)
                             (\<lambda>items. case sset L jsonBytes dstParent (JArr items) of
                                None \<Rightarrow> rename_loop L jsonBytes paths
                              | Some jsonString \<Rightarrow> rename_loop L jsonString paths)
                       | Some _ \<Rightarrow> Panic))
              | _ \<Rightarrow> rename_loop L jsonBytes paths)
         | _ \<Rightarrow> rename_loop L jsonBytes paths)
      else
        (case gget L jsonBytes srcPath of
           None \<Rightarrow> rename_loop L jsonBytes paths
         | Some value \<Rightarrow>
             let item = (case json_Unmarshal (gr_string value) of
                   Some u \<Rightarrow> u | None \<Rightarrow> JStr (gr_string value))
             in (case sset L jsonBytes dstPath item of
                   None \<Rightarrow> rename_loop L jsonBytes paths
                 | Some jsonString \<Rightarrow>
                     (case sdel L jsonString srcPath of
                        None \<Rightarrow> Return (jsonBytes, Some Delete_failed)
                      | Some jsonString' \<Rightarrow> rename_loop L jsonString' paths))))"
  by pat_completeness auto
termination
proof (relation "measure (\<lambda>(L, d, ps). sum_list (map (\<lambda>p. if isComplexPath (fst p) then 4 else 1) ps))")
qed (auto dest: Split_two)

declare rename_loop.simps(2) [simp del]

definition Rename ::
  "json_lib \<Rightarrow> range_order \<Rightarrow> string \<Rightarrow> string gomap \<Rightarrow> (string \<times> edit_error option) go" where
  "Rename L ord jsonBytes paths = rename_loop L jsonBytes (map_range ord paths)"

end
