(* ===== verification/JsonEditSpec.thy ===== *)
theory JsonEditSpec
  imports JsonEdit
begin

text \<open>
  The edits of \<^verbatim>\<open>pkg/jsonedit\<close> on JSON values, and the proof that the text operations
  of \<open>JsonEdit\<close> implement them: a text that stands for a value is turned into a text
  that stands for the edited value, for every library that keeps the laws of
  \<open>json_edit_lib\<close>. The value-level operations have no text, no library and no swallowed
  errors, so the properties of the enrichment pipeline are stated about them.
\<close>

named_theorems edit_simps \<open>definitions of the edits on values\<close>

section \<open>The edits on values\<close>

text \<open>
  The Go code packs and unpacks freely: a string that is itself JSON text is read as the
  value it spells.
\<close>

definition unpack_node :: "json \<Rightarrow> json" where
  "unpack_node w =
     (case w of JStr s \<Rightarrow> (case json_Unmarshal s of Some u \<Rightarrow> u | None \<Rightarrow> JStr s) | _ \<Rightarrow> w)"

definition node_transform :: "(json \<Rightarrow> json option) \<Rightarrow> string list \<Rightarrow> json \<Rightarrow> json" where
  "node_transform f ks v =
     (case jget ks v of
        None \<Rightarrow> v
      | Some w \<Rightarrow> if w = JNull then v
                  else (case f (unpack_node w) of None \<Rightarrow> v | Some w' \<Rightarrow> jset ks w' v))"

definition items_fn :: "(json \<Rightarrow> json) \<Rightarrow> json \<Rightarrow> json option" where
  "items_fn h u = (case u of JArr vs \<Rightarrow> Some (JArr (map h vs)) | _ \<Rightarrow> None)"

text \<open>The two halves of a complex path.\<close>

definition split_path :: "string \<Rightarrow> (string \<times> string) option" where
  "split_path p =
     (case strings_Split p ''[*]'' of [a, b] \<Rightarrow> Some (a, strings_Trim b ''.'') | _ \<Rightarrow> None)"

definition path_transform :: "(json \<Rightarrow> json option) \<Rightarrow> string \<Rightarrow> json \<Rightarrow> json" where
  "path_transform f p v =
     (if isComplexPath p then
        (case split_path p of
           None \<Rightarrow> v
         | Some (a, b) \<Rightarrow> node_transform (items_fn (node_transform f (segs b))) (segs a) v)
      else node_transform f (segs p) v)"

definition tree_transform :: "(json \<Rightarrow> json option) \<Rightarrow> string list \<Rightarrow> json \<Rightarrow> json" where
  "tree_transform f ps v = foldl (\<lambda>v p. path_transform f p v) v ps"

definition path_delete :: "string \<Rightarrow> json \<Rightarrow> json" where
  "path_delete p v =
     (if isComplexPath p then
        (case split_path p of
           None \<Rightarrow> v
         | Some (a, b) \<Rightarrow> node_transform (items_fn (jdel (segs b))) (segs a) v)
      else jdel (segs p) v)"

definition tree_delete :: "string list \<Rightarrow> json \<Rightarrow> json" where
  "tree_delete ps v = foldl (\<lambda>v p. path_delete p v) v ps"

text \<open>A null read back by \<^verbatim>\<open>Rename\<close> is the empty string.\<close>

definition reread_node :: "json \<Rightarrow> json" where
  "reread_node w = (if w = JNull then JStr [] else unpack_node w)"

definition node_rename :: "string list \<Rightarrow> string list \<Rightarrow> json \<Rightarrow> json" where
  "node_rename ks ls v =
     (case jget ks v of None \<Rightarrow> v | Some w \<Rightarrow> jdel ks (jset ls (reread_node w) v))"

text \<open>None: the type assertion on the parent panics.\<close>

definition items_rename :: "string list \<Rightarrow> string list \<Rightarrow> string list \<Rightarrow> json \<Rightarrow> json option" where
  "items_rename as ks ls v =
     (case jget as v of
        None \<Rightarrow> Some v
      | Some w \<Rightarrow>
          (case w of
             JNull \<Rightarrow> Some v
           | JStr s \<Rightarrow>
               (case json_Unmarshal s of
                  None \<Rightarrow> Some v
                | Some u \<Rightarrow> map_option (\<lambda>i. jset as i v) (items_fn (node_rename ks ls) u))
           | _ \<Rightarrow> map_option (\<lambda>i. jset as i v) (items_fn (node_rename ks ls) w)))"

definition path_rename :: "string \<times> string \<Rightarrow> json \<Rightarrow> json option" where
  "path_rename sd v =
     (if isComplexPath (fst sd) then
        (case (split_path (fst sd), split_path (snd sd)) of
           (Some (a, b), Some (a', b')) \<Rightarrow>
             if a = a' then items_rename (segs a) (segs b) (segs b') v else Some v
         | _ \<Rightarrow> Some v)
      else Some (node_rename (segs (fst sd)) (segs (snd sd)) v))"

fun tree_rename :: "(string \<times> string) list \<Rightarrow> json \<Rightarrow> json option" where
  "tree_rename [] v = Some v"
| "tree_rename (sd # sds) v = (case path_rename sd v of None \<Rightarrow> None | Some v' \<Rightarrow> tree_rename sds v')"

section \<open>Paths and values the laws cover\<close>

text \<open>
  \<open>edit_path\<close>: a plain path, or two plain paths around one \<^verbatim>\<open>[*]\<close>. A value is in reach
  of an edit when no string stands where the libraries would look for a member; gjson
  and sjson would search the text of such a string for braces.
\<close>

definition edit_path :: "string \<Rightarrow> bool" where
  "edit_path p =
     (if isComplexPath p
      then (case split_path p of Some (a, b) \<Rightarrow> plain_path a \<and> plain_path b | None \<Rightarrow> False)
      else plain_path p)"

definition items_at :: "string list \<Rightarrow> json \<Rightarrow> json list" where
  "items_at ks v =
     (case jget ks v of
        None \<Rightarrow> []
      | Some w \<Rightarrow> (case unpack_node w of JArr vs \<Rightarrow> vs | _ \<Rightarrow> []))"

definition transform_reach :: "string \<Rightarrow> json \<Rightarrow> bool" where
  "transform_reach p v =
     (isComplexPath p \<longrightarrow>
       (case split_path p of Some (a, b) \<Rightarrow> \<forall>x\<in>set (items_at (segs a) v). \<not> is_JStr x | None \<Rightarrow> True))"

definition delete_reach :: "string \<Rightarrow> json \<Rightarrow> bool" where
  "delete_reach p v =
     (if isComplexPath p then
        (case split_path p of
           Some (a, b) \<Rightarrow> \<forall>x\<in>set (items_at (segs a) v). clear_path (segs b) x
         | None \<Rightarrow> True)
      else clear_path (segs p) v)"

text \<open>\<open>run_reach step reach ps v\<close>: every edit of the list is in reach when its turn comes.\<close>

fun run_reach :: "('p \<Rightarrow> json \<Rightarrow> json option) \<Rightarrow> ('p \<Rightarrow> json \<Rightarrow> bool) \<Rightarrow> 'p list \<Rightarrow> json \<Rightarrow> bool" where
  "run_reach step reach [] v = True"
| "run_reach step reach (p # ps) v =
     (reach p v \<and> (case step p v of None \<Rightarrow> True | Some v' \<Rightarrow> run_reach step reach ps v'))"

text \<open>The source and the target of a renaming are siblings.\<close>

definition rename_path :: "string \<times> string \<Rightarrow> bool" where
  "rename_path sd =
     (edit_path (fst sd) \<and> edit_path (snd sd) \<and>
      (if isComplexPath (fst sd)
       then (case (split_path (fst sd), split_path (snd sd)) of
               (Some (a, b), Some (a', b')) \<Rightarrow> isComplexPath (snd sd) \<and> butlast (segs b) = butlast (segs b')
             | _ \<Rightarrow> False)
       else \<not> isComplexPath (snd sd) \<and> butlast (segs (fst sd)) = butlast (segs (snd sd))))"

definition fn_ok :: "(json \<Rightarrow> json option) \<Rightarrow> bool" where
  "fn_ok f = (\<forall>u w. jwf u \<longrightarrow> f u = Some w \<longrightarrow> jwf w)"

section \<open>Well-formed results\<close>

lemma unpack_node_jwf: "jwf w \<Longrightarrow> jwf (unpack_node w)"
  by (auto simp: unpack_node_def json_Unmarshal_jwf simp del: jwf_simps(6) split: json.split option.split)

lemma plain_segs_utf8: "plain_path p \<Longrightarrow> \<forall>k\<in>set (segs p). valid_utf8 k"
  using plain_segs by blast

lemma node_transform_jwf:
  "jwf v \<Longrightarrow> fn_ok f \<Longrightarrow> \<forall>k\<in>set ks. valid_utf8 k \<Longrightarrow> jwf (node_transform f ks v)"
proof (cases "jget ks v")
  case (Some w)
  assume a: "jwf v" "fn_ok f" "\<forall>k\<in>set ks. valid_utf8 k"
  have "jwf (unpack_node w)" by (rule unpack_node_jwf [OF jget_jwf [OF a(1) Some]])
  then have "f (unpack_node w) = Some w' \<Longrightarrow> jwf w'" for w' using a(2) by (simp add: fn_ok_def)
  then show ?thesis
    using a jset_jwf [OF a(1) _ a(3)] Some by (auto simp: node_transform_def split: option.split)
qed (simp add: node_transform_def)

lemma items_fn_ok: "(\<And>x. jwf x \<Longrightarrow> jwf (h x)) \<Longrightarrow> fn_ok (items_fn h)"
  by (auto simp: fn_ok_def items_fn_def split: json.splits)

lemma node_rename_jwf:
  assumes "jwf v" "\<forall>k\<in>set ks. valid_utf8 k" "\<forall>k\<in>set ls. valid_utf8 k"
  shows "jwf (node_rename ks ls v)"
proof (cases "jget ks v")
  case (Some w)
  have "jwf (reread_node w)"
    using unpack_node_jwf [OF jget_jwf [OF assms(1) Some]] by (simp add: reread_node_def)
  then show ?thesis
    using Some assms by (simp add: node_rename_def jdel_jwf jset_jwf)
qed (simp add: node_rename_def assms(1))

lemma is_JStr_node_transform: "ks \<noteq> [] \<Longrightarrow> is_JStr (node_transform f ks v) = is_JStr v"
  by (auto simp: node_transform_def is_JStr_jset split: option.split)

lemma split_path_simps:
  "split_path p = Some (a, b) \<longleftrightarrow> (\<exists>r. strings_Split p ''[*]'' = [a, r] \<and> b = strings_Trim r ''.'')"
  by (auto simp: split_path_def split: list.splits)

lemma split_path_not_complex:
  "split_path p = Some (a, b) \<Longrightarrow> \<not> isComplexPath a \<and> \<not> isComplexPath b"
  by (auto simp: split_path_simps dest: Split_two)

lemma is_JStr_path_transform: "is_JStr (path_transform f p v) = is_JStr v"
  by (auto simp: path_transform_def is_JStr_node_transform split: option.split)

lemma is_JStr_path_delete: "is_JStr (path_delete p v) = is_JStr v"
  by (auto simp: path_delete_def is_JStr_node_transform is_JStr_jdel split: option.split)

section \<open>Refinement\<close>

lemma transform_items_map:
  assumes "\<forall>x\<in>set vs. jwf x \<and> g (jprint x) = Some (h x)"
  shows "transform_items g vs = Some (map h vs)"
  using assms by (induction vs) (simp_all add: Marshal_jwf)

lemma delete_items_map:
  assumes "\<forall>x\<in>set vs. jwf x \<and> (\<exists>d. sdel L (jprint x) c = Some d \<and> json_Unmarshal d = Some (h x))"
  shows "delete_items L c vs = Some (map h vs)"
  using assms by (induction vs) (auto simp: Marshal_jwf)

lemma rename_items_map:
  assumes "\<forall>x\<in>set vs. jwf x \<and> (\<exists>d. g (jprint x) = Return (d, None) \<and> json_Unmarshal d = Some (h x))"
  shows "rename_items g raw vs = Return (map h vs)"
  using assms by (induction vs) (auto simp: Marshal_jwf)

lemma transform_path_nil:
  "gget L d p = Some \<lparr> gr_nil = True, gr_string = s \<rparr> \<Longrightarrow>
     transform_path L f err d p =
       (if err then (d, True) else (case sset L d p JNull of None \<Rightarrow> (d, False) | Some d' \<Rightarrow> (d', False)))"
  by (simp add: transform_path_def split: option.split)

lemma transform_path_some:
  "gget L d p = Some \<lparr> gr_nil = False, gr_string = s \<rparr> \<Longrightarrow>
     (case json_Unmarshal s of Some u \<Rightarrow> u | None \<Rightarrow> JStr s) = u \<Longrightarrow>
     transform_path L f err d p =
       (case f u of
          None \<Rightarrow> (d, True)
        | Some w \<Rightarrow> (case sset L d p w of None \<Rightarrow> (d, False) | Some d' \<Rightarrow> (d', False)))"
  by (auto simp: transform_path_def split: option.splits)

context json_edit_lib
begin

lemma get_unpacked:
  assumes "reps L d v" "\<not> is_JStr v" "plain_path p" "jget (segs p) v = Some w"
  obtains s where "gget L d p = Some \<lparr> gr_nil = (w = JNull), gr_string = s \<rparr>"
    "string_of w s"
    "w \<noteq> JNull \<Longrightarrow> (case json_Unmarshal s of Some u \<Rightarrow> u | None \<Rightarrow> JStr s) = unpack_node w"
proof -
  obtain s where s: "gget L d p = Some \<lparr> gr_nil = (w = JNull), gr_string = s \<rparr>" "string_of w s"
    using get_present [OF assms] by blast
  moreover have "(case json_Unmarshal s of Some u \<Rightarrow> u | None \<Rightarrow> JStr s) = unpack_node w" if "w \<noteq> JNull"
    using s(2) that by (cases w) (simp_all add: string_of_def unpack_node_def)
  ultimately show thesis by (rule that)
qed

lemma transform_path_refines:
  assumes r: "reps L d v" and v: "\<not> is_JStr v" and p: "plain_path p" and f': "fn_ok f'"
    and agree: "\<And>w. jget (segs p) v = Some w \<Longrightarrow> w \<noteq> JNull \<Longrightarrow> f (unpack_node w) = f' (unpack_node w)"
  shows "reps L (fst (transform_path L f err d p)) (node_transform f' (segs p) v)"
proof (cases "jget (segs p) v")
  case None
  then show ?thesis
    using r get_absent [OF r v p] by (simp add: transform_path_def node_transform_def)
next
  case (Some w)
  have wf: "jwf w" by (rule jget_jwf [OF reps_jwf [OF r] Some])
  have set: "settable (segs p) v" by (rule jget_settable [OF Some]) simp
  obtain s where s: "gget L d p = Some \<lparr> gr_nil = (w = JNull), gr_string = s \<rparr>"
    "w \<noteq> JNull \<Longrightarrow> (case json_Unmarshal s of Some u \<Rightarrow> u | None \<Rightarrow> JStr s) = unpack_node w"
    using get_unpacked [OF r v p Some] by metis
  show ?thesis
  proof (cases "w = JNull")
    case True
    obtain d' where d': "sset L d p JNull = Some d'" "reps L d' (jset (segs p) JNull v)"
      using set_reps [OF r p set, of JNull] by auto
    moreover have "jset (segs p) JNull v = v"
      using jset_same [OF reps_jwf [OF r]] Some True by simp
    ultimately show ?thesis
      using True Some s(1) r by (simp add: transform_path_nil node_transform_def)
  next
    case False
    have fu: "f (unpack_node w) = f' (unpack_node w)" by (rule agree [OF Some False])
    show ?thesis
    proof (cases "f' (unpack_node w)")
      case None
      then show ?thesis
        using False \<open>jget (segs p) v = Some w\<close> s fu r
        by (simp add: transform_path_some [OF _ s(2) [OF False]] node_transform_def)
    next
      case (Some w')
      have "jwf w'" using f' unpack_node_jwf [OF wf] Some by (auto simp: fn_ok_def)
      then obtain d' where d': "sset L d p w' = Some d'" "reps L d' (jset (segs p) w' v)"
        using set_reps [OF r p set] by blast
      then show ?thesis
        using False \<open>jget (segs p) v = Some w\<close> s fu Some
        by (simp add: transform_path_some [OF _ s(2) [OF False]] node_transform_def)
    qed
  qed
qed

lemma transform_loop_one:
  "\<not> isComplexPath p \<Longrightarrow> transform_loop L f err d [p] = fst (transform_path L f err d p)"
  by (simp split: prod.split)

lemma reps_result: "reps L d v \<Longrightarrow> json_Unmarshal d = Some v"
  by (rule reps_Unmarshal)

lemma transform_child:
  assumes "jwf x" "\<not> is_JStr x" "plain_path b" "\<not> isComplexPath b" "fn_ok f"
  shows "json_Unmarshal (transform_loop L f False (jprint x) [b]) = Some (node_transform f (segs b) x)"
  unfolding transform_loop_one [OF assms(4)]
  by (rule reps_result, rule transform_path_refines [OF reps_jprint [OF assms(1)] assms(2,3,5)]) simp

lemma transformFromComplexPath_refines:
  assumes r: "reps L d v" and v: "\<not> is_JStr v" and sp: "split_path p = Some (a, b)"
    and pl: "plain_path a" "plain_path b" and f: "fn_ok f"
    and safe: "\<forall>x\<in>set (items_at (segs a) v). \<not> is_JStr x"
  shows "reps L (transformFromComplexPath L f d p)
           (node_transform (items_fn (node_transform f (segs b))) (segs a) v)"
proof -
  obtain rest where rest: "strings_Split p ''[*]'' = [a, rest]" "b = strings_Trim rest ''.''"
    using sp by (auto simp: split_path_simps)
  have nc: "\<not> isComplexPath a" "\<not> isComplexPath b" using split_path_not_complex [OF sp] by simp_all
  let ?F = "\<lambda>unpacked. case unpacked of JArr parentList \<Rightarrow>
      map_option JArr (transform_items (\<lambda>x. json_Unmarshal (transform_loop L f False x [b])) parentList)
    | _ \<Rightarrow> None"
  have ok: "fn_ok (items_fn (node_transform f (segs b)))"
    by (rule items_fn_ok) (rule node_transform_jwf [OF _ f plain_segs_utf8 [OF pl(2)]])
  have "reps L (fst (transform_path L ?F False d a))
      (node_transform (items_fn (node_transform f (segs b))) (segs a) v)"
  proof (rule transform_path_refines [OF r v pl(1) ok])
    fix w assume w: "jget (segs a) v = Some w" "w \<noteq> JNull"
    have wf: "jwf (unpack_node w)" by (rule unpack_node_jwf [OF jget_jwf [OF reps_jwf [OF r] w(1)]])
    show "?F (unpack_node w) = items_fn (node_transform f (segs b)) (unpack_node w)"
    proof (cases "unpack_node w")
      case (JArr vs)
      then have "\<forall>x\<in>set vs. jwf x \<and>
          json_Unmarshal (transform_loop L f False (jprint x) [b]) = Some (node_transform f (segs b) x)"
        using safe w(1) wf transform_child [OF _ _ pl(2) nc(2) f] by (simp add: items_at_def)
      then have "transform_items (\<lambda>x. json_Unmarshal (transform_loop L f False x [b])) vs =
          Some (map (node_transform f (segs b)) vs)"
        by (rule transform_items_map)
      with JArr show ?thesis by (simp add: items_fn_def)
    qed (simp_all add: items_fn_def)
  qed
  then show ?thesis
    unfolding transformFromComplexPath.simps rest(1) list.case transform_loop_one [OF nc(1)] rest(2) .
qed

lemma transform_loop_refines:
  assumes "reps L d v" "\<not> is_JStr v" "fn_ok f" "list_all edit_path ps"
    "run_reach (\<lambda>p v. Some (path_transform f p v)) transform_reach ps v"
  shows "reps L (transform_loop L f err d ps) (tree_transform f ps v)"
  using assms
proof (induction ps arbitrary: d v err)
  case Nil
  then show ?case by (simp add: tree_transform_def)
next
  case (Cons p ps)
  define v' where "v' = path_transform f p v"
  have step: "reps L (if isComplexPath p then transformFromComplexPath L f d p
      else fst (transform_path L f err d p)) v'"
  proof (cases "isComplexPath p")
    case True
    then obtain a b where ab: "split_path p = Some (a, b)" "plain_path a" "plain_path b"
      using Cons.prems(4) by (auto simp: edit_path_def split: option.splits)
    have "\<forall>x\<in>set (items_at (segs a) v). \<not> is_JStr x"
      using Cons.prems(5) True ab(1) by (simp add: transform_reach_def)
    then have "reps L (transformFromComplexPath L f d p)
        (node_transform (items_fn (node_transform f (segs b))) (segs a) v)"
      by (rule transformFromComplexPath_refines [OF Cons.prems(1,2) ab Cons.prems(3)])
    with True ab(1) show ?thesis by (simp add: v'_def path_transform_def)
  next
    case False
    then have "plain_path p" using Cons.prems(4) by (simp add: edit_path_def)
    then have "reps L (fst (transform_path L f err d p)) (node_transform f (segs p) v)"
      by (rule transform_path_refines [OF Cons.prems(1,2) _ Cons.prems(3)]) simp
    with False show ?thesis by (simp add: v'_def path_transform_def)
  qed
  have rest: "reps L (transform_loop L f e d' ps) (tree_transform f ps v')" if "reps L d' v'" for e d'
    using that Cons.prems by (intro Cons.IH) (simp_all add: v'_def is_JStr_path_transform)
  have "tree_transform f (p # ps) v = tree_transform f ps v'"
    by (simp add: tree_transform_def v'_def)
  moreover obtain d' e where "transform_path L f err d p = (d', e)" by fastforce
  ultimately show ?case using rest step by (cases "isComplexPath p") simp_all
qed

lemma deleteFromComplexPath_refines:
  assumes r: "reps L d v" and v: "\<not> is_JStr v" and sp: "split_path p = Some (a, b)"
    and pl: "plain_path a" "plain_path b"
    and safe: "\<forall>x\<in>set (items_at (segs a) v). clear_path (segs b) x"
  shows "snd (deleteFromComplexPath L d p) = None \<and>
    reps L (fst (deleteFromComplexPath L d p)) (node_transform (items_fn (jdel (segs b))) (segs a) v)"
proof -
  obtain rest where rest: "strings_Split p ''[*]'' = [a, rest]" "b = strings_Trim rest ''.''"
    using sp by (auto simp: split_path_simps)
  have nc: "\<not> isComplexPath a" using split_path_not_complex [OF sp] by simp
  let ?F = "\<lambda>unpacked. case unpacked of JArr parentList \<Rightarrow>
      map_option JArr (delete_items L b parentList) | _ \<Rightarrow> None"
  have ok: "fn_ok (items_fn (jdel (segs b)))"
    by (rule items_fn_ok) (rule jdel_jwf [OF _ plain_segs_utf8 [OF pl(2)]])
  have "reps L (fst (transform_path L ?F False d a)) (node_transform (items_fn (jdel (segs b))) (segs a) v)"
  proof (rule transform_path_refines [OF r v pl(1) ok])
    fix w assume w: "jget (segs a) v = Some w" "w \<noteq> JNull"
    have wf: "jwf (unpack_node w)" by (rule unpack_node_jwf [OF jget_jwf [OF reps_jwf [OF r] w(1)]])
    show "?F (unpack_node w) = items_fn (jdel (segs b)) (unpack_node w)"
    proof (cases "unpack_node w")
      case (JArr vs)
      have "jwf x \<and> (\<exists>d. sdel L (jprint x) b = Some d \<and> json_Unmarshal d = Some (jdel (segs b) x))"
        if x: "x \<in> set vs" for x
      proof -
        have xx: "jwf x" "clear_path (segs b) x" using x safe w(1) wf JArr by (simp_all add: items_at_def)
        obtain d' where "sdel L (jprint x) b = Some d'" "reps L d' (jdel (segs b) x)"
          by (rule del_reps [OF reps_jprint [OF xx(1)] pl(2) xx(2)])
        then show ?thesis using xx(1) reps_result by blast
      qed
      then have "delete_items L b vs = Some (map (jdel (segs b)) vs)"
        by (intro delete_items_map) blast
      with JArr show ?thesis by (simp add: items_fn_def)
    qed (simp_all add: items_fn_def)
  qed
  then show ?thesis
    unfolding deleteFromComplexPath_def rest(1) list.case Transform_def transform_loop_one [OF nc] rest(2)
    by simp
qed

lemma Delete_refines:
  assumes "reps L d v" "\<not> is_JStr v" "list_all edit_path ps"
    "run_reach (\<lambda>p v. Some (path_delete p v)) delete_reach ps v"
  shows "snd (Delete L d ps) = None \<and> reps L (fst (Delete L d ps)) (tree_delete ps v)"
  using assms
proof (induction ps arbitrary: d v)
  case Nil
  then show ?case by (simp add: tree_delete_def)
next
  case (Cons p ps)
  define v' where "v' = path_delete p v"
  have eq: "tree_delete (p # ps) v = tree_delete ps v'" by (simp add: tree_delete_def v'_def)
  have rest: "snd (Delete L d' ps) = None \<and> reps L (fst (Delete L d' ps)) (tree_delete ps v')"
    if "reps L d' v'" for d'
    using that Cons.prems by (intro Cons.IH) (simp_all add: v'_def is_JStr_path_delete)
  show ?case
  proof (cases "isComplexPath p")
    case True
    then obtain a b where ab: "split_path p = Some (a, b)" "plain_path a" "plain_path b"
      using Cons.prems(3) by (auto simp: edit_path_def split: option.splits)
    have "\<forall>x\<in>set (items_at (segs a) v). clear_path (segs b) x"
      using Cons.prems(4) True ab(1) by (simp add: delete_reach_def)
    note step = deleteFromComplexPath_refines [OF Cons.prems(1,2) ab this]
    obtain d' e where de: "deleteFromComplexPath L d p = (d', e)" by fastforce
    have "v' = node_transform (items_fn (jdel (segs b))) (segs a) v"
      using True ab(1) by (simp add: v'_def path_delete_def)
    then show ?thesis using step rest [of d'] True de eq by simp
  next
    case False
    then have p: "plain_path p" "clear_path (segs p) v" "v' = jdel (segs p) v"
      using Cons.prems(3,4) by (simp_all add: edit_path_def delete_reach_def v'_def path_delete_def)
    obtain d' where "sdel L d p = Some d'" "reps L d' (jdel (segs p) v)"
      by (rule del_reps [OF Cons.prems(1) p(1,2)])
    then show ?thesis using rest [of d'] False p(3) eq by simp
  qed
qed

lemma json_Unmarshal_Nil: "json_Unmarshal [] = None"
  by (simp add: json_Unmarshal_def json_parse_def parse_value.simps skip_ws_def)

lemma settable_sibling: "butlast ks = butlast ls \<Longrightarrow> ks \<noteq> [] \<Longrightarrow> ls \<noteq> [] \<Longrightarrow> settable ks v = settable ls v"
  by (simp add: settable_def)

text \<open>One renaming along plain paths.\<close>

lemma rename_plain_refines:
  assumes r: "reps L d v" and v: "\<not> is_JStr v" and pl: "plain_path p" "plain_path q"
    and nc: "\<not> isComplexPath p" and sib: "butlast (segs p) = butlast (segs q)"
  obtains d' where "\<forall>ps. rename_loop L d ((p, q) # ps) = rename_loop L d' ps"
    "reps L d' (node_rename (segs p) (segs q) v)"
proof (cases "jget (segs p) v")
  case None
  with get_absent [OF r v pl(1)] r nc show thesis
    by (intro that [of d]) (simp_all add: rename_loop.simps node_rename_def)
next
  case (Some w)
  have wf: "jwf v" by (rule reps_jwf [OF r])
  have sq: "settable (segs q) v"
    using jget_settable [OF Some] settable_sibling [OF sib] by simp
  obtain s where s: "gget L d p = Some \<lparr> gr_nil = (w = JNull), gr_string = s \<rparr>" "string_of w s"
    "w \<noteq> JNull \<Longrightarrow> (case json_Unmarshal s of Some u \<Rightarrow> u | None \<Rightarrow> JStr s) = unpack_node w"
    using get_unpacked [OF r v pl(1) Some] by metis
  have item: "(case json_Unmarshal s of Some u \<Rightarrow> u | None \<Rightarrow> JStr s) = reread_node w"
    using s(2,3) by (cases "w = JNull") (simp_all add: reread_node_def string_of_def json_Unmarshal_Nil)
  have "jwf (reread_node w)"
    using unpack_node_jwf [OF jget_jwf [OF wf Some]] by (simp add: reread_node_def)
  then obtain d1 where d1: "sset L d q (reread_node w) = Some d1" "reps L d1 (jset (segs q) (reread_node w) v)"
    using set_reps [OF r pl(2) sq] by blast
  have "settable (segs q) (jset (segs q) (reread_node w) v)"
    using jget_settable [OF jget_jset_same [OF wf sq]] by simp
  then have "clear_path (segs p) (jset (segs q) (reread_node w) v)"
    using settable_sibling [OF sib] by (intro settable_clear) simp
  then obtain d2 where d2: "sdel L d1 p = Some d2"
    "reps L d2 (jdel (segs p) (jset (segs q) (reread_node w) v))"
    by (rule del_reps [OF d1(2) pl(1)])
  show thesis
  proof (rule that [of d2])
    show "\<forall>ps. rename_loop L d ((p, q) # ps) = rename_loop L d2 ps"
    proof -
      obtain res where res: "gget L d p = Some res" "gr_string res = s" using s(1) by simp
      have "(case json_Unmarshal (gr_string res) of Some u \<Rightarrow> u | None \<Rightarrow> JStr (gr_string res)) = reread_node w"
        by (rule item [folded res(2)])
      then show ?thesis using nc d1(1) d2(1) by (simp add: rename_loop.simps res(1))
    qed
    show "reps L d2 (node_rename (segs p) (segs q) v)"
      using d2(2) Some by (simp add: node_rename_def)
  qed
qed

text \<open>One renaming inside the items of a list.\<close>

lemma rename_child:
  assumes "jwf x" "\<not> is_JStr x" "plain_path b" "plain_path b'" "\<not> isComplexPath b"
    "butlast (segs b) = butlast (segs b')"
  shows "\<exists>d. rename_loop L (jprint x) [(b, b')] = Return (d, None) \<and>
    json_Unmarshal d = Some (node_rename (segs b) (segs b') x)"
proof -
  obtain d' where "\<forall>ps. rename_loop L (jprint x) ((b, b') # ps) = rename_loop L d' ps"
    "reps L d' (node_rename (segs b) (segs b') x)"
    by (rule rename_plain_refines [OF reps_jprint [OF assms(1)] assms(2-6)])
  then show ?thesis by (simp add: reps_result)
qed

lemma rename_loop_complex:
  assumes "strings_Split p ''[*]'' = [a, r]" "strings_Split q ''[*]'' = [a, r']" "isComplexPath p"
    "gget L d a = Some res"
  shows "rename_loop L d ((p, q) # ps) =
    (case json_Unmarshal (gr_string res) of
       None \<Rightarrow> rename_loop L d ps
     | Some (JArr vs) \<Rightarrow>
         go_bind (rename_items (\<lambda>b. rename_loop L b [(strings_Trim r ''.'', strings_Trim r' ''.'')])
             (gr_string res) vs)
           (\<lambda>items. case sset L d a (JArr items) of
              None \<Rightarrow> rename_loop L d ps
            | Some d' \<Rightarrow> rename_loop L d' ps)
     | Some _ \<Rightarrow> Panic)"
  using assms by (simp add: rename_loop.simps(2) [of L d p q ps])

definition renames_to :: "string \<Rightarrow> (string \<times> string) \<Rightarrow> json option \<Rightarrow> bool" where
  "renames_to d sd r =
     (case r of
        None \<Rightarrow> (\<forall>ps. rename_loop L d (sd # ps) = Panic)
      | Some v' \<Rightarrow> (\<exists>d'. (\<forall>ps. rename_loop L d (sd # ps) = rename_loop L d' ps) \<and> reps L d' v'))"

lemma rename_list:
  assumes r: "reps L d v" and pl: "plain_path a" "plain_path b" "plain_path b'"
    and p: "strings_Split p ''[*]'' = [a, x]" "b = strings_Trim x ''.''" "\<not> isComplexPath b" "isComplexPath p"
    and q: "strings_Split q ''[*]'' = [a, x']" "b' = strings_Trim x' ''.''"
    and sib: "butlast (segs b) = butlast (segs b')"
    and w: "jget (segs a) v = Some w" "gget L d a = Some res"
    and vs: "json_Unmarshal (gr_string res) = Some (JArr vs)" "\<forall>x\<in>set vs. jwf x \<and> \<not> is_JStr x"
  shows "renames_to d (p, q) (Some (jset (segs a) (JArr (map (node_rename (segs b) (segs b')) vs)) v))"
proof -
  let ?is = "map (node_rename (segs b) (segs b')) vs"
  have "jwf (JArr ?is)"
    using vs(2) by (auto intro!: node_rename_jwf simp: plain_segs_utf8 [OF pl(2)] plain_segs_utf8 [OF pl(3)])
  moreover have "settable (segs a) v" by (rule jget_settable [OF w(1)]) simp
  ultimately obtain d' where d': "sset L d a (JArr ?is) = Some d'" "reps L d' (jset (segs a) (JArr ?is) v)"
    using set_reps [OF r pl(1)] by blast
  have "rename_items (\<lambda>c. rename_loop L c [(b, b')]) (gr_string res) vs = Return ?is"
    by (rule rename_items_map) (use vs(2) rename_child [OF _ _ pl(2,3) p(3) sib] in blast)
  then show ?thesis
    using d' vs(1) rename_loop_complex [OF p(1) q(1) p(4) w(2)] p(2) q(2) by (auto simp: renames_to_def)
qed

lemma path_rename_refines:
  assumes r: "reps L d v" and v: "\<not> is_JStr v" and ok: "rename_path (p, q)" and safe: "transform_reach p v"
  shows "renames_to d (p, q) (path_rename (p, q) v)"
proof (cases "isComplexPath p")
  case False
  then have pl: "plain_path p" "plain_path q" "butlast (segs p) = butlast (segs q)"
    using ok by (simp_all add: rename_path_def edit_path_def)
  obtain d' where "\<forall>ps. rename_loop L d ((p, q) # ps) = rename_loop L d' ps"
    "reps L d' (node_rename (segs p) (segs q) v)"
    by (rule rename_plain_refines [OF r v pl(1,2) False pl(3)])
  then show ?thesis using False by (auto simp: path_rename_def renames_to_def)
next
  case True
  then obtain a b a' b' where sp: "split_path p = Some (a, b)" "split_path q = Some (a', b')"
    and pl: "plain_path a" "plain_path b" "plain_path b'" and sib: "butlast (segs b) = butlast (segs b')"
    using ok by (auto simp: rename_path_def edit_path_def split: option.splits prod.splits if_splits)
  obtain x x' where p: "strings_Split p ''[*]'' = [a, x]" "b = strings_Trim x ''.''"
    and q: "strings_Split q ''[*]'' = [a', x']" "b' = strings_Trim x' ''.''"
    using sp by (auto simp: split_path_simps)
  have nb: "\<not> isComplexPath b" using split_path_not_complex [OF sp(1)] by simp
  have items: "\<forall>y\<in>set (items_at (segs a) v). \<not> is_JStr y"
    using safe True sp(1) by (simp add: transform_reach_def)
  have skip: "renames_to d (p, q) (Some v)" if "\<forall>ps. rename_loop L d ((p, q) # ps) = rename_loop L d ps"
    using that r by (auto simp: renames_to_def)
  show ?thesis
  proof (cases "a = a'")
    case False
    then show ?thesis
      using skip True sp p q by (simp add: path_rename_def rename_loop.simps)
  next
    case eq: True
    show ?thesis
    proof (cases "jget (segs a) v")
      case None
      then have "gget L d a = None" by (rule get_absent [OF r v pl(1)])
      then show ?thesis
        using None skip True sp p q eq by (simp add: path_rename_def items_rename_def rename_loop.simps)
    next
      case (Some w)
      obtain res where val: "gget L d a = Some res" "string_of w (gr_string res)"
        using get_present [OF r v pl(1) Some] by auto
      note rl = rename_loop_complex [OF p(1) q(1) [folded eq] True val(1)]
      have wf: "jwf w" by (rule jget_jwf [OF reps_jwf [OF r] Some])
      have pr: "path_rename (p, q) v = items_rename (segs a) (segs b) (segs b') v"
        using True sp eq by (simp add: path_rename_def)
      have list: "renames_to d (p, q) (Some (jset (segs a) (JArr (map (node_rename (segs b) (segs b')) vs)) v))"
        if "json_Unmarshal (gr_string res) = Some (JArr vs)" "unpack_node w = JArr vs" for vs
      proof (rule rename_list [OF r pl p nb True q(1) [folded eq] q(2) sib Some val(1) that(1)])
        show "\<forall>x\<in>set vs. jwf x \<and> \<not> is_JStr x"
          using items that(2) Some unpack_node_jwf [OF wf] by (simp add: items_at_def)
      qed
      have panic: "renames_to d (p, q) None"
        if "json_Unmarshal (gr_string res) = Some u" "\<forall>vs. u \<noteq> JArr vs" for u
        using that rl by (cases u) (simp_all add: renames_to_def)
      show ?thesis
      proof (cases w)
        case JNull
        then show ?thesis
          using val(2) rl skip pr Some by (simp add: string_of_def json_Unmarshal_Nil items_rename_def)
      next
        case (JStr s)
        then have g: "gr_string res = s" using val(2) by (simp add: string_of_def)
        show ?thesis
        proof (cases "json_Unmarshal s")
          case None
          then show ?thesis using JStr g rl skip pr Some by (simp add: items_rename_def)
        next
          case u: (Some u)
          then show ?thesis
            using JStr g list panic pr Some by (cases u) (simp_all add: items_rename_def items_fn_def unpack_node_def)
        qed
      qed (use val(2) list panic pr Some in \<open>auto simp: string_of_def items_rename_def items_fn_def unpack_node_def\<close>)
    qed
  qed
qed

lemma is_JStr_path_rename:
  "rename_path sd \<Longrightarrow> path_rename sd v = Some v' \<Longrightarrow> is_JStr v' = is_JStr v"
  by (auto simp: path_rename_def items_rename_def node_rename_def is_JStr_jset is_JStr_jdel
      split: option.splits if_splits prod.splits json.splits)

lemma rename_loop_refines:
  assumes "reps L d v" "\<not> is_JStr v" "list_all rename_path sds"
    "run_reach path_rename (\<lambda>sd. transform_reach (fst sd)) sds v"
  shows "case tree_rename sds v of
      None \<Rightarrow> rename_loop L d sds = Panic
    | Some v' \<Rightarrow> (\<exists>d'. rename_loop L d sds = Return (d', None) \<and> reps L d' v')"
  using assms
proof (induction sds arbitrary: d v)
  case (Cons sd sds)
  obtain p q where sd: "sd = (p, q)" by fastforce
  have step: "renames_to d sd (path_rename sd v)"
    unfolding sd using Cons.prems sd by (intro path_rename_refines) simp_all
  show ?case
  proof (cases "path_rename sd v")
    case None
    then show ?thesis using step by (simp add: renames_to_def)
  next
    case (Some v')
    then obtain d' where d': "\<forall>ps. rename_loop L d (sd # ps) = rename_loop L d' ps" "reps L d' v'"
      using step by (auto simp: renames_to_def)
    have "\<not> is_JStr v'" using is_JStr_path_rename [OF _ Some] Cons.prems(2,3) by simp
    then show ?thesis using Cons.IH [OF d'(2)] Cons.prems(3,4) Some d'(1) by (simp split: option.splits)
  qed
qed simp

end

end
