(* ===== verification/Types.thy ===== *)
theory Types
  imports JsonLib
begin

text \<open>
  Package \<^verbatim>\<open>internal/types\<close> and how \<^verbatim>\<open>encoding/json\<close> reads and writes its structs. A Go
  map that may be nil is an option around a \<open>gomap\<close>. Decoding a struct visits the
  members of the text in order; a member goes to the field with that name, or to the
  field with that name up to case; a null leaves a string or a number alone; a value of
  the wrong type is remembered as an error and decoding goes on. Since every member
  touches one field, the decoder is written field by field.
\<close>

section \<open>Values that are read\<close>

text \<open>A number beyond \<^verbatim>\<open>float64\<close> is an error, and nil takes its place.\<close>

fun soften :: "json \<Rightarrow> json" where
  "soften (JNum x) = (if jfinite (JNum x) then JNum x else JNull)"
| "soften (JArr vs) = JArr (map soften vs)"
| "soften (JObj kvs) = JObj (map (\<lambda>p. (fst p, soften (snd p))) kvs)"
| "soften v = v"

definition decoded :: "json \<Rightarrow> json" where
  "decoded t = canon (soften t)"

lemma map_pair_snd_id: "(\<And>p. p \<in> set kvs \<Longrightarrow> f (snd p) = snd p) \<Longrightarrow> map (\<lambda>p. (fst p, f (snd p))) kvs = kvs"
  by (induction kvs) auto

lemma soften_finite: "jfinite t \<Longrightarrow> soften t = t"
proof (induction t rule: soften.induct)
  case (2 vs)
  then show ?case by (simp add: map_idI)
next
  case (3 kvs)
  then show ?case using map_pair_snd_id [of kvs soften] by simp
qed auto

lemma decoded_finite: "jfinite t \<Longrightarrow> decoded t = canon t"
  by (simp add: decoded_def soften_finite)

text \<open>
  \<^verbatim>\<open>json.Unmarshal(data, &m)\<close> for a map variable that holds \<open>m\<close>: the map afterwards and
  whether there was an error. Members are added to a map that is not nil; a null makes
  it nil.
\<close>

definition decode_map :: "jobject option \<Rightarrow> json \<Rightarrow> jobject option \<times> bool" where
  "decode_map m t =
     (case t of
        JNull \<Rightarrow> (None, False)
      | JObj kvs \<Rightarrow>
          (Some (mfold (map (\<lambda>p. (fst p, decoded (snd p))) kvs) (case m of Some x \<Rightarrow> x | None \<Rightarrow> [])),
           \<not> jfinite t)
      | _ \<Rightarrow> (m, True))"

definition Unmarshal_map :: "jobject option \<Rightarrow> string \<Rightarrow> jobject option \<times> bool" where
  "Unmarshal_map m d =
     (case json_parse d of None \<Rightarrow> (m, True) | Some t \<Rightarrow> decode_map m t)"

section \<open>Fields\<close>

text \<open>
  Names up to case, as \<^verbatim>\<open>encoding/json\<close> compares them: upper case for ASCII letters, and
  the two runes outside ASCII that fold to one (U+017F to S, U+212A to K).
\<close>

definition upper_char :: "char \<Rightarrow> char" where
  "upper_char c = (if 97 \<le> byte c \<and> byte c \<le> 122 then char_of (byte c - 32) else c)"

fun fold_name :: "string \<Rightarrow> string" where
  "fold_name [] = []"
| "fold_name (c # cs) =
     (if byte c = 0xC5 \<and> cs \<noteq> [] \<and> byte (hd cs) = 0xBF then CHR ''S'' # fold_name (tl cs)
      else if byte c = 0xE2 \<and> starts_with [char_of (0x84 :: nat), char_of (0xAA :: nat)] cs
      then CHR ''K'' # fold_name (drop 2 cs)
      else upper_char c # fold_name cs)"

text \<open>The field a member belongs to, given the names of the struct in order.\<close>

definition field_of :: "string list \<Rightarrow> string \<Rightarrow> string option" where
  "field_of names k =
     (if k \<in> set names then Some k else find (\<lambda>n. fold_name n = fold_name k) names)"

definition field_members :: "string list \<Rightarrow> string \<Rightarrow> (string \<times> json) list \<Rightarrow> json list" where
  "field_members names n kvs = map snd (filter (\<lambda>p. field_of names (fst p) = Some n) kvs)"

text \<open>A field with initial value \<open>x\<close>, its members and the decoder of its type.\<close>

definition decode_field :: "('a \<Rightarrow> json \<Rightarrow> 'a \<times> bool) \<Rightarrow> 'a \<Rightarrow> json list \<Rightarrow> 'a \<times> bool" where
  "decode_field dec x vs = foldl (\<lambda>(y, e) v. case dec y v of (y', e') \<Rightarrow> (y', e \<or> e')) (x, False) vs"

definition decode_string :: "string \<Rightarrow> json \<Rightarrow> string \<times> bool" where
  "decode_string s v = (case v of JStr t \<Rightarrow> (t, False) | JNull \<Rightarrow> (s, False) | _ \<Rightarrow> (s, True))"

definition decode_bool :: "bool \<Rightarrow> json \<Rightarrow> bool \<times> bool" where
  "decode_bool b v = (case v of JBool c \<Rightarrow> (c, False) | JNull \<Rightarrow> (b, False) | _ \<Rightarrow> (b, True))"

text \<open>A \<^verbatim>\<open>*string\<close>: null makes it nil; a wrong type leaves a pointer to the zero string.\<close>

definition decode_string_ptr :: "string option \<Rightarrow> json \<Rightarrow> string option \<times> bool" where
  "decode_string_ptr s v =
     (case v of
        JStr t \<Rightarrow> (Some t, False)
      | JNull \<Rightarrow> (None, False)
      | _ \<Rightarrow> (Some (case s of Some t \<Rightarrow> t | None \<Rightarrow> []), True))"

definition decode_any :: "json \<Rightarrow> json \<Rightarrow> json \<times> bool" where
  "decode_any x v =
     (case v of
        JNum y \<Rightarrow> (if jfinite v then (v, False) else (x, True))
      | _ \<Rightarrow> (decoded v, \<not> jfinite v))"

text \<open>
  An \<^verbatim>\<open>int\<close> takes an integer literal of 64 bits. The numbers the program decodes into an
  \<^verbatim>\<open>int\<close> were printed by \<^verbatim>\<open>json.Marshal\<close> from a \<^verbatim>\<open>float64\<close> or an \<^verbatim>\<open>int\<close>, which prints an
  integral value below \<^verbatim>\<open>1e21\<close> as an integer literal.
\<close>

definition decode_int :: "int \<Rightarrow> json \<Rightarrow> int \<times> bool" where
  "decode_int i v =
     (case v of
        JNum x \<Rightarrow>
          (let n = \<lfloor>val64 x\<rfloor> in
           if jfinite v \<and> of_int n = val64 x \<and> - (2 ^ 63) \<le> n \<and> n < 2 ^ 63 then (n, False) else (i, True))
      | JNull \<Rightarrow> (i, False)
      | _ \<Rightarrow> (i, True))"

definition decode_f64 :: "float64 \<Rightarrow> json \<Rightarrow> float64 \<times> bool" where
  "decode_f64 x v =
     (case v of
        JNum y \<Rightarrow> (if jfinite v then (y, False) else (x, True))
      | JNull \<Rightarrow> (x, False)
      | _ \<Rightarrow> (x, True))"

text \<open>A map whose elements are decoded from their zero value, and a slice of maps.\<close>

definition decode_map_of ::
  "('a \<Rightarrow> json \<Rightarrow> 'a \<times> bool) \<Rightarrow> 'a \<Rightarrow> 'a gomap option \<Rightarrow> json \<Rightarrow> 'a gomap option \<times> bool" where
  "decode_map_of dec z m v =
     (case v of
        JNull \<Rightarrow> (None, False)
      | JObj kvs \<Rightarrow>
          (Some (mfold (map (\<lambda>p. (fst p, fst (dec z (snd p)))) kvs) (case m of Some x \<Rightarrow> x | None \<Rightarrow> [])),
           list_ex (\<lambda>p. snd (dec z (snd p))) kvs)
      | _ \<Rightarrow> (m, True))"

text \<open>
  A slice is decoded over the old one: element \<open>i\<close> starts from the old element, as a map
  that is not nil keeps its members.
\<close>

definition decode_maps :: "jobject option list \<Rightarrow> json \<Rightarrow> jobject option list \<times> bool" where
  "decode_maps ms v =
     (case v of
        JNull \<Rightarrow> ([], False)
      | JArr vs \<Rightarrow>
          (let rs = map (\<lambda>i. decode_map (if i < length ms then ms ! i else None) (vs ! i)) [0..<length vs]
           in (map fst rs, list_ex snd rs))
      | _ \<Rightarrow> (ms, True))"

section \<open>Event\<close>

record event =
  ev_name :: string
  ev_payload :: json
  ev_metadata :: "jobject option"

definition zero_event :: event where
  "zero_event = \<lparr> ev_name = [], ev_payload = JNull, ev_metadata = None \<rparr>"

definition event_fields :: "string list" where
  "event_fields = [''name'', ''payload'', ''metadata'']"

definition decode_event :: "event \<Rightarrow> json \<Rightarrow> event \<times> bool" where
  "decode_event e t =
     (case t of
        JNull \<Rightarrow> (e, False)
      | JObj kvs \<Rightarrow>
          let mem = (\<lambda>n. field_members event_fields n kvs);
              (name, e1) = decode_field decode_string (ev_name e) (mem ''name'');
              (payload, e2) = decode_field decode_any (ev_payload e) (mem ''payload'');
              (meta, e3) = decode_field decode_map (ev_metadata e) (mem ''metadata'')
          in (\<lparr> ev_name = name, ev_payload = payload, ev_metadata = meta \<rparr>, e1 \<or> e2 \<or> e3)
      | _ \<Rightarrow> (e, True))"

section \<open>Hosts summary\<close>

record hosts_summary =
  hs_heterogeneous :: bool
  hs_host_count :: int
  hs_infra_env :: "float64 gomap option gomap option"
  hs_iso_type :: string

definition zero_summary :: hosts_summary where
  "zero_summary = \<lparr> hs_heterogeneous = False, hs_host_count = 0, hs_infra_env = None, hs_iso_type = [] \<rparr>"

definition opt_json :: "('a \<Rightarrow> json) \<Rightarrow> 'a option \<Rightarrow> json" where
  "opt_json f x = (case x of None \<Rightarrow> JNull | Some y \<Rightarrow> f y)"

definition counts_json :: "float64 gomap \<Rightarrow> json" where
  "counts_json m = JObj (map (\<lambda>p. (fst p, JNum (snd p))) m)"

definition summary_json :: "hosts_summary \<Rightarrow> json" where
  "summary_json h = JObj
     [(''heterogeneous_arch'', JBool (hs_heterogeneous h)),
      (''host_count'', JNum (f64_of_int (hs_host_count h))),
      (''infra_env'', opt_json (\<lambda>m. JObj (map (\<lambda>p. (fst p, opt_json counts_json (snd p))) m)) (hs_infra_env h)),
      (''iso_type'', JStr (hs_iso_type h))]"

definition summary_fields :: "string list" where
  "summary_fields = [''heterogeneous_arch'', ''host_count'', ''infra_env'', ''iso_type'']"

definition decode_summary :: "hosts_summary option \<Rightarrow> json \<Rightarrow> hosts_summary option \<times> bool" where
  "decode_summary h t =
     (let old = (case h of Some x \<Rightarrow> x | None \<Rightarrow> zero_summary) in
      case t of
        JNull \<Rightarrow> (None, False)
      | JObj kvs \<Rightarrow>
          let mem = (\<lambda>n. field_members summary_fields n kvs);
              (het, e1) = decode_field decode_bool (hs_heterogeneous old) (mem ''heterogeneous_arch'');
              (cnt, e2) = decode_field decode_int (hs_host_count old) (mem ''host_count'');
              (inf, e3) = decode_field (decode_map_of (decode_map_of decode_f64 f64_zero) None)
                            (hs_infra_env old) (mem ''infra_env'');
              (iso, e4) = decode_field decode_string (hs_iso_type old) (mem ''iso_type'')
          in (Some \<lparr> hs_heterogeneous = het, hs_host_count = cnt, hs_infra_env = inf, hs_iso_type = iso \<rparr>,
              e1 \<or> e2 \<or> e3 \<or> e4)
      | _ \<Rightarrow> (Some old, True))"

section \<open>Enriched event\<close>

record enriched_event =
  ee_id :: string
  ee_message :: string
  ee_category :: string
  ee_cluster_id :: string
  ee_event_time :: string
  ee_hosts_summary :: "hosts_summary option"
  ee_name :: string
  ee_request_id :: string
  ee_severity :: string
  ee_properties :: "jobject option"
  ee_cluster :: "jobject option"
  ee_infra_envs :: "jobject option list"
  ee_versions :: "jobject option"
  ee_release_tag :: "string option"

definition zero_enriched :: enriched_event where
  "zero_enriched = \<lparr> ee_id = [], ee_message = [], ee_category = [], ee_cluster_id = [], ee_event_time = [],
     ee_hosts_summary = None, ee_name = [], ee_request_id = [], ee_severity = [], ee_properties = None,
     ee_cluster = None, ee_infra_envs = [], ee_versions = None, ee_release_tag = None \<rparr>"

text \<open>
  What \<^verbatim>\<open>json.Marshal\<close> prints: the fields in the order of the struct, those marked
  \<^verbatim>\<open>omitempty\<close> only when they are not empty. A struct is never empty.
\<close>

definition props_json :: "jobject option \<Rightarrow> json" where
  "props_json m = (case m of None \<Rightarrow> JObj [] | Some kvs \<Rightarrow> JObj (if kvs = [] then [] else [(''props'', JObj kvs)]))"

definition enriched_json :: "enriched_event \<Rightarrow> json" where
  "enriched_json e = JObj (
     [(''id'', JStr (ee_id e)),
      (''message'', JStr (ee_message e)),
      (''category'', JStr (ee_category e)),
      (''cluster_id'', JStr (ee_cluster_id e)),
      (''event_time'', JStr (ee_event_time e)),
      (''host_summary'', opt_json summary_json (ee_hosts_summary e)),
      (''name'', JStr (ee_name e)),
      (''request_id'', JStr (ee_request_id e)),
      (''severity'', JStr (ee_severity e)),
      (''event'', props_json (ee_properties e)),
      (''cluster'', opt_json JObj (ee_cluster e))] @
     (if ee_infra_envs e = [] then [] else [(''infra_envs'', JArr (map (opt_json JObj) (ee_infra_envs e)))]) @
     [(''versions'', opt_json JObj (ee_versions e))] @
     (case ee_release_tag e of None \<Rightarrow> [] | Some t \<Rightarrow> [(''release_tag'', JStr t)]))"

definition enriched_fields :: "string list" where
  "enriched_fields = [''id'', ''message'', ''category'', ''cluster_id'', ''event_time'', ''host_summary'',
     ''name'', ''request_id'', ''severity'', ''event'', ''cluster'', ''infra_envs'', ''versions'', ''release_tag'']"

definition decode_embedded :: "jobject option \<Rightarrow> json \<Rightarrow> jobject option \<times> bool" where
  "decode_embedded m t =
     (case t of
        JNull \<Rightarrow> (m, False)
      | JObj kvs \<Rightarrow> decode_field decode_map m (field_members [''props''] ''props'' kvs)
      | _ \<Rightarrow> (m, True))"

definition decode_enriched :: "enriched_event \<Rightarrow> json \<Rightarrow> enriched_event \<times> bool" where
  "decode_enriched e t =
     (case t of
        JNull \<Rightarrow> (e, False)
      | JObj kvs \<Rightarrow>
          let mem = (\<lambda>n. field_members enriched_fields n kvs);
              str = (\<lambda>old n. decode_field decode_string old (mem n));
              hs = decode_field decode_summary (ee_hosts_summary e) (mem ''host_summary'');
              pr = decode_field decode_embedded (ee_properties e) (mem ''event'');
              cl = decode_field decode_map (ee_cluster e) (mem ''cluster'');
              ie = decode_field decode_maps (ee_infra_envs e) (mem ''infra_envs'');
              vs = decode_field decode_map (ee_versions e) (mem ''versions'');
              rt = decode_field decode_string_ptr (ee_release_tag e) (mem ''release_tag'')
          in (\<lparr> ee_id = fst (str (ee_id e) ''id''), ee_message = fst (str (ee_message e) ''message''),
                ee_category = fst (str (ee_category e) ''category''),
                ee_cluster_id = fst (str (ee_cluster_id e) ''cluster_id''),
                ee_event_time = fst (str (ee_event_time e) ''event_time''),
                ee_hosts_summary = fst hs,
                ee_name = fst (str (ee_name e) ''name''),
                ee_request_id = fst (str (ee_request_id e) ''request_id''),
                ee_severity = fst (str (ee_severity e) ''severity''),
                ee_properties = fst pr, ee_cluster = fst cl, ee_infra_envs = fst ie,
                ee_versions = fst vs, ee_release_tag = fst rt \<rparr>,
              snd (str (ee_id e) ''id'') \<or> snd (str (ee_message e) ''message'') \<or>
              snd (str (ee_category e) ''category'') \<or> snd (str (ee_cluster_id e) ''cluster_id'') \<or>
              snd (str (ee_event_time e) ''event_time'') \<or> snd hs \<or> snd (str (ee_name e) ''name'') \<or>
              snd (str (ee_request_id e) ''request_id'') \<or> snd (str (ee_severity e) ''severity'') \<or>
              snd pr \<or> snd cl \<or> snd ie \<or> snd vs \<or> snd rt)
      | _ \<Rightarrow> (e, True))"

end
