(* ===== verification/HostsSummary.thy ===== *)
theory HostsSummary
  imports Types
begin

text \<open>
  \<^verbatim>\<open>internal/projection/process/hosts_summary.go\<close>: the statistics over the hosts of the
  cluster of an enriched event. Counts and shares are \<^verbatim>\<open>float64\<close> as in the code, and
  every loop over a map follows the iteration order given by the argument \<open>ord\<close>. The
  results say what each number is in terms of plain counts of hosts.
\<close>

section \<open>The code\<close>

definition getHostsFromEvent :: "enriched_event \<Rightarrow> jobject list" where
  "getHostsFromEvent event =
     (case ee_cluster event of
        None \<Rightarrow> []
      | Some cluster \<Rightarrow>
          (case mget cluster ''hosts'' of
             Some (JArr hs) \<Rightarrow> concat (map (\<lambda>h. case h of JObj host \<Rightarrow> [host] | _ \<Rightarrow> []) hs)
           | _ \<Rightarrow> []))"

definition getInfraEnvFromHost :: "jobject \<Rightarrow> jobject option" where
  "getInfraEnvFromHost host =
     (case mget host ''infra_env'' of Some (JObj infraEnv) \<Rightarrow> Some infraEnv | _ \<Rightarrow> None)"

type_synonym infra_stats = "float64 gomap gomap"

definition normalizeInfraEnvStats :: "range_order \<Rightarrow> infra_stats \<Rightarrow> int \<Rightarrow> infra_stats" where
  "normalizeInfraEnvStats ord stats tot =
     foldl (\<lambda>st k.
         let v = the (mget st k)
         in mput k (foldl (\<lambda>m j. mput j (f64_div (the (mget m j)) (f64_of_int tot)) m) v (ord (mkeys v))) st)
       stats (ord (mkeys stats))"

definition bump :: "string \<Rightarrow> float64 gomap \<Rightarrow> float64 gomap" where
  "bump label m = mput label (f64_add (case mget m label of Some c \<Rightarrow> c | None \<Rightarrow> f64_zero) f64_one) m"

definition stat_label :: "string \<Rightarrow> string" where
  "stat_label s = replace_char s (CHR ''.'') ''_''"

definition updateInfraEnvStats :: "range_order \<Rightarrow> infra_stats \<Rightarrow> jobject \<Rightarrow> infra_stats" where
  "updateInfraEnvStats ord stats infraEnv =
     foldl (\<lambda>st k.
         case mget infraEnv k of
           Some (JStr label) \<Rightarrow> mput k (bump (stat_label label) (the (mget st k))) st
         | _ \<Rightarrow> st)
       stats (ord (mkeys stats))"

definition getHighestKeyValue :: "range_order \<Rightarrow> float64 gomap \<Rightarrow> string \<times> float64" where
  "getHighestKeyValue ord stats =
     foldl (\<lambda>(key, val) (k, v). if f64_less val v then (k, v) else (key, val))
       ([], f64_zero) (map_range ord stats)"

definition initial_stats :: infra_stats where
  "initial_stats = [(''cpu_architecture'', []), (''openshift_version'', []), (''type'', [])]"

text \<open>The loop over the hosts: \<^verbatim>\<open>HostCount\<close>, \<^verbatim>\<open>totalInfraEnvs\<close> and the statistics.\<close>

definition count_host :: "range_order \<Rightarrow> int \<times> int \<times> infra_stats \<Rightarrow> jobject \<Rightarrow> int \<times> int \<times> infra_stats" where
  "count_host ord acc host =
     (case acc of (hostCount, tot, stats) \<Rightarrow>
        (case getInfraEnvFromHost host of
           Some infraEnv \<Rightarrow> (hostCount + 1, tot + 1, updateInfraEnvStats ord stats infraEnv)
         | None \<Rightarrow> (hostCount + 1, tot, stats)))"

definition hosts_summary_of :: "range_order \<Rightarrow> jobject list \<Rightarrow> hosts_summary" where
  "hosts_summary_of ord hosts =
     (case foldl (count_host ord) (0, 0, initial_stats) hosts of
        (hostCount, tot, counts) \<Rightarrow>
          let stats = normalizeInfraEnvStats ord counts tot;
              k = fst (getHighestKeyValue ord (the (mget stats ''type'')));
              v = snd (getHighestKeyValue ord (the (mget stats ''cpu_architecture'')))
          in \<lparr> hs_heterogeneous = f64_less v f64_one, hs_host_count = hostCount,
               hs_infra_env = Some (map (\<lambda>(k, m). (k, Some m)) stats), hs_iso_type = k \<rparr>)"

text \<open>\<^verbatim>\<open>AddHostsSummary\<close> always returns nil and writes the summary into the event.\<close>

definition AddHostsSummary :: "range_order \<Rightarrow> enriched_event \<Rightarrow> enriched_event" where
  "AddHostsSummary ord event =
     event \<lparr> ee_hosts_summary := Some (hosts_summary_of ord (getHostsFromEvent event)) \<rparr>"

section \<open>Loops that update every key of a map\<close>

lemma foldl_keys:
  assumes step: "\<And>st k. msorted st \<Longrightarrow> mget st k \<noteq> None \<Longrightarrow> msorted (step st k) \<and>
      (\<forall>x. mget (step st k) x = (if x = k then map_option (g k) (mget st k) else mget st x))"
    and "distinct ks" "msorted st" "\<forall>k\<in>set ks. mget st k \<noteq> None"
  shows "msorted (foldl step st ks) \<and>
    (\<forall>x. mget (foldl step st ks) x = (if x \<in> set ks then map_option (g x) (mget st x) else mget st x))"
  using assms(2-4)
proof (induction ks arbitrary: st)
  case (Cons k ks)
  have s: "msorted (step st k)"
    "\<And>x. mget (step st k) x = (if x = k then map_option (g k) (mget st k) else mget st x)"
    using step [of st k] Cons.prems by auto
  have "\<forall>x\<in>set ks. mget (step st k) x \<noteq> None" using s(2) Cons.prems by auto
  note IH = Cons.IH [OF _ s(1) this]
  show ?case using IH Cons.prems(1) s(2) by auto
qed simp

lemma range_all_keys:
  assumes "range_ok ord" "msorted m"
  shows "distinct (ord (mkeys m))" "\<And>k. k \<in> set (ord (mkeys m)) \<longleftrightarrow> mget m k \<noteq> None"
  using assms msorted_distinct [of m]
  by (simp_all add: range_ok_distinct range_ok_set mkeys_def map_of_eq_None_iff)

lemma foldl_all_keys:
  assumes ord: "range_ok ord" and st: "msorted st"
    and step: "\<And>st k. msorted st \<Longrightarrow> mget st k \<noteq> None \<Longrightarrow> msorted (step st k) \<and>
      (\<forall>x. mget (step st k) x = (if x = k then map_option (g k) (mget st k) else mget st x))"
  shows "msorted (foldl step st (ord (mkeys st)))"
    and "mget (foldl step st (ord (mkeys st))) x = map_option (g x) (mget st x)"
  using foldl_keys [OF step range_all_keys(1) [OF ord st] st] range_all_keys(2) [OF ord st]
  by auto

lemma mget_update:
  assumes "range_ok ord" "msorted stats"
  shows "msorted (updateInfraEnvStats ord stats ie)"
    and "mget (updateInfraEnvStats ord stats ie) k =
      map_option (\<lambda>m. case mget ie k of Some (JStr s) \<Rightarrow> bump (stat_label s) m | _ \<Rightarrow> m) (mget stats k)"
proof -
  let ?g = "\<lambda>k m. case mget ie k of Some (JStr s) \<Rightarrow> bump (stat_label s) m | _ \<Rightarrow> m"
  let ?step = "\<lambda>st k. case mget ie k of
           Some (JStr label) \<Rightarrow> mput k (bump (stat_label label) (the (mget st k))) st
         | _ \<Rightarrow> st"
  have step: "msorted (?step st k) \<and>
      (\<forall>x. mget (?step st k) x = (if x = k then map_option (?g k) (mget st k) else mget st x))"
    if "msorted st" "mget st k \<noteq> None" for st k
    using that by (auto simp: msorted_mput gomap_simps option.map_id0 split: option.split json.split)
  note upd = foldl_all_keys [where step = ?step and g = ?g, OF assms step]
  show "msorted (updateInfraEnvStats ord stats ie)"
    unfolding updateInfraEnvStats_def by (rule upd(1))
  show "mget (updateInfraEnvStats ord stats ie) k = map_option (?g k) (mget stats k)"
    unfolding updateInfraEnvStats_def by (rule upd(2))
qed

lemma mget_normalize:
  assumes ord: "range_ok ord" and st: "msorted stats" and ms: "\<forall>k m. mget stats k = Some m \<longrightarrow> msorted m"
  shows "msorted (normalizeInfraEnvStats ord stats tot)"
    and "mget stats k = Some m \<Longrightarrow> \<exists>n. mget (normalizeInfraEnvStats ord stats tot) k = Some n \<and> msorted n \<and>
      (\<forall>j. mget n j = map_option (\<lambda>c. f64_div c (f64_of_int tot)) (mget m j))"
    and "mget stats k = None \<Longrightarrow> mget (normalizeInfraEnvStats ord stats tot) k = None"
proof -
  let ?inner = "\<lambda>v. foldl (\<lambda>m j. mput j (f64_div (the (mget m j)) (f64_of_int tot)) m) v (ord (mkeys v))"
  let ?step = "\<lambda>st k. let v = the (mget st k) in mput k (?inner v) st"
  have step: "msorted (?step st k) \<and>
      (\<forall>x. mget (?step st k) x = (if x = k then map_option ?inner (mget st k) else mget st x))"
    if "msorted st" "mget st k \<noteq> None" for st k
    using that by (auto simp: msorted_mput gomap_simps Let_def)
  note norm = foldl_all_keys [where step = ?step and g = "\<lambda>k. ?inner", OF ord st step]
  have inner: "msorted (?inner v)" "mget (?inner v) j = map_option (\<lambda>c. f64_div c (f64_of_int tot)) (mget v j)"
    if "msorted v" for v j
    using that
    by (auto intro!: foldl_all_keys(1) [where g = "\<lambda>k c. f64_div c (f64_of_int tot)"]
        foldl_all_keys(2) [where g = "\<lambda>k c. f64_div c (f64_of_int tot)"] ord
        simp: msorted_mput gomap_simps)
  show "msorted (normalizeInfraEnvStats ord stats tot)"
    unfolding normalizeInfraEnvStats_def by (rule norm(1))
  have eq: "mget (normalizeInfraEnvStats ord stats tot) k = map_option ?inner (mget stats k)"
    unfolding normalizeInfraEnvStats_def by (rule norm(2))
  show "mget stats k = Some m \<Longrightarrow> \<exists>n. mget (normalizeInfraEnvStats ord stats tot) k = Some n \<and> msorted n \<and>
      (\<forall>j. mget n j = map_option (\<lambda>c. f64_div c (f64_of_int tot)) (mget m j))"
    using eq inner [OF ms [rule_format, of k m]] by auto
  show "mget stats k = None \<Longrightarrow> mget (normalizeInfraEnvStats ord stats tot) k = None"
    using eq by simp
qed

section \<open>Counting hosts\<close>

text \<open>
  The label a host contributes to a statistic, and how many hosts contribute a given
  one: the specification of the summary.
\<close>

definition host_label :: "string \<Rightarrow> jobject \<Rightarrow> string option" where
  "host_label k host =
     (case getInfraEnvFromHost host of
        None \<Rightarrow> None
      | Some ie \<Rightarrow> (case mget ie k of Some (JStr s) \<Rightarrow> Some (stat_label s) | _ \<Rightarrow> None))"

definition label_count :: "string \<Rightarrow> string \<Rightarrow> jobject list \<Rightarrow> nat" where
  "label_count k l hosts = length (filter (\<lambda>h. host_label k h = Some l) hosts)"

definition infra_env_count :: "jobject list \<Rightarrow> nat" where
  "infra_env_count hosts = length (filter (\<lambda>h. getInfraEnvFromHost h \<noteq> None) hosts)"

definition stat_keys :: "string list" where
  "stat_keys = [''cpu_architecture'', ''openshift_version'', ''type'']"

lemma label_count_le: "label_count k l hosts \<le> infra_env_count hosts"
proof -
  have "(case host_label k h of Some _ \<Rightarrow> getInfraEnvFromHost h \<noteq> None | None \<Rightarrow> True)" for h
    by (auto simp: host_label_def split: option.split)
  then have "\<forall>h. host_label k h = Some l \<longrightarrow> getInfraEnvFromHost h \<noteq> None"
    by (metis option.case(2))
  then show ?thesis
    unfolding label_count_def infra_env_count_def by (induction hosts) auto
qed

lemma infra_env_count_le: "infra_env_count hosts \<le> length hosts"
  by (simp add: infra_env_count_def)

definition counts_of :: "infra_stats \<Rightarrow> jobject list \<Rightarrow> bool" where
  "counts_of stats hosts =
     (msorted stats \<and> map fst stats = stat_keys \<and>
      (\<forall>k m. mget stats k = Some m \<longrightarrow> msorted m \<and>
         (\<forall>l. mget m l = (if label_count k l hosts = 0 then None
                          else Some (f64_of_int (int (label_count k l hosts)))))))"

lemma f64_of_int_0: "f64_of_int 0 = f64_zero"
  by (simp add: f64_of_int_def round64_def)

lemma mget_bump:
  assumes "msorted m" "label_count k l hosts < 2 ^ 53"
    "mget m l = (if label_count k l hosts = 0 then None else Some (f64_of_int (int (label_count k l hosts))))"
  shows "mget (bump l m) x = (if x = l then Some (f64_of_int (int (Suc (label_count k l hosts)))) else mget m x)"
proof -
  have "(case mget m l of Some c \<Rightarrow> c | None \<Rightarrow> f64_zero) = f64_of_int (int (label_count k l hosts))"
    using assms(3) f64_of_int_0 by simp
  then have "bump l m = mput l (f64_add (f64_of_int (int (label_count k l hosts))) f64_one) m"
    unfolding bump_def by (simp only:)
  also have "\<dots> = mput l (f64_of_int (int (Suc (label_count k l hosts)))) m"
    by (simp only: f64_of_nat_succ [OF assms(2)])
  finally show ?thesis using assms(1) by (simp add: gomap_simps)
qed

lemma msorted_bump: "msorted m \<Longrightarrow> msorted (bump l m)"
  by (simp add: bump_def msorted_mput)

lemma label_count_snoc:
  "label_count k l (hosts @ [h]) = (if host_label k h = Some l then Suc (label_count k l hosts) else label_count k l hosts)"
  by (simp add: label_count_def)

lemma map_fst_update:
  "msorted m \<Longrightarrow> msorted n \<Longrightarrow> (\<And>k. (mget n k = None) = (mget m k = None)) \<Longrightarrow> map fst n = map fst m"
proof -
  assume a: "msorted m" "msorted n" and d: "\<And>k. (mget n k = None) = (mget m k = None)"
  have "set (map fst n) = set (map fst m)" using d by (auto simp: map_of_eq_None_iff)
  then show ?thesis
    using a unfolding msorted_def by (metis sorted_wrt_map strict_sorted_equal strict_sorted_iff sorted_wrt_map)
qed

lemma counts_of_initial: "counts_of initial_stats []"
  by (auto simp: counts_of_def initial_stats_def stat_keys_def msorted_def label_count_def)

lemma counts_of_skip:
  assumes "counts_of stats hosts" "getInfraEnvFromHost h = None"
  shows "counts_of stats (hosts @ [h])"
  using assms by (simp add: counts_of_def label_count_snoc host_label_def)

lemma counts_of_update:
  assumes ord: "range_ok ord" and c: "counts_of stats hosts" and ie: "getInfraEnvFromHost h = Some ie"
    and len: "length hosts < 2 ^ 53"
  shows "counts_of (updateInfraEnvStats ord stats ie) (hosts @ [h])"
proof -
  let ?st = "updateInfraEnvStats ord stats ie"
  have s: "msorted stats" using c by (simp add: counts_of_def)
  note upd = mget_update [OF ord s, where ie = ie]
  have "map fst ?st = stat_keys"
    using map_fst_update [OF s upd(1)] upd(2) c by (simp add: counts_of_def)
  moreover have "msorted n \<and>
      (\<forall>l. mget n l = (if label_count k l (hosts @ [h]) = 0 then None
                        else Some (f64_of_int (int (label_count k l (hosts @ [h]))))))"
    if n: "mget ?st k = Some n" for k n
  proof -
    obtain m where m: "mget stats k = Some m"
      "n = (case mget ie k of Some (JStr s) \<Rightarrow> bump (stat_label s) m | _ \<Rightarrow> m)"
      using n upd(2) by auto
    have mm: "msorted m" "\<And>l. mget m l = (if label_count k l hosts = 0 then None
                          else Some (f64_of_int (int (label_count k l hosts))))"
      using c m(1) by (simp_all add: counts_of_def)
    show ?thesis
    proof (cases "host_label k h")
      case None
      then have "n = m" using m(2) ie by (auto simp: host_label_def split: option.splits json.splits)
      then show ?thesis using mm None by (simp add: label_count_snoc)
    next
      case (Some l)
      then have nl: "n = bump l m"
        using m(2) ie by (auto simp: host_label_def split: option.splits json.splits)
      have "label_count k l hosts < 2 ^ 53"
        using label_count_le [of k l hosts] infra_env_count_le [of hosts] len by linarith
      then show ?thesis
        using mget_bump [OF mm(1) _ mm(2)] Some mm msorted_bump nl
        by (auto simp: label_count_snoc)
    qed
  qed
  ultimately show ?thesis using upd(1) by (simp add: counts_of_def)
qed

lemma count_host_step:
  "count_host ord (c, t, stats) h =
     (c + 1, if getInfraEnvFromHost h = None then t else t + 1,
      case getInfraEnvFromHost h of None \<Rightarrow> stats | Some ie \<Rightarrow> updateInfraEnvStats ord stats ie)"
  by (simp add: count_host_def split: option.split)

lemma count_hosts:
  assumes "range_ok ord" "length hosts \<le> 2 ^ 52"
  shows "\<exists>stats. foldl (count_host ord) (0, 0, initial_stats) hosts
      = (int (length hosts), int (infra_env_count hosts), stats) \<and> counts_of stats hosts"
  using assms(2)
proof (induction hosts rule: rev_induct)
  case Nil
  then show ?case using counts_of_initial by (simp add: infra_env_count_def)
next
  case (snoc h hosts)
  then obtain stats where IH: "foldl (count_host ord) (0, 0, initial_stats) hosts
      = (int (length hosts), int (infra_env_count hosts), stats)" "counts_of stats hosts"
    by auto
  have len: "length hosts < 2 ^ 53" using snoc.prems by simp
  show ?case
  proof (cases "getInfraEnvFromHost h")
    case None
    then show ?thesis
      using IH counts_of_skip by (auto simp: count_host_step infra_env_count_def)
  next
    case (Some ie)
    then show ?thesis
      using IH counts_of_update [OF assms(1) IH(2) Some len]
      by (auto simp: count_host_step infra_env_count_def)
  qed
qed

section \<open>The greatest entry\<close>

lemma highest_foldl:
  assumes "\<forall>p\<in>set ps. \<exists>m e. snd p = F_fin False m e \<and> 0 < val64 (snd p)"
    and "\<exists>m e. v0 = F_fin False m e"
    and "foldl (\<lambda>(key, val) (k, v). if f64_less val v then (k, v) else (key, val)) (k0, v0) ps = (k, v)"
  shows "((k, v) = (k0, v0) \<or> (k, v) \<in> set ps) \<and> val64 v0 \<le> val64 v \<and> (\<forall>p\<in>set ps. val64 (snd p) \<le> val64 v)
    \<and> (\<exists>m e. v = F_fin False m e)"
  using assms
proof (induction ps arbitrary: k0 v0)
  case (Cons p ps)
  obtain x y where p: "p = (x, y)" by fastforce
  obtain m e where y: "y = F_fin False m e" using Cons.prems(1) p by auto
  obtain m0 e0 where v0: "v0 = F_fin False m0 e0" using Cons.prems(2) by auto
  show ?case
  proof (cases "val64 v0 < val64 y")
    case True
    then have "f64_less v0 y" using y v0 by simp
    then have "foldl (\<lambda>(key, val) (k, v). if f64_less val v then (k, v) else (key, val)) (x, y) ps = (k, v)"
      using Cons.prems(3) p by simp
    from Cons.IH [OF _ _ this] Cons.prems(1) y p True show ?thesis by auto
  next
    case False
    then have "\<not> f64_less v0 y" using y v0 by simp
    then have "foldl (\<lambda>(key, val) (k, v). if f64_less val v then (k, v) else (key, val)) (k0, v0) ps = (k, v)"
      using Cons.prems(3) p by simp
    from Cons.IH [OF _ _ this] Cons.prems(1,2) p False show ?thesis by auto
  qed
qed auto

lemma getHighestKeyValue_max:
  assumes ord: "range_ok ord" and m: "msorted m"
    and fin: "\<forall>j c. mget m j = Some c \<longrightarrow> (\<exists>n e. c = F_fin False n e) \<and> 0 < val64 c"
    and h: "getHighestKeyValue ord m = (k, v)"
  shows "\<forall>j c. mget m j = Some c \<longrightarrow> val64 c \<le> val64 v"
    and "m = [] \<and> k = [] \<and> v = f64_zero \<or> mget m k = Some v"
    and "\<exists>n e. v = F_fin False n e"
proof -
  have s: "set (map_range ord m) = set m" by (rule set_map_range [OF ord m])
  have d: "distinct (map fst m)" by (rule msorted_distinct [OF m])
  have pos: "\<forall>p\<in>set (map_range ord m). \<exists>n e. snd p = F_fin False n e \<and> 0 < val64 (snd p)"
    using fin d unfolding s by (metis map_of_is_SomeI prod.collapse)
  have "\<exists>n e. f64_zero = F_fin False n e" by simp
  note hi = highest_foldl [OF pos this h [unfolded getHighestKeyValue_def]]
  have "val64 c \<le> val64 v" if "mget m j = Some c" for j c
    using hi mget_in_set [OF that] s by force
  then show "\<forall>j c. mget m j = Some c \<longrightarrow> val64 c \<le> val64 v" by blast
  show "\<exists>n e. v = F_fin False n e" using hi by blast
  show "m = [] \<and> k = [] \<and> v = f64_zero \<or> mget m k = Some v"
  proof (cases "(k, v) \<in> set m")
    case True
    then show ?thesis using d by (simp add: map_of_is_SomeI)
  next
    case False
    then have kv: "k = []" "v = f64_zero" using hi s by auto
    have "m = []"
    proof (rule ccontr)
      assume "m \<noteq> []"
      then obtain p where p: "p \<in> set m" by (cases m) auto
      then have "0 < val64 (snd p)" "val64 (snd p) \<le> val64 v" using hi pos s by auto
      with kv show False by simp
    qed
    with kv show ?thesis by simp
  qed
qed

section \<open>What the summary says\<close>

lemma counts_keys: "counts_of stats hosts \<Longrightarrow> k \<in> set stat_keys \<Longrightarrow> \<exists>m. mget stats k = Some m"
  by (metis counts_of_def map_of_eq_None_iff list.set_map option.exhaust)

lemma summary_stats:
  assumes ord: "range_ok ord" and len: "length hosts \<le> 2 ^ 52"
  obtains stats where
    "hosts_summary_of ord hosts =
      \<lparr> hs_heterogeneous = f64_less (snd (getHighestKeyValue ord (the (mget stats ''cpu_architecture'')))) f64_one,
        hs_host_count = int (length hosts),
        hs_infra_env = Some (map (\<lambda>(k, m). (k, Some m)) stats),
        hs_iso_type = fst (getHighestKeyValue ord (the (mget stats ''type''))) \<rparr>"
    "msorted stats"
    "\<And>k. k \<in> set stat_keys \<Longrightarrow> \<exists>n. mget stats k = Some n \<and> msorted n \<and>
       (\<forall>l. mget n l = (if label_count k l hosts = 0 then None
              else Some (share64 (label_count k l hosts) (infra_env_count hosts))))"
    "\<And>k n. mget stats k = Some n \<Longrightarrow> k \<in> set stat_keys"
proof -
  obtain c where c: "foldl (count_host ord) (0, 0, initial_stats) hosts
      = (int (length hosts), int (infra_env_count hosts), c)" "counts_of c hosts"
    using count_hosts [OF ord len] by blast
  define stats where "stats = normalizeInfraEnvStats ord c (int (infra_env_count hosts))"
  have s: "msorted c" and ms: "\<forall>k m. mget c k = Some m \<longrightarrow> msorted m"
    using c(2) by (simp_all add: counts_of_def)
  note norm = mget_normalize [OF ord s ms, where tot = "int (infra_env_count hosts)", folded stats_def]
  show thesis
  proof (rule that [of stats])
    show "hosts_summary_of ord hosts =
      \<lparr> hs_heterogeneous = f64_less (snd (getHighestKeyValue ord (the (mget stats ''cpu_architecture'')))) f64_one,
        hs_host_count = int (length hosts),
        hs_infra_env = Some (map (\<lambda>(k, m). (k, Some m)) stats),
        hs_iso_type = fst (getHighestKeyValue ord (the (mget stats ''type''))) \<rparr>"
      by (simp add: hosts_summary_of_def c(1) stats_def Let_def)
    show "msorted stats" by (rule norm(1))
    show "\<exists>n. mget stats k = Some n \<and> msorted n \<and>
       (\<forall>l. mget n l = (if label_count k l hosts = 0 then None
              else Some (share64 (label_count k l hosts) (infra_env_count hosts))))"
      if "k \<in> set stat_keys" for k
    proof -
      obtain m where m: "mget c k = Some m" using counts_keys [OF c(2) \<open>k \<in> _\<close>] by blast
      then have "mget m l = (if label_count k l hosts = 0 then None
          else Some (f64_of_int (int (label_count k l hosts))))" for l
        using c(2) by (simp add: counts_of_def)
      then show ?thesis using norm(2) [OF m] by (auto simp: share64_def)
    qed
    show "k \<in> set stat_keys" if "mget stats k = Some n" for k n
    proof (rule ccontr)
      assume "k \<notin> set stat_keys"
      then have "mget c k = None" using c(2) unfolding counts_of_def map_of_eq_None_iff by (metis list.set_map)
      with norm(3) that show False by simp
    qed
  qed
qed

lemma share_entry:
  assumes "length hosts \<le> 2 ^ 52" "label_count k l hosts \<noteq> 0"
  shows "(\<exists>n e. share64 (label_count k l hosts) (infra_env_count hosts) = F_fin False n e) \<and>
    0 < val64 (share64 (label_count k l hosts) (infra_env_count hosts))"
proof -
  have "infra_env_count hosts \<le> 2 ^ 52" using infra_env_count_le [of hosts] assms(1) by linarith
  with share64_facts(1,2) [of "label_count k l hosts" "infra_env_count hosts"]
    label_count_le [of k l hosts] assms(2)
  show ?thesis by simp
qed

text \<open>
  C9. The summary counts: \<^verbatim>\<open>host_count\<close> is the number of hosts, and under each of the
  three keys of \<^verbatim>\<open>infra_env\<close> stands exactly the share of every label that occurs, the
  number of hosts whose infra-env has it divided by the number of hosts with an
  infra-env, rounded once. No label contains a dot.
\<close>

theorem hosts_summary_shares:
  assumes ord: "range_ok ord" and len: "length (getHostsFromEvent e) \<le> 2 ^ 52"
  shows "\<exists>s infra. ee_hosts_summary (AddHostsSummary ord e) = Some s \<and>
     hs_host_count s = int (length (getHostsFromEvent e)) \<and>
     hs_infra_env s = Some infra \<and>
     (\<forall>k. mget infra k \<noteq> None \<longleftrightarrow> k \<in> set stat_keys) \<and>
     (\<forall>k\<in>set stat_keys. \<exists>m. mget infra k = Some (Some m) \<and>
        (\<forall>l. mget m l =
           (if label_count k l (getHostsFromEvent e) = 0 then None
            else Some (share64 (label_count k l (getHostsFromEvent e)) (infra_env_count (getHostsFromEvent e))))) \<and>
        (\<forall>l. mget m l \<noteq> None \<longrightarrow> CHR ''.'' \<notin> set l))"
proof -
  let ?hs = "getHostsFromEvent e"
  obtain stats where st: "hs_host_count (hosts_summary_of ord ?hs) = int (length ?hs)"
    "hs_infra_env (hosts_summary_of ord ?hs) = Some (map (\<lambda>(k, m). (k, Some m)) stats)"
    "\<And>k. k \<in> set stat_keys \<Longrightarrow> \<exists>n. mget stats k = Some n \<and> msorted n \<and>
       (\<forall>l. mget n l = (if label_count k l ?hs = 0 then None
              else Some (share64 (label_count k l ?hs) (infra_env_count ?hs))))"
    "\<And>k n. mget stats k = Some n \<Longrightarrow> k \<in> set stat_keys"
    by (rule summary_stats [OF ord len]) simp
  have dots: "CHR ''.'' \<notin> set l" if nz: "label_count k l ?hs \<noteq> 0" for k l
  proof -
    obtain h where "host_label k h = Some l" using nz unfolding label_count_def length_0_conv filter_empty_conv by blast
    then obtain s where "l = stat_label s" by (auto simp: host_label_def split: option.splits json.splits)
    then show ?thesis by (simp add: stat_label_def replace_char_notin)
  qed
  have keys: "mget (map (\<lambda>(k, m). (k, Some m)) stats) k \<noteq> None \<longleftrightarrow> k \<in> set stat_keys" for k
    using st(3,4) [of k] by (auto simp: mget_map_snd)
  have "\<exists>m. mget (map (\<lambda>(k, m). (k, Some m)) stats) k = Some (Some m) \<and>
        (\<forall>l. mget m l = (if label_count k l ?hs = 0 then None
            else Some (share64 (label_count k l ?hs) (infra_env_count ?hs)))) \<and>
        (\<forall>l. mget m l \<noteq> None \<longrightarrow> CHR ''.'' \<notin> set l)" if "k \<in> set stat_keys" for k
    using st(3) [OF that] dots by (auto simp: mget_map_snd)
  then show ?thesis using st(1,2) keys by (simp add: AddHostsSummary_def)
qed

text \<open>The label with the highest share, and its share.\<close>

lemma highest_share:
  assumes "range_ok ord" "length hosts \<le> 2 ^ 52" "msorted n" "getHighestKeyValue ord n = (k, v)"
    "\<forall>l. mget n l = (if label_count k0 l hosts = 0 then None
       else Some (share64 (label_count k0 l hosts) (infra_env_count hosts)))"
  shows "label_count k0 l hosts \<noteq> 0 \<Longrightarrow> val64 (share64 (label_count k0 l hosts) (infra_env_count hosts)) \<le> val64 v"
    and "if \<forall>l. label_count k0 l hosts = 0 then k = [] \<and> v = f64_zero
      else label_count k0 k hosts \<noteq> 0 \<and> v = share64 (label_count k0 k hosts) (infra_env_count hosts)"
    and "\<exists>m e. v = F_fin False m e"
proof -
  have "\<forall>j c. mget n j = Some c \<longrightarrow> (\<exists>m e. c = F_fin False m e) \<and> 0 < val64 c"
    using assms(5) share_entry [OF assms(2), of k0] by (metis option.distinct(1) option.inject)
  note hi = getHighestKeyValue_max [OF assms(1,3) this assms(4)]
  show "label_count k0 l hosts \<noteq> 0 \<Longrightarrow> val64 (share64 (label_count k0 l hosts) (infra_env_count hosts)) \<le> val64 v"
    using hi(1) assms(5) by (metis (no_types))
  show "\<exists>m e. v = F_fin False m e" by (rule hi(3))
  show "if \<forall>l. label_count k0 l hosts = 0 then k = [] \<and> v = f64_zero
      else label_count k0 k hosts \<noteq> 0 \<and> v = share64 (label_count k0 k hosts) (infra_env_count hosts)"
    using hi(2) assms(5) by (auto split: if_splits)
qed

text \<open>
  C24. \<^verbatim>\<open>heterogeneous_arch\<close> is false exactly when there are hosts with an infra-env and
  one CPU architecture is that of all of them. In particular it is true for a cluster
  none of whose hosts has an infra-env.
\<close>

theorem hosts_summary_heterogeneous:
  assumes ord: "range_ok ord" and len: "length (getHostsFromEvent e) \<le> 2 ^ 52"
    and s: "ee_hosts_summary (AddHostsSummary ord e) = Some s"
  shows "\<not> hs_heterogeneous s \<longleftrightarrow>
    (0 < infra_env_count (getHostsFromEvent e) \<and>
     (\<exists>l. label_count ''cpu_architecture'' l (getHostsFromEvent e) = infra_env_count (getHostsFromEvent e)))"
proof -
  let ?hs = "getHostsFromEvent e" and ?k = "''cpu_architecture''"
  let ?c = "\<lambda>l. label_count ?k l ?hs" and ?t = "infra_env_count ?hs"
  obtain stats where st: "hs_heterogeneous (hosts_summary_of ord ?hs) =
      f64_less (snd (getHighestKeyValue ord (the (mget stats ?k)))) f64_one"
    "\<exists>n. mget stats ?k = Some n \<and> msorted n \<and>
       (\<forall>l. mget n l = (if ?c l = 0 then None else Some (share64 (?c l) ?t)))"
    by (rule summary_stats [OF ord len]) (simp add: stat_keys_def)
  obtain n k v where n: "mget stats ?k = Some n" "msorted n" "getHighestKeyValue ord n = (k, v)"
    "\<forall>l. mget n l = (if ?c l = 0 then None else Some (share64 (?c l) ?t))"
    using st(2) by (metis surj_pair)
  note hi = highest_share [OF ord len n(2-4)]
  have h: "hs_heterogeneous s = (val64 v < 1)"
    using s st(1) n(1,3) hi(3) val64_one by (auto simp: AddHostsSummary_def)
  have share: "val64 (share64 (?c l) ?t) \<le> 1" "val64 (share64 (?c l) ?t) = 1 \<longleftrightarrow> ?c l = ?t" if "?c l \<noteq> 0" for l
    using share64_facts(3,4) [of "?c l" ?t] that label_count_le [of ?k l ?hs] infra_env_count_le [of ?hs] len by simp_all
  show ?thesis
  proof (cases "\<forall>l. ?c l = 0")
    case True
    with hi(2) have "v = f64_zero" by simp
    with h have "hs_heterogeneous s" by simp
    moreover have "\<not> (?c l = ?t \<and> 0 < ?t)" for l using True [rule_format, of l] by linarith
    ultimately show ?thesis by blast
  next
    case False
    with hi(2) have k: "?c k \<noteq> 0" "v = share64 (?c k) ?t" by simp_all
    then have "\<not> hs_heterogeneous s \<longleftrightarrow> ?c k = ?t" using h share [OF k(1)] by (auto simp: not_less)
    moreover have "?c k = ?t" if "?c l = ?t" "0 < ?t" for l using hi(1) [of l] share [of l] share [OF k(1)] k(2) that by auto
    ultimately show ?thesis using k(1) by auto
  qed
qed

text \<open>
  C30. \<^verbatim>\<open>iso_type\<close> is a label of the statistic \<^verbatim>\<open>type\<close> with the greatest share, and empty
  when no host has one.
\<close>

theorem hosts_summary_iso_type:
  assumes ord: "range_ok ord" and len: "length (getHostsFromEvent e) \<le> 2 ^ 52"
    and s: "ee_hosts_summary (AddHostsSummary ord e) = Some s"
  shows "if \<forall>l. label_count ''type'' l (getHostsFromEvent e) = 0 then hs_iso_type s = []
    else 0 < label_count ''type'' (hs_iso_type s) (getHostsFromEvent e) \<and>
      (\<forall>l. label_count ''type'' l (getHostsFromEvent e) \<noteq> 0 \<longrightarrow>
        val64 (share64 (label_count ''type'' l (getHostsFromEvent e)) (infra_env_count (getHostsFromEvent e)))
          \<le> val64 (share64 (label_count ''type'' (hs_iso_type s) (getHostsFromEvent e))
                     (infra_env_count (getHostsFromEvent e))))"
proof -
  let ?hs = "getHostsFromEvent e" and ?k = "''type''"
  let ?c = "\<lambda>l. label_count ?k l ?hs" and ?t = "infra_env_count ?hs"
  obtain stats where st: "hs_iso_type (hosts_summary_of ord ?hs) =
      fst (getHighestKeyValue ord (the (mget stats ?k)))"
    "\<exists>n. mget stats ?k = Some n \<and> msorted n \<and>
       (\<forall>l. mget n l = (if ?c l = 0 then None else Some (share64 (?c l) ?t)))"
    by (rule summary_stats [OF ord len]) (simp add: stat_keys_def)
  obtain n k v where n: "mget stats ?k = Some n" "msorted n" "getHighestKeyValue ord n = (k, v)"
    "\<forall>l. mget n l = (if ?c l = 0 then None else Some (share64 (?c l) ?t))"
    using st(2) by (metis surj_pair)
  have "hs_iso_type s = k" using s st(1) n(1,3) by (simp add: AddHostsSummary_def)
  with highest_share(1,2) [OF ord len n(2-4)] show ?thesis by (auto split: if_splits)
qed

end
