(* ===== verification/Md5.thy ===== *)
theory Md5
  imports JsonString "HOL-Library.Word"
begin

text \<open>
  The standard library's \<^verbatim>\<open>crypto/md5\<close> (RFC 1321) on 32 bit words, and
  \<^verbatim>\<open>hex.EncodeToString\<close>, as \<^verbatim>\<open>anonymizeJson\<close> uses them.
\<close>

unbundle bit_operations_syntax

type_synonym md5_state = "32 word \<times> 32 word \<times> 32 word \<times> 32 word"

definition md5_shifts :: "nat list" where
  "md5_shifts = concat (map (\<lambda>r. concat (replicate 4 r))
     [[7, 12, 17, 22], [5, 9, 14, 20], [4, 11, 16, 23], [6, 10, 15, 21]])"

definition md5_table :: "32 word list" where
  "md5_table = [
    0xd76aa478, 0xe8c7b756, 0x242070db, 0xc1bdceee, 0xf57c0faf, 0x4787c62a,
    0xa8304613, 0xfd469501, 0x698098d8, 0x8b44f7af, 0xffff5bb1, 0x895cd7be,
    0x6b901122, 0xfd987193, 0xa679438e, 0x49b40821, 0xf61e2562, 0xc040b340,
    0x265e5a51, 0xe9b6c7aa, 0xd62f105d, 0x2441453, 0xd8a1e681, 0xe7d3fbc8,
    0x21e1cde6, 0xc33707d6, 0xf4d50d87, 0x455a14ed, 0xa9e3e905, 0xfcefa3f8,
    0x676f02d9, 0x8d2a4c8a, 0xfffa3942, 0x8771f681, 0x6d9d6122, 0xfde5380c,
    0xa4beea44, 0x4bdecfa9, 0xf6bb4b60, 0xbebfbc70, 0x289b7ec6, 0xeaa127fa,
    0xd4ef3085, 0x4881d05, 0xd9d4d039, 0xe6db99e5, 0x1fa27cf8, 0xc4ac5665,
    0xf4292244, 0x432aff97, 0xab9423a7, 0xfc93a039, 0x655b59c3, 0x8f0ccc92,
    0xffeff47d, 0x85845dd1, 0x6fa87e4f, 0xfe2ce6e0, 0xa3014314, 0x4e0811a1,
    0xf7537e82, 0xbd3af235, 0x2ad7d2bb, 0xeb86d391]"

definition rotl32 :: "nat \<Rightarrow> 32 word \<Rightarrow> 32 word" where
  "rotl32 n w = (push_bit n w OR drop_bit (32 - n) w)"

text \<open>One of the 64 operations on a block of sixteen words.\<close>

definition md5_step :: "32 word list \<Rightarrow> md5_state \<Rightarrow> nat \<Rightarrow> md5_state" where
  "md5_step block st i =
     (case st of (a, b, c, d) \<Rightarrow>
        let (f, g) =
          (if i < 16 then ((b AND c) OR (NOT b AND d), i)
           else if i < 32 then ((d AND b) OR (NOT d AND c), (5 * i + 1) mod 16)
           else if i < 48 then (b XOR c XOR d, (3 * i + 5) mod 16)
           else (c XOR (b OR NOT d), (7 * i) mod 16))
        in (d, b + rotl32 (md5_shifts ! i) (a + f + md5_table ! i + block ! g), b, c))"

definition md5_block :: "md5_state \<Rightarrow> 32 word list \<Rightarrow> md5_state" where
  "md5_block st block =
     (case (st, foldl (md5_step block) st [0..<64]) of
        ((a, b, c, d), (a', b', c', d')) \<Rightarrow> (a + a', b + b', c + c', d + d'))"

text \<open>Padding: a one bit, zeros, and the length in bits as eight bytes, least first.\<close>

definition le_bytes :: "nat \<Rightarrow> nat \<Rightarrow> nat list" where
  "le_bytes k n = map (\<lambda>i. (n div 256 ^ i) mod 256) [0..<k]"

definition md5_pad :: "nat list \<Rightarrow> nat list" where
  "md5_pad bs = bs @ 128 # replicate ((119 - length bs mod 64) mod 64) 0 @ le_bytes 8 (8 * length bs)"

fun le_words :: "nat list \<Rightarrow> 32 word list" where
  "le_words (a # b # c # d # bs) =
     of_nat (a + 256 * b + 256 ^ 2 * c + 256 ^ 3 * d) # le_words bs"
| "le_words bs = []"

fun md5_blocks :: "md5_state \<Rightarrow> 32 word list \<Rightarrow> nat \<Rightarrow> md5_state" where
  "md5_blocks st ws 0 = st"
| "md5_blocks st ws (Suc n) = md5_blocks (md5_block st (take 16 ws)) (drop 16 ws) n"

definition md5_bytes :: "string \<Rightarrow> nat list" where
  "md5_bytes s =
     (let ws = le_words (md5_pad (map byte s));
          (a, b, c, d) = md5_blocks (0x67452301, 0xefcdab89, 0x98badcfe, 0x10325476) ws (length ws div 16)
      in concat (map (\<lambda>w. le_bytes 4 (unat w)) [a, b, c, d]))"

definition hex_text :: "nat list \<Rightarrow> string" where
  "hex_text bs = concat (map (\<lambda>b. [hex_digit (b div 16), hex_digit (b mod 16)]) bs)"

definition md5_hex :: "string \<Rightarrow> string" where
  "md5_hex s = hex_text (md5_bytes s)"

lemma length_md5_bytes: "length (md5_bytes s) = 16"
  by (auto simp: md5_bytes_def Let_def le_bytes_def split: prod.split)

lemma le_bytes_less: "x \<in> set (le_bytes k n) \<Longrightarrow> x < 256"
  by (auto simp: le_bytes_def)

lemma md5_bytes_less: "x \<in> set (md5_bytes s) \<Longrightarrow> x < 256"
  by (auto simp: md5_bytes_def Let_def dest: le_bytes_less split: prod.splits)

lemma hex_digit_ascii: "n < 16 \<Longrightarrow> byte (hex_digit n) < 128"
  by (auto simp: hex_digit_def)

lemma hex_text_length: "length (hex_text bs) = 2 * length bs"
  by (induction bs) (auto simp: hex_text_def)

lemma length_md5_hex: "length (md5_hex s) = 32"
  by (simp add: md5_hex_def hex_text_length length_md5_bytes)

lemma valid_md5_hex: "valid_utf8 (md5_hex s)"
proof (rule valid_utf8_ascii)
  have "\<forall>b\<in>set (md5_bytes s). byte (hex_digit (b div 16)) < 128 \<and> byte (hex_digit (b mod 16)) < 128"
    using md5_bytes_less by (auto intro!: hex_digit_ascii simp: less_mult_imp_div_less)
  then show "list_all (\<lambda>c. byte c < 128) (md5_hex s)"
    by (auto simp: md5_hex_def hex_text_def list_all_iff)
qed

end
