(* ===== verification/Enricher.thy ===== *)
theory Enricher
  imports JsonEditSpec HostsSummary Md5
begin

text \<open>
  Package \<^verbatim>\<open>internal/projection/process\<close> apart from the hosts summary: the lists of
  fields, the edits \<^verbatim>\<open>unpackJson\<close>, \<^verbatim>\<open>mapToListJson\<close>, \<^verbatim>\<open>mapToListJsonDropKey\<close> and
  \<^verbatim>\<open>anonymizeJson\<close>, and the \<^verbatim>\<open>EventEnricher\<close> that builds an enriched event from an
  event, the cluster, its hosts and its infra-envs. The outside world of the package is
  a \<open>process_env\<close>: gjson and sjson, the SHA-1 UUIDs of \<^verbatim>\<open>google/uuid\<close>, and the iteration
  order of maps.
\<close>

record process_env =
  pe_lib :: json_lib
  pe_uuid_sha1 :: "string \<Rightarrow> string \<Rightarrow> string"
  pe_range :: range_order

section \<open>default_fields.go\<close>

definition getDefaultFieldsToUnpack :: "string list" where
  "getDefaultFieldsToUnpack =
     [''cluster.feature_usage'',
      ''cluster.validations_info'',
      ''cluster.connectivity_majority_groups'',
      ''cluster.hosts[*].inventory'',
      ''cluster.hosts[*].connectivity'',
      ''cluster.hosts[*].disks_info'',
      ''cluster.hosts[*].domain_name_resolutions'',
      ''cluster.hosts[*].free_addresses'',
      ''cluster.hosts[*].images_status'',
      ''cluster.hosts[*].ntp_sources'',
      ''cluster.hosts[*].validations_info'']"

definition getDefaultFieldsMapToListDropKey :: "string list" where
  "getDefaultFieldsMapToListDropKey = [''cluster.feature_usage'']"

definition getDefaultFieldsMapToList :: "string list" where
  "getDefaultFieldsMapToList =
     [''cluster.connectivity_majority_groups'',
      ''cluster.hosts[*].disks_info'',
      ''cluster.hosts[*].images_status'']"

definition getDefaultFieldsToDelete :: "string list" where
  "getDefaultFieldsToDelete =
     [''cluster.pull_secret'',
      ''cluster.ssh_public_key'',
      ''cluster.hosts[*].infra_env.ssh_authorized_key'',
      ''infra_envs[*].ssh_authorized_key'']"

definition getDefaultFieldsToAnonymize :: "string gomap" where
  "getDefaultFieldsToAnonymize = mfold
     [(''cluster.user_name'', ''cluster.user_id''),
      (''cluster.hosts[*].user_name'', ''cluster.hosts[*].user_id''),
      (''cluster.hosts[*].infra_env.user_name'', ''cluster.hosts[*].infra_env.user_id''),
      (''infra_envs[*].user_name'', ''infra_envs[*].user_id'')] []"

section \<open>transform.go and anonymize.go\<close>

definition unpackJson :: "json_lib \<Rightarrow> string \<Rightarrow> string list \<Rightarrow> string" where
  "unpackJson L jsonBytes paths = Transform L jsonBytes paths (\<lambda>unpacked. Some unpacked)"

text \<open>A slice that was never appended to is nil, and nil is printed as null.\<close>

definition json_slice :: "json list \<Rightarrow> json" where
  "json_slice vs = (if vs = [] then JNull else JArr vs)"

definition mapToListDropKey :: "range_order \<Rightarrow> json \<Rightarrow> json option" where
  "mapToListDropKey ord unpacked =
     (case unpacked of
        JObj srcMap \<Rightarrow> Some (json_slice (map snd (map_range ord srcMap)))
      | _ \<Rightarrow> None)"

definition mapToListJsonDropKey :: "json_lib \<Rightarrow> range_order \<Rightarrow> string \<Rightarrow> string list \<Rightarrow> string" where
  "mapToListJsonDropKey L ord jsonBytes paths = Transform L jsonBytes paths (mapToListDropKey ord)"

definition list_item :: "string \<Rightarrow> json \<Rightarrow> json" where
  "list_item k v =
     (case v of
        JObj item \<Rightarrow> JObj (mput ''id'' (JStr k) item)
      | _ \<Rightarrow> JObj (mput ''value'' v (mput ''key'' (JStr k) [])))"

definition mapToList :: "range_order \<Rightarrow> json \<Rightarrow> json option" where
  "mapToList ord unpacked =
     (case unpacked of
        JObj srcMap \<Rightarrow> Some (json_slice (map (\<lambda>(k, v). list_item k v) (map_range ord srcMap)))
      | _ \<Rightarrow> None)"

definition mapToListJson :: "json_lib \<Rightarrow> range_order \<Rightarrow> string \<Rightarrow> string list \<Rightarrow> string" where
  "mapToListJson L ord jsonBytes paths = Transform L jsonBytes paths (mapToList ord)"

definition hash_sensitive :: "json \<Rightarrow> json option" where
  "hash_sensitive unpacked =
     (case unpacked of JStr sensitive \<Rightarrow> Some (JStr (md5_hex sensitive)) | _ \<Rightarrow> Some unpacked)"

text \<open>\<^verbatim>\<open>Transform\<close> gives no error, so the branch \<^verbatim>\<open>failed to anonymize\<close> is not reached.\<close>

definition anonymizeJson ::
  "json_lib \<Rightarrow> range_order \<Rightarrow> string \<Rightarrow> string gomap \<Rightarrow> (string \<times> edit_error option) go" where
  "anonymizeJson L ord jsonBytes paths =
     Rename L ord (Transform L jsonBytes (map fst (map_range ord paths)) hash_sensitive) paths"

section \<open>utils.go and errors.go\<close>

datatype process_error =
    MalformedEventError string json
  | PathDoesNotExistError string

text \<open>The text of the error is made of the key and of the payload.\<close>

definition GetValueFromPayload :: "string \<Rightarrow> json \<Rightarrow> process_error + string" where
  "GetValueFromPayload key payload =
     (case payload of
        JObj m \<Rightarrow>
          (case mget m key of
             Some (JStr v) \<Rightarrow> Inr v
           | _ \<Rightarrow> Inl (MalformedEventError key payload))
      | _ \<Rightarrow> Inl (MalformedEventError key payload))"

section \<open>event_enricher.go\<close>

record event_enricher =
  en_fieldsToUnpack :: "string list"
  en_fieldsMapToList :: "string list"
  en_fieldsMapToListDropKey :: "string list"
  en_fieldsToDelete :: "string list"
  en_fieldsToAnonymize :: "string gomap"

definition NewEventEnricher :: event_enricher where
  "NewEventEnricher =
     \<lparr> en_fieldsToUnpack = getDefaultFieldsToUnpack,
       en_fieldsMapToList = getDefaultFieldsMapToList,
       en_fieldsMapToListDropKey = getDefaultFieldsMapToListDropKey,
       en_fieldsToDelete = getDefaultFieldsToDelete,
       en_fieldsToAnonymize = getDefaultFieldsToAnonymize \<rparr>"

text \<open>What \<^verbatim>\<open>json.Unmarshal\<close> leaves in a zero \<^verbatim>\<open>EnrichedEvent\<close>; its error is only logged.\<close>

definition getEnrichedEventFromJson :: "string \<Rightarrow> enriched_event" where
  "getEnrichedEventFromJson eventJson =
     (case json_parse eventJson of
        None \<Rightarrow> zero_enriched
      | Some t \<Rightarrow> fst (decode_enriched zero_enriched t))"

definition addHostsSummaryJson :: "process_env \<Rightarrow> string \<Rightarrow> string" where
  "addHostsSummaryJson env eventJson =
     (case json_Marshal (enriched_json (AddHostsSummary (pe_range env) (getEnrichedEventFromJson eventJson))) of
        Some outJson \<Rightarrow> outJson
      | None \<Rightarrow> [])"

definition getTransformedEvent :: "process_env \<Rightarrow> event_enricher \<Rightarrow> enriched_event \<Rightarrow> enriched_event go" where
  "getTransformedEvent env e enrichedEvent =
     (let L = pe_lib env; ord = pe_range env in
      case json_Marshal (enriched_json enrichedEvent) of
        None \<Rightarrow> Return enrichedEvent
      | Some originalJson \<Rightarrow>
          let unpackedJson = unpackJson L originalJson (en_fieldsToUnpack e);
              transformedJson = mapToListJsonDropKey L ord unpackedJson (en_fieldsMapToListDropKey e);
              transformedJson2 = mapToListJson L ord transformedJson (en_fieldsMapToList e)
          in go_bind (anonymizeJson L ord transformedJson2 (en_fieldsToAnonymize e))
               (\<lambda>(anonymizedJson, err).
                  let deletedJson = fst (Delete L anonymizedJson (en_fieldsToDelete e));
                      withHostsSummaryJson = addHostsSummaryJson env deletedJson
                  in Return (getEnrichedEventFromJson withHostsSummaryJson)))"

definition getVersionsFromMetadata :: "jobject option \<Rightarrow> jobject option" where
  "getVersionsFromMetadata metadata =
     (case mget (case metadata of Some m \<Rightarrow> m | None \<Rightarrow> []) ''versions'' of
        Some (JObj versionsMap) \<Rightarrow>
          (case mget versionsMap ''versions'' of
             Some (JObj innerVersionsMap) \<Rightarrow> Some innerVersionsMap
           | _ \<Rightarrow> Some versionsMap)
      | _ \<Rightarrow> None)"

definition getReleaseTagFromMetadata :: "jobject option \<Rightarrow> string option" where
  "getReleaseTagFromMetadata metadata =
     (case mget (case metadata of Some m \<Rightarrow> m | None \<Rightarrow> []) ''versions'' of
        Some (JObj versionsMap) \<Rightarrow>
          (case mget versionsMap ''release_tag'' of
             Some (JStr releaseTag) \<Rightarrow> Some releaseTag
           | _ \<Rightarrow> None)
      | _ \<Rightarrow> None)"

text \<open>
  Comparison of two interface values: two maps or two slices panic, as they cannot be
  compared; zeros are equal whatever their sign.
\<close>

definition iface_eq :: "json \<Rightarrow> json \<Rightarrow> bool go" where
  "iface_eq a b =
     (case (a, b) of
        (JObj x, JObj y) \<Rightarrow> Panic
      | (JArr x, JArr y) \<Rightarrow> Panic
      | (JNum (F_fin s m e), JNum (F_fin t n f)) \<Rightarrow>
          Return ((m = 0 \<and> n = 0) \<or> F_fin s m e = F_fin t n f)
      | _ \<Rightarrow> Return (a = b))"

text \<open>
  The loop over the infra-envs for one host; \<^verbatim>\<open>infraEnv["id"]\<close> is nil when there is no
  such key or the map is nil. The last infra-env with the host's id stays.
\<close>

definition embed_infra_envs :: "jobject option list \<Rightarrow> json \<Rightarrow> jobject \<Rightarrow> jobject go" where
  "embed_infra_envs infraEnvs infraEnvID host =
     foldl (\<lambda>acc infraEnv. go_bind acc (\<lambda>h.
         go_bind (iface_eq (case mget (case infraEnv of Some m \<Rightarrow> m | None \<Rightarrow> []) ''id'' of
                              Some v \<Rightarrow> v | None \<Rightarrow> JNull) infraEnvID)
           (\<lambda>eq. Return (if eq then mput ''infra_env'' (opt_json JObj infraEnv) h else h))))
       (Return host) infraEnvs"

fun getHostsWithEmbeddedInfraEnv ::
  "jobject option list \<Rightarrow> jobject option list \<Rightarrow> jobject option list go" where
  "getHostsWithEmbeddedInfraEnv [] infraEnvs = Return []"
| "getHostsWithEmbeddedInfraEnv (host # hosts) infraEnvs =
     go_bind
       (case host of
          None \<Rightarrow> Return None
        | Some h \<Rightarrow>
            (case mget h ''infra_env_id'' of
               None \<Rightarrow> Return (Some h)
             | Some infraEnvID \<Rightarrow> go_bind (embed_infra_envs infraEnvs infraEnvID h) (\<lambda>h'. Return (Some h'))))
       (\<lambda>h'. go_bind (getHostsWithEmbeddedInfraEnv hosts infraEnvs) (\<lambda>hs. Return (h' # hs)))"

text \<open>
  \<^verbatim>\<open>props\<close> is decoded into an empty map; what was decoded before an error is kept, and
  the error is only logged.
\<close>

definition getProps :: "json \<Rightarrow> jobject option" where
  "getProps eventPayload =
     (case eventPayload of
        JObj payload \<Rightarrow>
          (case mget payload ''props'' of
             Some (JStr p) \<Rightarrow> fst (Unmarshal_map (Some []) p)
           | _ \<Rightarrow> Some [])
      | _ \<Rightarrow> Some [])"

text \<open>The hosts as the value of \<^verbatim>\<open>cluster["hosts"]\<close>: the slice without hosts is nil.\<close>

definition hosts_json :: "jobject option list \<Rightarrow> json" where
  "hosts_json hosts = json_slice (map (opt_json JObj) hosts)"

definition uuid_namespace :: string where
  "uuid_namespace = ''abcdefghilmnopqr''"

text \<open>The payload without \<^verbatim>\<open>ID\<close>, printed and decoded into the event.\<close>

definition decode_payload :: "enriched_event \<Rightarrow> json \<Rightarrow> enriched_event option" where
  "decode_payload ev payload =
     (case json_Marshal (case payload of JObj m \<Rightarrow> JObj (mdel ''ID'' m) | _ \<Rightarrow> JNull) of
        None \<Rightarrow> None
      | Some eventBytes \<Rightarrow>
          Some (case json_parse eventBytes of
                  None \<Rightarrow> ev
                | Some t \<Rightarrow> fst (decode_enriched ev t)))"

text \<open>
  The namespace has sixteen bytes, so \<^verbatim>\<open>uuid.FromBytes\<close> gives no error. When the payload
  cannot be printed the event is returned as it is; a nil \<^verbatim>\<open>cluster\<close> panics, since a nil
  map cannot be assigned to.
\<close>

definition GetBaseEnrichedEvent ::
  "process_env \<Rightarrow> event \<Rightarrow> jobject option \<Rightarrow> jobject option list \<Rightarrow> jobject option list \<Rightarrow> enriched_event go" where
  "GetBaseEnrichedEvent env event cluster hosts infraEnvs =
     (let ev0 = zero_enriched \<lparr> ee_properties := getProps (ev_payload event) \<rparr> in
      case decode_payload ev0 (ev_payload event) of
        None \<Rightarrow> Return ev0
      | Some ev1 \<Rightarrow>
          go_bind (getHostsWithEmbeddedInfraEnv hosts infraEnvs) (\<lambda>hosts'.
            case cluster of
              None \<Rightarrow> Panic
            | Some c \<Rightarrow>
                Return (ev1 \<lparr> ee_id := pe_uuid_sha1 env uuid_namespace (ee_message ev1 @ ee_event_time ev1),
                  ee_versions := getVersionsFromMetadata (ev_metadata event),
                  ee_release_tag := getReleaseTagFromMetadata (ev_metadata event),
                  ee_cluster := Some (mput ''hosts'' (hosts_json hosts') c),
                  ee_infra_envs := infraEnvs \<rparr>)))"

definition GetEnrichedEvent ::
  "process_env \<Rightarrow> event_enricher \<Rightarrow> event \<Rightarrow> jobject option \<Rightarrow> jobject option list \<Rightarrow> jobject option list
     \<Rightarrow> enriched_event go" where
  "GetEnrichedEvent env e event cluster hosts infraEnvs =
     go_bind (GetBaseEnrichedEvent env event cluster hosts infraEnvs) (getTransformedEvent env e)"

section \<open>A concrete environment\<close>

definition sample_env :: process_env where
  "sample_env = \<lparr> pe_lib = tree_lib, pe_uuid_sha1 = (\<lambda>ns d. ns @ d), pe_range = (\<lambda>ks. ks) \<rparr>"

lemma sample_env_ok: "json_edit_lib (pe_lib sample_env)" "range_ok (pe_range sample_env)"
  by (simp_all add: sample_env_def tree.json_edit_lib_axioms range_ok_id)

end
