(* ===== verification/EventJson.thy ===== *)
theory EventJson
  imports Types
begin

text \<open>
  The enriched event and its JSON value. \<open>value_event\<close> reads an enriched event off a
  value by lookups alone; decoding a text that stands for the value gives the same event
  (the hosts summary aside), whatever the order of the members in the text. Decoding what
  was printed for an event gives the event back.
\<close>

section \<open>Members of a struct\<close>

lemma filter_key:
  "distinct (map fst kvs) \<Longrightarrow>
     map snd (filter (\<lambda>p. fst p = n) kvs) = (case mget kvs n of None \<Rightarrow> [] | Some v \<Rightarrow> [v])"
proof (induction kvs)
  case (Cons p kvs)
  show ?case
  proof (cases "fst p = n")
    case True
    then have "n \<notin> set (map fst kvs)" using Cons.prems by auto
    then have "filter (\<lambda>p. fst p = n) kvs = []" by (auto simp: filter_empty_conv)
    with True show ?thesis by simp
  next
    case False
    with Cons show ?thesis by simp
  qed
qed simp

lemma field_members_exact:
  assumes "distinct (map fst kvs)" "set (map fst kvs) \<subseteq> set names"
  shows "field_members names n kvs = (case mget kvs n of None \<Rightarrow> [] | Some v \<Rightarrow> [v])"
proof -
  have "filter (\<lambda>p. field_of names (fst p) = Some n) kvs = filter (\<lambda>p. fst p = n) kvs"
    using assms(2) by (intro filter_cong) (auto simp: field_of_def)
  then show ?thesis using filter_key [OF assms(1)] by (simp add: field_members_def)
qed

lemma decode_field_simps [simp]:
  "decode_field dec x [] = (x, False)" "decode_field dec x [v] = dec x v"
  by (simp_all add: decode_field_def split: prod.split)

lemma mget_canon_obj:
  "distinct (map fst kvs) \<Longrightarrow>
     mget (mfold (map (\<lambda>p. (fst p, f (snd p))) kvs) []) n = map_option f (mget kvs n)"
proof -
  assume d: "distinct (map fst kvs)"
  have "mget (map (\<lambda>p. (fst p, f (snd p))) kvs) n = map_option f (mget kvs n)"
    by (induction kvs) auto
  with d show ?thesis by (simp add: mget_mfold comp_def split: option.split)
qed

section \<open>Reading an event off a value\<close>

definition field_json :: "json \<Rightarrow> string \<Rightarrow> json option" where
  "field_json v n = jget [n] v"

definition json_text :: "json option \<Rightarrow> string" where
  "json_text v = (case v of Some (JStr s) \<Rightarrow> s | _ \<Rightarrow> [])"

definition json_obj :: "json \<Rightarrow> jobject option" where
  "json_obj v = (case v of JObj m \<Rightarrow> Some m | _ \<Rightarrow> None)"

definition json_tag :: "json option \<Rightarrow> string option" where
  "json_tag v =
     (case v of None \<Rightarrow> None | Some JNull \<Rightarrow> None | Some (JStr s) \<Rightarrow> Some s | Some _ \<Rightarrow> Some [])"

definition value_event :: "json \<Rightarrow> enriched_event" where
  "value_event v =
     (let fld = field_json v in
      \<lparr> ee_id = json_text (fld ''id''),
        ee_message = json_text (fld ''message''),
        ee_category = json_text (fld ''category''),
        ee_cluster_id = json_text (fld ''cluster_id''),
        ee_event_time = json_text (fld ''event_time''),
        ee_hosts_summary = None,
        ee_name = json_text (fld ''name''),
        ee_request_id = json_text (fld ''request_id''),
        ee_severity = json_text (fld ''severity''),
        ee_properties = Option.bind (jget [''event'', ''props''] v) json_obj,
        ee_cluster = Option.bind (fld ''cluster'') json_obj,
        ee_infra_envs = (case fld ''infra_envs'' of Some (JArr vs) \<Rightarrow> map json_obj vs | _ \<Rightarrow> []),
        ee_versions = Option.bind (fld ''versions'') json_obj,
        ee_release_tag = json_tag (fld ''release_tag'') \<rparr>)"

text \<open>The names of the members are those of the struct, exactly.\<close>

definition exact_keys :: "json \<Rightarrow> bool" where
  "exact_keys v =
     (case v of
        JObj m \<Rightarrow> set (map fst m) \<subseteq> set enriched_fields \<and>
          (case mget m ''event'' of
             Some (JObj em) \<Rightarrow> set (map fst em) \<subseteq> {''props''}
           | _ \<Rightarrow> True)
      | _ \<Rightarrow> False)"

lemma decode_string_canon: "fst (decode_string s (canon v)) = fst (decode_string s v)"
  by (cases v) (simp_all add: decode_string_def)

lemma mfold_canon_again:
  "mfold (map (\<lambda>p. (fst p, canon (snd p))) (mfold (map (\<lambda>p. (fst p, canon (snd p))) kvs) [])) []
   = mfold (map (\<lambda>p. (fst p, canon (snd p))) kvs) []"
  using canon_id [OF jcanon_canon [of "JObj kvs"]] by simp

lemma decode_map_obj:
  "jfinite (JObj kvs) \<Longrightarrow>
     decode_map None (JObj kvs) = (Some (mfold (map (\<lambda>p. (fst p, canon (snd p))) kvs) []), False)"
proof -
  assume f: "jfinite (JObj kvs)"
  then have "map (\<lambda>p. (fst p, decoded (snd p))) kvs = map (\<lambda>p. (fst p, canon (snd p))) kvs"
    by (simp add: decoded_finite)
  with f show ?thesis by (simp add: decode_map_def del: map_eq_conv)
qed

lemma decode_map_value:
  assumes "jfinite v"
  shows "fst (decode_map None v) = json_obj (canon v)"
proof (cases v)
  case (JObj kvs)
  then show ?thesis using decode_map_obj [of kvs] assms by (simp add: json_obj_def)
qed (simp_all add: decode_map_def json_obj_def)

lemma decode_maps_value:
  assumes "jfinite v"
  shows "fst (decode_maps [] v) = (case canon v of JArr vs \<Rightarrow> map json_obj vs | _ \<Rightarrow> [])"
proof (cases v)
  case (JArr vs)
  have "map (\<lambda>i. fst (decode_map None (vs ! i))) [0..<length vs] = map (\<lambda>x. fst (decode_map None x)) vs"
    by (rule nth_equalityI) simp_all
  also have "\<dots> = map (\<lambda>x. json_obj (canon x)) vs"
    using assms JArr by (simp add: decode_map_value)
  finally show ?thesis using JArr by (simp add: decode_maps_def Let_def comp_def)
qed (simp_all add: decode_maps_def)

lemma decode_string_text: "fst (decode_string [] v) = json_text (Some (canon v))"
  by (cases v) (simp_all add: decode_string_def json_text_def)

lemma decode_tag_value: "fst (decode_string_ptr None v) = json_tag (Some (canon v))"
  by (cases v) (simp_all add: decode_string_ptr_def json_tag_def)

lemma decode_embedded_value:
  assumes "jfinite v" "jdistinct v"
    "case canon v of JObj em \<Rightarrow> set (map fst em) \<subseteq> {''props''} | _ \<Rightarrow> True"
  shows "fst (decode_embedded None v) = Option.bind (jget [''props''] (canon v)) json_obj"
proof (cases v)
  case (JObj kvs)
  have d: "distinct (map fst kvs)" using assms(2) JObj by simp
  let ?m = "mfold (map (\<lambda>p. (fst p, canon (snd p))) kvs) []"
  have keys: "set (map fst kvs) \<subseteq> {''props''}"
  proof
    fix k assume "k \<in> set (map fst kvs)"
    then have "mget ?m k \<noteq> None" using d by (simp add: mget_canon_obj map_of_eq_None_iff)
    then have "k \<in> set (map fst ?m)" by (simp add: map_of_eq_None_iff)
    then show "k \<in> {''props''}" using assms(3) JObj by auto
  qed
  have fm: "field_members [''props''] ''props'' kvs = (case mget kvs ''props'' of None \<Rightarrow> [] | Some v \<Rightarrow> [v])"
    by (rule field_members_exact [OF d]) (use keys in simp)
  have fin: "jfinite w" if "mget kvs ''props'' = Some w" for w
    using mget_in_set [OF that] assms(1) JObj by fastforce
  show ?thesis
  proof (cases "mget kvs ''props''")
    case None
    then show ?thesis using JObj fm d by (simp add: decode_embedded_def mget_canon_obj)
  next
    case (Some w)
    then show ?thesis
      using JObj fm d fin by (simp add: decode_embedded_def mget_canon_obj decode_map_value)
  qed
qed (simp_all add: decode_embedded_def)

text \<open>Decoding a text that stands for a value.\<close>

lemma decode_value_event:
  assumes ok: "jfinite t" "jdistinct t" and ex: "exact_keys (canon t)"
  shows "(fst (decode_enriched zero_enriched t)) \<lparr> ee_hosts_summary := None \<rparr> = value_event (canon t)"
proof -
  obtain kvs where t: "t = JObj kvs" using ex by (cases t) (simp_all add: exact_keys_def)
  have d: "distinct (map fst kvs)" using ok(2) t by simp
  let ?m = "mfold (map (\<lambda>p. (fst p, canon (snd p))) kvs) []"
  have mg: "mget ?m n = map_option canon (mget kvs n)" for n by (rule mget_canon_obj [OF d])
  have "set (map fst kvs) \<subseteq> set enriched_fields"
  proof
    fix k assume "k \<in> set (map fst kvs)"
    then have "mget ?m k \<noteq> None" using mg by (simp add: map_of_eq_None_iff)
    then have "k \<in> set (map fst ?m)" by (simp add: map_of_eq_None_iff)
    then show "k \<in> set enriched_fields" using ex t by (auto simp: exact_keys_def)
  qed
  then have fm: "field_members enriched_fields n kvs = (case mget kvs n of None \<Rightarrow> [] | Some v \<Rightarrow> [v])" for n
    by (rule field_members_exact [OF d])
  have fin: "jfinite w" "jdistinct w" if "mget kvs n = Some w" for n w
    using mget_in_set [OF that] ok t by fastforce+
  have fld: "field_json (canon t) n = map_option canon (mget kvs n)" for n
    using mg [of n] t by (simp add: field_json_def split: option.split)
  have str: "fst (decode_field decode_string [] (field_members enriched_fields n kvs)) = json_text (field_json (canon t) n)" for n
    by (simp add: fm fld decode_string_text json_text_def split: option.split)
  have mp: "fst (decode_field decode_map None (field_members enriched_fields n kvs))
      = Option.bind (field_json (canon t) n) json_obj" for n
    by (simp add: fm fld decode_map_value [OF fin(1)] split: option.split)
  have ie: "fst (decode_field decode_maps [] (field_members enriched_fields n kvs))
      = (case field_json (canon t) n of Some (JArr vs) \<Rightarrow> map json_obj vs | _ \<Rightarrow> [])" for n
    by (simp add: fm fld decode_maps_value [OF fin(1)] split: option.split)
  have rt: "fst (decode_field decode_string_ptr None (field_members enriched_fields n kvs))
      = json_tag (field_json (canon t) n)" for n
    by (simp add: fm fld decode_tag_value split: option.split) (simp add: json_tag_def)
  have ev: "fst (decode_field decode_embedded None (field_members enriched_fields ''event'' kvs))
      = Option.bind (jget [''event'', ''props''] (canon t)) json_obj"
  proof (cases "mget kvs ''event''")
    case None
    then show ?thesis using mg [of "''event''"] t by (simp add: fm)
  next
    case (Some w)
    have "case canon w of JObj em \<Rightarrow> set (map fst em) \<subseteq> {''props''} | _ \<Rightarrow> True"
      using ex t mg [of "''event''"] Some by (auto simp: exact_keys_def split: json.splits)
    then show ?thesis
      using decode_embedded_value [OF fin [OF Some]] mg [of "''event''"] Some t by (simp add: fm)
  qed
  show ?thesis
    by (simp add: t decode_enriched_def zero_enriched_def value_event_def Let_def
        str [unfolded t] mp [unfolded t] ie [unfolded t] rt [unfolded t] ev [unfolded t] split: prod.split)
qed

section \<open>Reading back what was printed\<close>

definition wf_obj :: "jobject \<Rightarrow> bool" where
  "wf_obj m = jwf (JObj m)"

definition wf_summary :: "hosts_summary \<Rightarrow> bool" where
  "wf_summary h =
     (0 \<le> hs_host_count h \<and> hs_host_count h \<le> 2 ^ 53 \<and> valid_utf8 (hs_iso_type h) \<and>
      (case hs_infra_env h of
         None \<Rightarrow> True
       | Some m \<Rightarrow> msorted m \<and> (\<forall>p\<in>set m. valid_utf8 (fst p) \<and>
           (case snd p of None \<Rightarrow> True
            | Some c \<Rightarrow> msorted c \<and> (\<forall>q\<in>set c. valid_utf8 (fst q) \<and> wf64 (snd q))))))"

definition wf_event :: "enriched_event \<Rightarrow> bool" where
  "wf_event e =
     (list_all valid_utf8 [ee_id e, ee_message e, ee_category e, ee_cluster_id e, ee_event_time e,
        ee_name e, ee_request_id e, ee_severity e] \<and>
      pred_option wf_summary (ee_hosts_summary e) \<and>
      pred_option wf_obj (ee_properties e) \<and> pred_option wf_obj (ee_cluster e) \<and>
      list_all (pred_option wf_obj) (ee_infra_envs e) \<and>
      pred_option wf_obj (ee_versions e) \<and> pred_option valid_utf8 (ee_release_tag e))"

text \<open>An empty map of properties is not printed, and reads back as nil.\<close>

definition drop_empty_props :: "enriched_event \<Rightarrow> enriched_event" where
  "drop_empty_props e = (if ee_properties e = Some [] then e \<lparr> ee_properties := None \<rparr> else e)"

lemma valid_utf8_names [simp]:
  "list_all (\<lambda>c. byte c < 128) s \<Longrightarrow> valid_utf8 s"
  by (rule valid_utf8_ascii)

lemma jok_opt_json: "pred_option (\<lambda>x. jok (f x)) x \<Longrightarrow> jok (opt_json f x)"
  by (cases x) (simp_all add: opt_json_def)

lemma f64_of_int_exact:
  assumes "0 \<le> n" "n \<le> 2 ^ 53"
  obtains m e where "f64_of_int n = F_fin False m e" "wf64 (F_fin False m e)" "val64 (F_fin False m e) = of_int n"
proof -
  have "nat n \<le> 2 ^ 53" using assms(2) by (simp add: nat_le_iff)
  moreover have "(of_nat (nat n) :: rat) = of_int n" using assms(1) by simp
  ultimately show thesis using f64_of_nat_exact [of "nat n"] assms(1) that by auto
qed

lemma wf_f64_of_nat: "0 \<le> n \<Longrightarrow> n \<le> 2 ^ 53 \<Longrightarrow> wf64 (f64_of_int n)"
  by (metis f64_of_int_exact)

lemma decode_int_exact:
  assumes "0 \<le> n" "n \<le> 2 ^ 53"
  shows "decode_int i (JNum (f64_of_int n)) = (n, False)"
proof -
  obtain m e where "f64_of_int n = F_fin False m e" "val64 (F_fin False m e) = of_int n"
    using f64_of_int_exact [OF assms] by metis
  then show ?thesis using assms by (simp add: decode_int_def Let_def)
qed

lemma jok_summary_json: "wf_summary h \<Longrightarrow> jok (summary_json h)"
  by (auto simp: summary_json_def wf_summary_def counts_json_def opt_json_def wf_f64_of_nat byte_def
      split: option.split option.splits)

lemma decode_counts:
  assumes "msorted c" "\<forall>q\<in>set c. wf64 (snd q)"
  shows "decode_map_of decode_f64 f64_zero None (counts_json c) = (Some c, False)"
proof -
  have "map (\<lambda>p. (fst p, fst (decode_f64 f64_zero (snd p)))) (map (\<lambda>p. (fst p, JNum (snd p))) c) = c"
    using assms(2) by (induction c) (auto simp: decode_f64_def jok_jfinite)
  moreover have "\<not> list_ex (\<lambda>p. snd (decode_f64 f64_zero (snd p))) (map (\<lambda>p. (fst p, JNum (snd p))) c)"
    using assms(2) by (auto simp: list_ex_iff decode_f64_def jok_jfinite)
  ultimately show ?thesis
    using mfold_sorted [OF assms(1)] by (simp add: decode_map_of_def counts_json_def)
qed

lemma decode_count_maps:
  assumes "msorted m" "\<forall>p\<in>set m. case snd p of None \<Rightarrow> True
      | Some c \<Rightarrow> msorted c \<and> (\<forall>q\<in>set c. wf64 (snd q))"
  shows "decode_map_of (decode_map_of decode_f64 f64_zero) None None
      (JObj (map (\<lambda>p. (fst p, opt_json counts_json (snd p))) m)) = (Some m, False)"
proof -
  let ?dec = "decode_map_of decode_f64 f64_zero None"
  have d: "?dec (opt_json counts_json (snd p)) = (snd p, False)" if "p \<in> set m" for p
    using assms(2) that decode_counts
    by (cases "snd p") (force simp: opt_json_def decode_map_of_def)+
  have "map (\<lambda>p. (fst p, fst (?dec (snd p)))) (map (\<lambda>p. (fst p, opt_json counts_json (snd p))) m) = m"
    using d by (auto simp: comp_def intro!: map_idI)
  moreover have "\<not> list_ex (\<lambda>p. snd (?dec (snd p))) (map (\<lambda>p. (fst p, opt_json counts_json (snd p))) m)"
    using d by (auto simp: list_ex_iff)
  ultimately show ?thesis
    using mfold_sorted [OF assms(1)] by (simp add: decode_map_of_def)
qed

lemma decode_summary_json:
  assumes "wf_summary h"
  shows "decode_summary None (summary_json h) = (Some h, False)"
proof -
  let ?kvs = "[(''heterogeneous_arch'', JBool (hs_heterogeneous h)),
      (''host_count'', JNum (f64_of_int (hs_host_count h))),
      (''infra_env'', opt_json (\<lambda>m. JObj (map (\<lambda>p. (fst p, opt_json counts_json (snd p))) m)) (hs_infra_env h)),
      (''iso_type'', JStr (hs_iso_type h))]"
  have fm: "field_members summary_fields n ?kvs = (case mget ?kvs n of None \<Rightarrow> [] | Some v \<Rightarrow> [v])" for n
    by (rule field_members_exact) (simp_all add: summary_fields_def)
  have inf: "decode_map_of (decode_map_of decode_f64 f64_zero) None None
      (opt_json (\<lambda>m. JObj (map (\<lambda>p. (fst p, opt_json counts_json (snd p))) m)) (hs_infra_env h))
      = (hs_infra_env h, False)"
  proof (cases "hs_infra_env h")
    case None
    then show ?thesis by (simp add: opt_json_def decode_map_of_def)
  next
    case (Some m)
    have "msorted m" "\<forall>p\<in>set m. case snd p of None \<Rightarrow> True
        | Some c \<Rightarrow> msorted c \<and> (\<forall>q\<in>set c. wf64 (snd q))"
      using assms Some by (auto simp: wf_summary_def split: option.splits)
    with Some decode_count_maps [of m] show ?thesis by (simp add: opt_json_def)
  qed
  have int: "decode_int 0 (JNum (f64_of_int (hs_host_count h))) = (hs_host_count h, False)"
    by (rule decode_int_exact) (use assms in \<open>simp_all add: wf_summary_def\<close>)
  show ?thesis
    by (simp add: decode_summary_def summary_json_def fm zero_summary_def inf int
        decode_bool_def decode_string_def del: decode_int_def)
qed

lemma wf_obj_facts:
  assumes "wf_obj m"
  shows "jok (JObj m)" "msorted m" "jdistinct (JObj m)" "jcanon (JObj m)"
  using assms by (auto simp: wf_obj_def jwf_def jcanon_distinct [of "JObj m", simplified])

lemma decode_map_wf: "pred_option wf_obj m \<Longrightarrow> decode_map None (opt_json JObj m) = (m, False)"
proof (cases m)
  case (Some x)
  assume "pred_option wf_obj m"
  with Some have "wf_obj x" by simp
  note w = wf_obj_facts(1,4) [OF this]
  then have "map (\<lambda>p. (fst p, canon (snd p))) x = x"
    by (intro map_idI) (auto simp: prod_eq_iff canon_id)
  moreover have "mfold x [] = x" using w(2) by (simp add: mfold_sorted)
  ultimately show ?thesis
    using Some decode_map_obj [OF jok_jfinite [OF w(1)]] by (simp add: opt_json_def)
qed (simp add: opt_json_def decode_map_def)

lemma decode_maps_wf:
  assumes "list_all (pred_option wf_obj) ms"
  shows "decode_maps [] (JArr (map (opt_json JObj) ms)) = (ms, False)"
proof -
  have d: "decode_map None (map (opt_json JObj) ms ! i) = (ms ! i, False)" if "i < length ms" for i
    using assms that by (simp add: decode_map_wf list_all_length)
  then have "map (\<lambda>i. decode_map None (map (opt_json JObj) ms ! i)) [0..<length ms]
      = map (\<lambda>x. (x, False)) ms"
    by (intro nth_equalityI) simp_all
  then show ?thesis by (simp add: decode_maps_def Let_def comp_def list_ex_iff)
qed

lemma decode_props_wf:
  assumes "pred_option wf_obj m"
  shows "decode_embedded None (props_json m) = (if m = Some [] then None else m, False)"
proof (cases "m = None \<or> m = Some []")
  case True
  then show ?thesis by (auto simp: props_json_def decode_embedded_def field_members_def)
next
  case False
  then obtain x where x: "m = Some x" "x \<noteq> []" by auto
  then have "decode_map None (JObj x) = (Some x, False)"
    using decode_map_wf [OF assms] by (simp add: opt_json_def)
  then show ?thesis
    using x by (simp add: props_json_def decode_embedded_def field_members_def field_of_def)
qed

definition enriched_members :: "enriched_event \<Rightarrow> (string \<times> json) list" where
  "enriched_members e = (case enriched_json e of JObj kvs \<Rightarrow> kvs | _ \<Rightarrow> [])"

lemma enriched_json_members: "enriched_json e = JObj (enriched_members e)"
  by (simp add: enriched_members_def enriched_json_def)

lemma enriched_members_keys:
  "distinct (map fst (enriched_members e))" "set (map fst (enriched_members e)) \<subseteq> set enriched_fields"
  by (auto simp: enriched_members_def enriched_json_def enriched_fields_def split: option.split)

lemma mget_enriched:
  "mget (enriched_members e) ''id'' = Some (JStr (ee_id e))"
  "mget (enriched_members e) ''message'' = Some (JStr (ee_message e))"
  "mget (enriched_members e) ''category'' = Some (JStr (ee_category e))"
  "mget (enriched_members e) ''cluster_id'' = Some (JStr (ee_cluster_id e))"
  "mget (enriched_members e) ''event_time'' = Some (JStr (ee_event_time e))"
  "mget (enriched_members e) ''host_summary'' = Some (opt_json summary_json (ee_hosts_summary e))"
  "mget (enriched_members e) ''name'' = Some (JStr (ee_name e))"
  "mget (enriched_members e) ''request_id'' = Some (JStr (ee_request_id e))"
  "mget (enriched_members e) ''severity'' = Some (JStr (ee_severity e))"
  "mget (enriched_members e) ''event'' = Some (props_json (ee_properties e))"
  "mget (enriched_members e) ''cluster'' = Some (opt_json JObj (ee_cluster e))"
  "mget (enriched_members e) ''infra_envs'' =
     (if ee_infra_envs e = [] then None else Some (JArr (map (opt_json JObj) (ee_infra_envs e))))"
  "mget (enriched_members e) ''versions'' = Some (opt_json JObj (ee_versions e))"
  "mget (enriched_members e) ''release_tag'' = map_option JStr (ee_release_tag e)"
  by (simp_all add: enriched_members_def enriched_json_def split: option.split)

lemma jok_props: "pred_option wf_obj m \<Longrightarrow> jok (props_json m)"
proof (cases m)
  case (Some x)
  assume "pred_option wf_obj m"
  with Some have "wf_obj x" by simp
  note wf_obj_facts(1) [OF this]
  with Some show ?thesis by (simp add: props_json_def byte_def)
qed (simp add: props_json_def)

lemma jok_enriched_json:
  assumes "wf_event e"
  shows "jok (enriched_json e)"
proof -
  have "jok (opt_json summary_json (ee_hosts_summary e))" "jok (opt_json JObj (ee_cluster e))"
    "jok (opt_json JObj (ee_versions e))"
    using assms by (auto simp: wf_event_def intro!: jok_opt_json elim!: option.pred_mono_strong
        dest: jok_summary_json wf_obj_facts)
  moreover have "\<forall>m\<in>set (ee_infra_envs e). jok (opt_json JObj m)"
    using assms by (auto simp: wf_event_def list_all_iff intro!: jok_opt_json elim!: option.pred_mono_strong
        dest: wf_obj_facts)
  moreover have "jok (props_json (ee_properties e))"
    using assms by (simp add: wf_event_def jok_props)
  ultimately show ?thesis
    using assms by (cases "ee_release_tag e") (auto simp: enriched_json_def wf_event_def byte_def)
qed

lemma decode_enriched_json:
  assumes "wf_event e"
  shows "decode_enriched zero_enriched (enriched_json e) = (drop_empty_props e, False)"
proof -
  have fm: "field_members enriched_fields n (enriched_members e)
      = (case mget (enriched_members e) n of None \<Rightarrow> [] | Some v \<Rightarrow> [v])" for n
    by (rule field_members_exact [OF enriched_members_keys])
  have hs: "decode_summary None (opt_json summary_json (ee_hosts_summary e)) = (ee_hosts_summary e, False)"
    using assms decode_summary_json by (cases "ee_hosts_summary e") (auto simp: wf_event_def opt_json_def decode_summary_def)
  have mp: "decode_map None (opt_json JObj (ee_cluster e)) = (ee_cluster e, False)"
    "decode_map None (opt_json JObj (ee_versions e)) = (ee_versions e, False)"
    using assms by (simp_all add: wf_event_def decode_map_wf)
  have ie: "decode_maps [] (JArr (map (opt_json JObj) (ee_infra_envs e))) = (ee_infra_envs e, False)"
    using assms by (simp add: wf_event_def decode_maps_wf)
  have pr: "decode_embedded None (props_json (ee_properties e))
      = (if ee_properties e = Some [] then None else ee_properties e, False)"
    using assms by (simp add: wf_event_def decode_props_wf)
  have rt: "decode_field decode_string_ptr None (field_members enriched_fields ''release_tag'' (enriched_members e))
      = (ee_release_tag e, False)"
    by (cases "ee_release_tag e") (simp_all add: fm mget_enriched decode_string_ptr_def)
  have ies: "decode_field decode_maps [] (field_members enriched_fields ''infra_envs'' (enriched_members e))
      = (ee_infra_envs e, False)"
    by (simp add: fm mget_enriched ie)
  note fld = fm [of "''id''", unfolded mget_enriched option.case] fm [of "''message''", unfolded mget_enriched option.case]
    fm [of "''category''", unfolded mget_enriched option.case] fm [of "''cluster_id''", unfolded mget_enriched option.case]
    fm [of "''event_time''", unfolded mget_enriched option.case] fm [of "''host_summary''", unfolded mget_enriched option.case]
    fm [of "''name''", unfolded mget_enriched option.case] fm [of "''request_id''", unfolded mget_enriched option.case]
    fm [of "''severity''", unfolded mget_enriched option.case] fm [of "''event''", unfolded mget_enriched option.case]
    fm [of "''cluster''", unfolded mget_enriched option.case] fm [of "''versions''", unfolded mget_enriched option.case]
  have "decode_enriched zero_enriched (enriched_json e) =
      (\<lparr> ee_id = ee_id e, ee_message = ee_message e, ee_category = ee_category e, ee_cluster_id = ee_cluster_id e,
         ee_event_time = ee_event_time e, ee_hosts_summary = ee_hosts_summary e, ee_name = ee_name e,
         ee_request_id = ee_request_id e, ee_severity = ee_severity e,
         ee_properties = (if ee_properties e = Some [] then None else ee_properties e), ee_cluster = ee_cluster e,
         ee_infra_envs = ee_infra_envs e, ee_versions = ee_versions e, ee_release_tag = ee_release_tag e \<rparr>, False)"
    by (simp add: enriched_json_members decode_enriched_def zero_enriched_def Let_def fld rt ies hs mp pr
        decode_string_def)
  then show ?thesis by (cases e) (simp add: drop_empty_props_def)
qed

text \<open>\<^verbatim>\<open>json.Marshal\<close> and \<^verbatim>\<open>json.Unmarshal\<close> of an enriched event.\<close>

lemma Marshal_enriched: "wf_event e \<Longrightarrow> json_Marshal (enriched_json e) = Some (jprint (enriched_json e))"
  by (simp add: json_Marshal_def jok_enriched_json jok_jfinite)

lemma parse_enriched: "wf_event e \<Longrightarrow> json_parse (jprint (enriched_json e)) = Some (enriched_json e)"
  by (rule json_parse_jprint) (rule jok_enriched_json)

lemma jdistinct_opt: "pred_option wf_obj m \<Longrightarrow> jdistinct (opt_json JObj m)"
  using wf_obj_facts(3) by (cases m) (simp_all add: opt_json_def del: jdistinct.simps(2))

lemma jdistinct_counts: "msorted c \<Longrightarrow> jdistinct (counts_json c)"
  by (auto simp: counts_json_def comp_def msorted_distinct)

lemma jdistinct_summary: "wf_summary h \<Longrightarrow> jdistinct (summary_json h)"
proof -
  assume h: "wf_summary h"
  have "jdistinct (opt_json (\<lambda>m. JObj (map (\<lambda>p. (fst p, opt_json counts_json (snd p))) m)) (hs_infra_env h))"
  proof (cases "hs_infra_env h")
    case (Some m)
    then have "msorted m" "\<forall>p\<in>set m. case snd p of None \<Rightarrow> True | Some c \<Rightarrow> msorted c"
      using h by (auto simp: wf_summary_def split: option.splits)
    then show ?thesis
      using Some by (auto simp: opt_json_def comp_def msorted_distinct jdistinct_counts split: option.splits)
  qed (simp add: opt_json_def)
  then show ?thesis by (simp add: summary_json_def)
qed

lemma jdistinct_enriched_json:
  assumes "wf_event e"
  shows "jdistinct (enriched_json e)"
proof -
  have "jdistinct (opt_json summary_json (ee_hosts_summary e))"
    using assms jdistinct_summary by (cases "ee_hosts_summary e") (auto simp: wf_event_def opt_json_def)
  moreover have "jdistinct (opt_json JObj (ee_cluster e))" "jdistinct (opt_json JObj (ee_versions e))"
    "\<forall>m\<in>set (ee_infra_envs e). jdistinct (opt_json JObj m)"
    using assms by (auto simp: wf_event_def list_all_iff intro: jdistinct_opt)
  moreover have "jdistinct (props_json (ee_properties e))"
  proof (cases "ee_properties e")
    case (Some m)
    then have "wf_obj m" using assms by (simp add: wf_event_def)
    from wf_obj_facts(3) [OF this] Some show ?thesis by (simp add: props_json_def)
  qed (simp add: props_json_def)
  moreover note enriched_members_keys(1) [of e]
  ultimately show ?thesis
    by (auto simp: enriched_members_def enriched_json_def split: option.split)
qed

end
