(* ===== verification/EnricherSpec.thy ===== *)
theory EnricherSpec
  imports Enricher EventJson
begin

text \<open>
  The enrichment on values. \<open>tree_pipeline\<close> is the chain of edits of
  \<^verbatim>\<open>getTransformedEvent\<close> on the JSON value of the event; \<open>shape\<close> is the invariant every
  edit keeps: the cluster is an object, its hosts and the infra-envs are lists without
  strings, and no host has a string for its infra-env. Under it every edit is in reach
  of the libraries' laws and nothing panics, so the text pipeline computes the value
  pipeline (\<open>getTransformedEvent_pipeline\<close>).
\<close>

section \<open>Shape\<close>

definition host_shape :: "json \<Rightarrow> bool" where
  "host_shape h =
     (\<not> is_JStr h \<and> (case jget [''infra_env''] h of Some w \<Rightarrow> \<not> is_JStr w | None \<Rightarrow> True))"

definition list_node :: "(json \<Rightarrow> bool) \<Rightarrow> json option \<Rightarrow> bool" where
  "list_node P w =
     (case w of
        None \<Rightarrow> True
      | Some u \<Rightarrow> (case u of JNull \<Rightarrow> True | JArr vs \<Rightarrow> \<forall>x\<in>set vs. P x | _ \<Rightarrow> False))"

definition shape :: "json \<Rightarrow> bool" where
  "shape v =
     (jwf v \<and> (case jget [''cluster''] v of Some c \<Rightarrow> is_JObj c | None \<Rightarrow> False) \<and>
      list_node host_shape (jget [''cluster'', ''hosts''] v) \<and>
      list_node (\<lambda>x. \<not> is_JStr x) (jget [''infra_envs''] v))"

text \<open>The paths of the program: a member of the cluster, of a host, or of an infra-env.\<close>

definition host_path :: "string list \<Rightarrow> bool" where
  "host_path ks =
     (case ks of
        [k] \<Rightarrow> k \<noteq> ''infra_env''
      | [a, k] \<Rightarrow> a = ''infra_env''
      | _ \<Rightarrow> False)"

definition cluster_path :: "string list \<Rightarrow> bool" where
  "cluster_path ks = (case ks of [a, k] \<Rightarrow> a = ''cluster'' \<and> k \<noteq> ''hosts'' | _ \<Rightarrow> False)"

definition program_path :: "string \<Rightarrow> bool" where
  "program_path p =
     (if isComplexPath p then
        (case split_path p of
           None \<Rightarrow> False
         | Some (a, b) \<Rightarrow> plain_path b \<and>
             (a = ''cluster.hosts'' \<and> host_path (segs b) \<or> a = ''infra_envs'' \<and> length (segs b) = 1))
      else plain_path p \<and> cluster_path (segs p))"

definition program_rename :: "string \<times> string \<Rightarrow> bool" where
  "program_rename sd = (program_path (fst sd) \<and> program_path (snd sd) \<and> rename_path sd \<and>
     map_option fst (split_path (fst sd)) = map_option fst (split_path (snd sd)))"

lemma parent_paths:
  "segs ''cluster.hosts'' = [''cluster'', ''hosts'']" "segs ''infra_envs'' = [''infra_envs'']"
  "plain_path ''cluster.hosts''" "plain_path ''infra_envs''"
  by code_simp+

lemma program_paths:
  "list_all program_path getDefaultFieldsToUnpack"
  "list_all program_path getDefaultFieldsMapToListDropKey"
  "list_all program_path getDefaultFieldsMapToList"
  "list_all program_path getDefaultFieldsToDelete"
  "list_all program_rename getDefaultFieldsToAnonymize"
  by code_simp+

lemma program_path_edit: "program_path p \<Longrightarrow> edit_path p"
  by (auto simp: program_path_def edit_path_def parent_paths split: option.splits if_splits)

lemma host_path_nonempty: "host_path ks \<Longrightarrow> ks \<noteq> []"
  by (auto simp: host_path_def)

lemma host_shape_jset: "host_shape h \<Longrightarrow> jwf h \<Longrightarrow> host_path ks \<Longrightarrow> host_shape (jset ks w h)"
proof -
  assume h: "host_shape h" "jwf h" and ks: "host_path ks"
  consider k where "ks = [k]" "k \<noteq> ''infra_env''" | k where "ks = [''infra_env'', k]"
    using ks by (auto simp: host_path_def split: list.splits)
  then show ?thesis
  proof cases
    case 1
    then show ?thesis
      using h jget_jset_apart [of h ks "[''infra_env'']" w]
      by (simp add: host_shape_def is_JStr_jset del: jget.simps jset.simps)
  next
    case 2
    then show ?thesis
      using h by (cases h) (auto simp: host_shape_def is_JStr_jset gomap_simps split: option.splits)
  qed
qed

lemma host_shape_jdel: "host_shape h \<Longrightarrow> jwf h \<Longrightarrow> host_path ks \<Longrightarrow> host_shape (jdel ks h)"
proof -
  assume h: "host_shape h" "jwf h" and ks: "host_path ks"
  consider k where "ks = [k]" "k \<noteq> ''infra_env''" | k where "ks = [''infra_env'', k]"
    using ks by (auto simp: host_path_def split: list.splits)
  then show ?thesis
  proof cases
    case 1
    then show ?thesis
      using h jget_jdel_apart [of h ks "[''infra_env'']"]
      by (simp add: host_shape_def is_JStr_jdel del: jget.simps jdel.simps)
  next
    case 2
    then show ?thesis
      using h by (cases h) (auto simp: host_shape_def is_JStr_jdel gomap_simps split: option.splits)
  qed
qed

lemma host_shape_transform:
  "host_shape h \<Longrightarrow> jwf h \<Longrightarrow> host_path ks \<Longrightarrow> host_shape (node_transform f ks h)"
  by (auto simp: node_transform_def host_shape_jset split: option.split)

lemma reread_jwf: "jwf w \<Longrightarrow> jwf (reread_node w)"
  by (simp add: reread_node_def unpack_node_jwf)

lemma host_shape_rename:
  assumes "host_shape h" "jwf h" "host_path ks" "host_path ls" "\<forall>k\<in>set ls. valid_utf8 k"
  shows "host_shape (node_rename ks ls h)"
proof (cases "jget ks h")
  case (Some w)
  have "jwf (jset ls (reread_node w) h)"
    using jset_jwf [OF assms(2) reread_jwf assms(5)] jget_jwf [OF assms(2) Some] by blast
  then show ?thesis
    using Some assms by (simp add: node_rename_def host_shape_jdel host_shape_jset)
qed (simp add: node_rename_def assms(1))

lemma is_JStr_node_rename: "ks \<noteq> [] \<Longrightarrow> ls \<noteq> [] \<Longrightarrow> is_JStr (node_rename ks ls v) = is_JStr v"
  by (auto simp: node_rename_def is_JStr_jset is_JStr_jdel split: option.split)

section \<open>Edits keep the shape\<close>

lemma shape_not_JStr: "shape v \<Longrightarrow> \<not> is_JStr v"
  by (cases v) (auto simp: shape_def)

lemma cluster_jset:
  assumes "jget [''cluster''] v = Some c" "is_JObj c" "jwf v"
  shows "case jget [''cluster''] (jset [''cluster'', k] w v) of Some c \<Rightarrow> is_JObj c | None \<Rightarrow> False"
  using assms by (cases v; cases c) (auto simp: gomap_simps split: option.splits)

lemma cluster_jdel:
  assumes "jget [''cluster''] v = Some c" "is_JObj c" "jwf v"
  shows "case jget [''cluster''] (jdel [''cluster'', k] v) of Some c \<Rightarrow> is_JObj c | None \<Rightarrow> False"
  using assms by (cases v; cases c) (auto simp: gomap_simps split: option.splits)

lemma shape_jset:
  assumes "shape v" "cluster_path ks" "jwf w" "\<forall>k\<in>set ks. valid_utf8 k"
  shows "shape (jset ks w v)"
proof -
  obtain k where ks: "ks = [''cluster'', k]" "k \<noteq> ''hosts''"
    using assms(2) by (auto simp: cluster_path_def split: list.splits)
  have wf: "jwf v" using assms(1) by (simp add: shape_def)
  have ap: "apart ks [''cluster'', ''hosts'']" "apart ks [''infra_envs'']" using ks by simp_all
  obtain c where c: "jget [''cluster''] v = Some c" "is_JObj c"
    using assms(1) by (auto simp: shape_def split: option.splits)
  have "case jget [''cluster''] (jset ks w v) of Some c \<Rightarrow> is_JObj c | None \<Rightarrow> False"
    unfolding ks(1) by (rule cluster_jset [OF c wf])
  then show ?thesis
    using assms(1) jget_jset_apart [OF wf ap(1)] jget_jset_apart [OF wf ap(2)] jset_jwf [OF wf assms(3,4)]
    by (simp add: shape_def del: jget.simps)
qed

lemma shape_jdel:
  assumes "shape v" "cluster_path ks" "\<forall>k\<in>set ks. valid_utf8 k"
  shows "shape (jdel ks v)"
proof -
  obtain k where ks: "ks = [''cluster'', k]" "k \<noteq> ''hosts''"
    using assms(2) by (auto simp: cluster_path_def split: list.splits)
  have wf: "jwf v" using assms(1) by (simp add: shape_def)
  have ap: "apart ks [''cluster'', ''hosts'']" "apart ks [''infra_envs'']" using ks by simp_all
  obtain c where c: "jget [''cluster''] v = Some c" "is_JObj c"
    using assms(1) by (auto simp: shape_def split: option.splits)
  have "case jget [''cluster''] (jdel ks v) of Some c \<Rightarrow> is_JObj c | None \<Rightarrow> False"
    unfolding ks(1) by (rule cluster_jdel [OF c wf])
  then show ?thesis
    using assms(1) jget_jdel_apart [OF wf ap(1)] jget_jdel_apart [OF wf ap(2)] jdel_jwf [OF wf assms(3)]
    by (simp add: shape_def del: jget.simps)
qed

text \<open>An edit of every item of a list.\<close>

definition on_items :: "string list \<Rightarrow> (json \<Rightarrow> json) \<Rightarrow> json \<Rightarrow> json" where
  "on_items ks g v = (case jget ks v of Some (JArr vs) \<Rightarrow> jset ks (JArr (map g vs)) v | _ \<Rightarrow> v)"

lemma node_transform_items:
  assumes "list_node P (jget ks v)"
  shows "node_transform (items_fn g) ks v = on_items ks g v"
  using assms
  by (auto simp: node_transform_def on_items_def items_fn_def unpack_node_def list_node_def
      split: option.splits json.splits)

lemma items_rename_items:
  assumes "list_node P (jget ks v)"
  shows "items_rename ks bs cs v = Some (on_items ks (node_rename bs cs) v)"
  using assms
  by (auto simp: items_rename_def on_items_def items_fn_def list_node_def split: option.splits json.splits)

lemma items_at_node: "list_node P (jget ks v) \<Longrightarrow> x \<in> set (items_at ks v) \<Longrightarrow> P x"
  by (auto simp: items_at_def list_node_def unpack_node_def split: option.splits json.splits)

lemma jget_on_items:
  assumes "jwf v" "ks \<noteq> []"
  shows "jget ks (on_items ks g v) =
    (case jget ks v of Some (JArr vs) \<Rightarrow> Some (JArr (map g vs)) | w \<Rightarrow> w)"
  using jget_jset_same [OF assms(1)] jget_settable [of ks v] assms(2)
  by (auto simp: on_items_def split: option.splits json.splits)

lemma jget_on_items_apart:
  "jwf v \<Longrightarrow> apart ks ls \<Longrightarrow> jget ls (on_items ks g v) = jget ls v"
  by (auto simp: on_items_def jget_jset_apart split: option.splits json.splits)

lemma on_items_jwf:
  assumes v: "jwf v" and ks: "\<forall>k\<in>set ks. valid_utf8 k"
    and l: "list_node P (jget ks v)" and g: "\<And>x. jwf x \<Longrightarrow> P x \<Longrightarrow> jwf (g x)"
  shows "jwf (on_items ks g v)"
proof (cases "\<exists>vs. jget ks v = Some (JArr vs)")
  case True
  then obtain vs where vs: "jget ks v = Some (JArr vs)" by blast
  have "jwf (JArr (map g vs))"
    using jget_jwf [OF v vs] l vs g by (auto simp: list_node_def)
  then show ?thesis using jset_jwf [OF v _ ks] vs by (simp add: on_items_def)
next
  case False
  then have "on_items ks g v = v" by (auto simp: on_items_def split: option.splits json.splits)
  then show ?thesis using v by simp
qed

lemma list_node_on_items:
  assumes "jwf v" "ks \<noteq> []" "list_node P (jget ks v)" "\<And>x. jwf x \<Longrightarrow> P x \<Longrightarrow> P (g x)"
  shows "list_node P (jget ks (on_items ks g v))"
proof -
  have "\<forall>x\<in>set vs. jwf x" if "jget ks v = Some (JArr vs)" for vs
    using jget_jwf [OF assms(1) that] by simp
  then show ?thesis
    using assms by (auto simp: jget_on_items list_node_def split: option.splits json.splits)
qed

lemma valid_utf8_words [simp]: "valid_utf8 ''cluster''" "valid_utf8 ''hosts''" "valid_utf8 ''infra_envs''"
  by (simp_all add: byte_def)

lemma shape_on_hosts:
  assumes s: "shape v" and g: "\<And>h. jwf h \<Longrightarrow> host_shape h \<Longrightarrow> jwf (g h) \<and> host_shape (g h)"
  shows "shape (on_items [''cluster'', ''hosts''] g v)"
proof -
  let ?ks = "[''cluster'', ''hosts'']"
  have wf: "jwf v" and l: "list_node host_shape (jget ?ks v)" using s by (simp_all add: shape_def)
  obtain c where c: "jget [''cluster''] v = Some c" "is_JObj c"
    using s by (auto simp: shape_def split: option.splits)
  have cl: "case jget [''cluster''] (on_items ?ks g v) of Some c \<Rightarrow> is_JObj c | None \<Rightarrow> False"
  proof (cases "\<exists>vs. jget ?ks v = Some (JArr vs)")
    case True
    then obtain vs where "jget ?ks v = Some (JArr vs)" by blast
    then have "on_items ?ks g v = jset ?ks (JArr (map g vs)) v" by (simp add: on_items_def)
    with cluster_jset [OF c wf] show ?thesis by metis
  next
    case False
    then have "on_items ?ks g v = v" by (auto simp: on_items_def split: option.splits json.splits)
    with c show ?thesis by simp
  qed
  have "jwf (on_items ?ks g v)" by (rule on_items_jwf [OF wf _ l]) (use g in auto)
  moreover have "list_node host_shape (jget ?ks (on_items ?ks g v))"
    by (rule list_node_on_items [OF wf _ l]) (use g in auto)
  moreover have "jget [''infra_envs''] (on_items ?ks g v) = jget [''infra_envs''] v"
    by (rule jget_on_items_apart [OF wf]) simp
  ultimately show ?thesis using s cl by (simp add: shape_def del: jget.simps)
qed

lemma shape_on_infra_envs:
  assumes s: "shape v" and g: "\<And>x. jwf x \<Longrightarrow> \<not> is_JStr x \<Longrightarrow> jwf (g x) \<and> \<not> is_JStr (g x)"
  shows "shape (on_items [''infra_envs''] g v)"
proof -
  let ?ks = "[''infra_envs'']"
  have wf: "jwf v" and l: "list_node (\<lambda>x. \<not> is_JStr x) (jget ?ks v)" using s by (simp_all add: shape_def)
  have "jwf (on_items ?ks g v)" by (rule on_items_jwf [OF wf _ l]) (use g in auto)
  moreover have "list_node (\<lambda>x. \<not> is_JStr x) (jget ?ks (on_items ?ks g v))"
    by (rule list_node_on_items [OF wf _ l]) (use g in auto)
  moreover have "jget [''cluster''] (on_items ?ks g v) = jget [''cluster''] v"
    "jget [''cluster'', ''hosts''] (on_items ?ks g v) = jget [''cluster'', ''hosts''] v"
    by (rule jget_on_items_apart [OF wf], simp)+
  ultimately show ?thesis using s by (simp add: shape_def del: jget.simps)
qed

section \<open>Edits along the paths of the program\<close>

lemma program_path_cases:
  assumes "program_path p"
  obtains (cluster) "\<not> isComplexPath p" "cluster_path (segs p)" "plain_path p" "edit_path p"
  | (hosts) b where "isComplexPath p" "split_path p = Some (''cluster.hosts'', b)" "host_path (segs b)" "plain_path b"
  | (infra) b where "isComplexPath p" "split_path p = Some (''infra_envs'', b)" "length (segs b) = 1" "plain_path b"
  using assms program_path_edit [OF assms] by (auto simp: program_path_def split: if_splits option.splits)

text \<open>How an edit that works item by item acts along a path of the program.\<close>

definition program_edit :: "(string list \<Rightarrow> json \<Rightarrow> json) \<Rightarrow> string \<Rightarrow> json \<Rightarrow> json" where
  "program_edit g p v =
     (if isComplexPath p then
        (case split_path p of Some (a, b) \<Rightarrow> on_items (segs a) (g (segs b)) v | None \<Rightarrow> v)
      else g (segs p) v)"

definition edit_ok :: "(string list \<Rightarrow> json \<Rightarrow> json) \<Rightarrow> bool" where
  "edit_ok g =
     (\<forall>ks v. jwf v \<longrightarrow> ks \<noteq> [] \<longrightarrow> (\<forall>k\<in>set ks. valid_utf8 k) \<longrightarrow>
        jwf (g ks v) \<and> is_JStr (g ks v) = is_JStr v \<and>
        (host_path ks \<longrightarrow> host_shape v \<longrightarrow> host_shape (g ks v)) \<and>
        (cluster_path ks \<longrightarrow> shape v \<longrightarrow> shape (g ks v)))"

lemma shape_program_edit:
  assumes g: "edit_ok g" and s: "shape v" and p: "program_path p"
  shows "shape (program_edit g p v)"
  using p
proof (cases rule: program_path_cases)
  case cluster
  have "jwf v" using s by (simp add: shape_def)
  then show ?thesis
    using g s cluster plain_segs_utf8 [OF cluster(3)] by (simp add: program_edit_def edit_ok_def)
next
  case (hosts b)
  have "shape (on_items [''cluster'', ''hosts''] (g (segs b)) v)"
    using g hosts plain_segs_utf8 [OF hosts(4)] by (intro shape_on_hosts [OF s]) (simp add: edit_ok_def)
  then show ?thesis using hosts by (simp add: program_edit_def parent_paths)
next
  case (infra b)
  have "shape (on_items [''infra_envs''] (g (segs b)) v)"
    using g infra plain_segs_utf8 [OF infra(4)] by (intro shape_on_infra_envs [OF s]) (simp add: edit_ok_def)
  then show ?thesis using infra by (simp add: program_edit_def parent_paths)
qed

lemma shape_lists:
  "shape v \<Longrightarrow> list_node host_shape (jget [''cluster'', ''hosts''] v)"
  "shape v \<Longrightarrow> list_node (\<lambda>x. \<not> is_JStr x) (jget [''infra_envs''] v)"
  by (simp_all add: shape_def)

lemma path_transform_program:
  assumes "shape v" "program_path p"
  shows "path_transform f p v = program_edit (node_transform f) p v"
  using assms(2)
  by (cases rule: program_path_cases)
    (simp_all add: path_transform_def program_edit_def parent_paths del: jget.simps
       add: node_transform_items [OF shape_lists(1) [OF assms(1)]]
         node_transform_items [OF shape_lists(2) [OF assms(1)]])

lemma path_delete_program:
  assumes "shape v" "program_path p"
  shows "path_delete p v = program_edit jdel p v"
  using assms(2)
  by (cases rule: program_path_cases)
    (simp_all add: path_delete_def program_edit_def parent_paths del: jget.simps jdel.simps
       add: node_transform_items [OF shape_lists(1) [OF assms(1)]]
         node_transform_items [OF shape_lists(2) [OF assms(1)]])

definition sibling :: "string \<times> string \<Rightarrow> string list" where
  "sibling sd =
     (if isComplexPath (snd sd)
      then (case split_path (snd sd) of Some (a, b) \<Rightarrow> segs b | None \<Rightarrow> [])
      else segs (snd sd))"

lemma path_rename_program:
  assumes s: "shape v" and p: "program_rename (p, q)"
  shows "path_rename (p, q) v = Some (program_edit (\<lambda>ks. node_rename ks (sibling (p, q))) p v)"
proof -
  have pp: "program_path p" "rename_path (p, q)" "map_option fst (split_path p) = map_option fst (split_path q)"
    using p by (simp_all add: program_rename_def)
  from pp(1) show ?thesis
  proof (cases rule: program_path_cases)
    case cluster
    have "\<not> isComplexPath q" using pp(2) cluster(1) by (simp add: rename_path_def)
    then show ?thesis using cluster(1) by (simp add: path_rename_def program_edit_def sibling_def)
  next
    case (hosts b)
    then obtain b' where "split_path q = Some (''cluster.hosts'', b')"
      using pp(3) by (cases "split_path q") auto
    moreover have "isComplexPath q" using pp(2) hosts(1,2) by (auto simp: rename_path_def split: option.splits)
    ultimately show ?thesis
      using hosts items_rename_items [OF shape_lists(1) [OF s]]
      by (simp add: path_rename_def program_edit_def parent_paths sibling_def del: jget.simps)
  next
    case (infra b)
    then obtain b' where "split_path q = Some (''infra_envs'', b')"
      using pp(3) by (cases "split_path q") auto
    moreover have "isComplexPath q" using pp(2) infra(1,2) by (auto simp: rename_path_def split: option.splits)
    ultimately show ?thesis
      using infra items_rename_items [OF shape_lists(2) [OF s]]
      by (simp add: path_rename_def program_edit_def parent_paths sibling_def del: jget.simps)
  qed
qed

section \<open>The three kinds of edit\<close>

lemma cluster_path_nonempty: "cluster_path ks \<Longrightarrow> ks \<noteq> []"
  by (auto simp: cluster_path_def)

lemma edit_ok_transform: "fn_ok f \<Longrightarrow> edit_ok (node_transform f)"
proof -
  assume f: "fn_ok f"
  have "shape (node_transform f ks v)"
    if v: "shape v" "cluster_path ks" "\<forall>k\<in>set ks. valid_utf8 k" for ks v
  proof (cases "node_transform f ks v = v")
    case False
    then obtain w w' where w: "jget ks v = Some w" "f (unpack_node w) = Some w'"
      "node_transform f ks v = jset ks w' v"
      by (auto simp: node_transform_def split: option.splits if_splits)
    have "jwf v" using v(1) by (simp add: shape_def)
    then have "jwf w'" using f w(2) unpack_node_jwf [OF jget_jwf [OF _ w(1)]] by (auto simp: fn_ok_def)
    then show ?thesis using shape_jset v w(3) by simp
  qed (use v in simp)
  then show ?thesis
    using f by (simp add: edit_ok_def node_transform_jwf is_JStr_node_transform host_shape_transform)
qed

lemma edit_ok_jdel: "edit_ok jdel"
  by (simp add: edit_ok_def jdel_jwf is_JStr_jdel host_shape_jdel shape_jdel)

lemma shape_rename:
  assumes "shape v" "cluster_path ks" "cluster_path ls" "\<forall>k\<in>set ks. valid_utf8 k" "\<forall>k\<in>set ls. valid_utf8 k"
  shows "shape (node_rename ks ls v)"
proof (cases "jget ks v")
  case (Some w)
  have "jwf v" using assms(1) by (simp add: shape_def)
  then have "jwf (reread_node w)" using reread_jwf jget_jwf Some by blast
  then have "shape (jset ls (reread_node w) v)" using shape_jset assms(1,3,5) by blast
  then show ?thesis using Some assms(2,4) by (simp add: node_rename_def shape_jdel)
qed (simp add: node_rename_def assms)

text \<open>Every edit of the program is in reach and keeps the shape.\<close>

lemma transform_step:
  assumes "shape v" "program_path p" "fn_ok f"
  shows "transform_reach p v \<and> shape (path_transform f p v)"
proof -
  have "shape (path_transform f p v)"
    using shape_program_edit [OF edit_ok_transform [OF assms(3)] assms(1,2)] path_transform_program [OF assms(1,2)]
    by simp
  moreover have "transform_reach p v"
    using assms(2)
  proof (cases rule: program_path_cases)
    case (hosts b)
    then show ?thesis using items_at_node [OF shape_lists(1) [OF assms(1)]]
      by (simp add: transform_reach_def parent_paths host_shape_def del: jget.simps)
  next
    case (infra b)
    then show ?thesis using items_at_node [OF shape_lists(2) [OF assms(1)]]
      by (simp add: transform_reach_def parent_paths del: jget.simps)
  qed (simp add: transform_reach_def)
  ultimately show ?thesis by simp
qed

lemma clear_single: "length ks = 1 \<Longrightarrow> \<not> is_JStr x \<Longrightarrow> clear_path ks x"
  by (cases x) (auto simp: length_Suc_conv split: option.split)

lemma host_clear: "host_shape h \<Longrightarrow> host_path ks \<Longrightarrow> clear_path ks h"
proof -
  assume h: "host_shape h" and ks: "host_path ks"
  consider k where "ks = [k]" | k where "ks = [''infra_env'', k]"
    using ks by (auto simp: host_path_def split: list.splits)
  then show ?thesis
  proof cases
    case 1
    then show ?thesis using h by (intro clear_single) (simp_all add: host_shape_def)
  next
    case (2 k)
    have "clear_path [k] w" if "jget [''infra_env''] h = Some w" for w
      using h that by (intro clear_single) (simp_all add: host_shape_def)
    then show ?thesis
      using 2 h by (cases h) (auto simp: host_shape_def split: option.split)
  qed
qed

lemma cluster_clear: "shape v \<Longrightarrow> cluster_path ks \<Longrightarrow> clear_path ks v"
proof -
  assume s: "shape v" and "cluster_path ks"
  then obtain k where ks: "ks = [''cluster'', k]" by (auto simp: cluster_path_def split: list.splits)
  obtain c where c: "jget [''cluster''] v = Some c" "is_JObj c"
    using s by (auto simp: shape_def split: option.splits)
  then show ?thesis using ks by (cases v; cases c) (auto split: option.splits)
qed

lemma delete_step:
  assumes "shape v" "program_path p"
  shows "delete_reach p v \<and> shape (path_delete p v)"
proof -
  have "shape (path_delete p v)"
    using shape_program_edit [OF edit_ok_jdel assms] path_delete_program [OF assms] by simp
  moreover have "delete_reach p v"
    using assms(2)
  proof (cases rule: program_path_cases)
    case cluster
    then show ?thesis using cluster_clear [OF assms(1)] by (simp add: delete_reach_def)
  next
    case (hosts b)
    then show ?thesis using items_at_node [OF shape_lists(1) [OF assms(1)]] host_clear
      by (simp add: delete_reach_def parent_paths del: jget.simps)
  next
    case (infra b)
    then show ?thesis using items_at_node [OF shape_lists(2) [OF assms(1)]] clear_single
      by (simp add: delete_reach_def parent_paths del: jget.simps)
  qed
  ultimately show ?thesis by simp
qed

lemma rename_step:
  assumes s: "shape v" and p: "program_rename (p, q)"
  shows "transform_reach p v \<and> shape (program_edit (\<lambda>ks. node_rename ks (sibling (p, q))) p v)"
proof -
  have pp: "program_path p" "program_path q" "rename_path (p, q)"
    "map_option fst (split_path p) = map_option fst (split_path q)"
    using p by (simp_all add: program_rename_def)
  have reach: "transform_reach p v" using transform_step [OF s pp(1), of Some] by (simp add: fn_ok_def)
  from pp(1) have "shape (program_edit (\<lambda>ks. node_rename ks (sibling (p, q))) p v)"
  proof (cases rule: program_path_cases)
    case cluster
    then have q: "\<not> isComplexPath q" using pp(3) by (simp add: rename_path_def)
    with pp(2) have "cluster_path (segs q)" "plain_path q" by (simp_all add: program_path_def)
    then show ?thesis
      using cluster q plain_segs_utf8 shape_rename [OF s] by (simp add: program_edit_def sibling_def)
  next
    case (hosts b)
    have q: "isComplexPath q" using pp(3) hosts(1,2) by (auto simp: rename_path_def split: option.splits)
    obtain b' where b': "split_path q = Some (''cluster.hosts'', b')" using pp(4) hosts(2) by (cases "split_path q") auto
    have hb: "host_path (segs b')" "plain_path b'" using pp(2) q b' by (simp_all add: program_path_def)
    have "shape (on_items [''cluster'', ''hosts''] (node_rename (segs b) (segs b')) v)"
      using hosts(3,4) hb plain_segs_utf8
      by (intro shape_on_hosts [OF s]) (simp add: node_rename_jwf host_shape_rename)
    then show ?thesis using hosts q b' by (simp add: program_edit_def sibling_def parent_paths)
  next
    case (infra b)
    have q: "isComplexPath q" using pp(3) infra(1,2) by (auto simp: rename_path_def split: option.splits)
    obtain b' where b': "split_path q = Some (''infra_envs'', b')" using pp(4) infra(2) by (cases "split_path q") auto
    have hb: "plain_path b'" using pp(2) q b' by (simp add: program_path_def)
    have "shape (on_items [''infra_envs''] (node_rename (segs b) (segs b')) v)"
      using infra(4) hb plain_segs_utf8
      by (intro shape_on_infra_envs [OF s]) (simp add: node_rename_jwf is_JStr_node_rename)
    then show ?thesis using infra q b' by (simp add: program_edit_def sibling_def parent_paths)
  qed
  with reach show ?thesis by simp
qed

lemma run_transform:
  "shape v \<Longrightarrow> list_all program_path ps \<Longrightarrow> fn_ok f \<Longrightarrow>
     run_reach (\<lambda>p v. Some (path_transform f p v)) transform_reach ps v \<and> shape (tree_transform f ps v)"
  using transform_step by (induction ps arbitrary: v) (simp_all add: tree_transform_def)

lemma run_delete:
  "shape v \<Longrightarrow> list_all program_path ps \<Longrightarrow>
     run_reach (\<lambda>p v. Some (path_delete p v)) delete_reach ps v \<and> shape (tree_delete ps v)"
  using delete_step by (induction ps arbitrary: v) (simp_all add: tree_delete_def)

text \<open>Under the shape the renamings never panic; \<open>total_rename\<close> is their result.\<close>

definition total_rename :: "(string \<times> string) list \<Rightarrow> json \<Rightarrow> json" where
  "total_rename sds v = foldl (\<lambda>v sd. program_edit (\<lambda>ks. node_rename ks (sibling sd)) (fst sd) v) v sds"

lemma run_rename:
  "shape v \<Longrightarrow> list_all program_rename sds \<Longrightarrow>
     run_reach path_rename (\<lambda>sd. transform_reach (fst sd)) sds v \<and>
     tree_rename sds v = Some (total_rename sds v) \<and> shape (total_rename sds v)"
proof (induction sds arbitrary: v)
  case (Cons sd sds)
  obtain p q where sd: "sd = (p, q)" by fastforce
  have pr: "program_rename (p, q)" using Cons.prems(2) sd by simp
  note step = rename_step [OF Cons.prems(1) pr] path_rename_program [OF Cons.prems(1) pr]
  have "shape (program_edit (\<lambda>ks. node_rename ks (sibling (p, q))) p v)" using step(1) by simp
  from Cons.IH [OF this] Cons.prems(2) step show ?case by (simp add: sd total_rename_def)
qed (simp add: total_rename_def)

section \<open>The chain of edits\<close>

definition tree_pipeline :: "range_order \<Rightarrow> json \<Rightarrow> json" where
  "tree_pipeline ord v =
     (let renames = map_range ord getDefaultFieldsToAnonymize;
          v1 = tree_transform (\<lambda>unpacked. Some unpacked) getDefaultFieldsToUnpack v;
          v2 = tree_transform (mapToListDropKey ord) getDefaultFieldsMapToListDropKey v1;
          v3 = tree_transform (mapToList ord) getDefaultFieldsMapToList v2;
          v4 = tree_transform hash_sensitive (map fst renames) v3;
          v5 = total_rename renames v4
      in tree_delete getDefaultFieldsToDelete v5)"

lemma fn_ok_unpack: "fn_ok (\<lambda>u. Some u)"
  by (simp add: fn_ok_def)

lemma fn_ok_hash: "fn_ok hash_sensitive"
  by (auto simp: fn_ok_def hash_sensitive_def valid_md5_hex split: json.splits)

lemma json_slice_jwf: "\<forall>x\<in>set vs. jwf x \<Longrightarrow> jwf (json_slice vs)"
  by (simp add: json_slice_def)

lemma map_range_jwf:
  assumes "range_ok ord" "jwf (JObj m)" "p \<in> set (map_range ord m)"
  shows "valid_utf8 (fst p)" "jwf (snd p)"
  using assms set_map_range [OF assms(1), of m] by auto

lemma fn_ok_drop: "range_ok ord \<Longrightarrow> fn_ok (mapToListDropKey ord)"
  by (auto simp: fn_ok_def mapToListDropKey_def intro!: json_slice_jwf simp del: jwf_simps(6)
      dest: map_range_jwf split: json.splits)

lemma valid_utf8_literals [simp]: "valid_utf8 ''id''" "valid_utf8 ''key''" "valid_utf8 ''value''"
  by (simp_all add: byte_def)

lemma list_item_jwf: "valid_utf8 k \<Longrightarrow> jwf v \<Longrightarrow> jwf (list_item k v)"
proof -
  assume a: "valid_utf8 k" "jwf v"
  have "jwf (JObj [])" by simp
  then have "jwf (JObj (mput ''value'' v (mput ''key'' (JStr k) [])))"
    using a by (intro jwf_mput) simp_all
  then show ?thesis
    using a by (cases v) (auto simp: list_item_def simp del: jwf_simps(6) mput.simps intro!: jwf_mput)
qed

lemma fn_ok_list: "range_ok ord \<Longrightarrow> fn_ok (mapToList ord)"
proof -
  assume ord: "range_ok ord"
  have "jwf (json_slice (map (\<lambda>(k, v). list_item k v) (map_range ord m)))" if "jwf (JObj m)" for m
    using map_range_jwf [OF ord that] by (intro json_slice_jwf) (simp add: list_item_jwf case_prod_unfold)
  then show ?thesis
    by (auto simp: fn_ok_def mapToList_def simp del: jwf_simps(6) split: json.splits)
qed

lemma anonymize_paths:
  assumes "range_ok ord"
  shows "list_all program_rename (map_range ord getDefaultFieldsToAnonymize)"
    "list_all program_path (map fst (map_range ord getDefaultFieldsToAnonymize))"
proof -
  have s: "msorted getDefaultFieldsToAnonymize"
    unfolding getDefaultFieldsToAnonymize_def by (rule msorted_mfold) simp
  show r: "list_all program_rename (map_range ord getDefaultFieldsToAnonymize)"
    using program_paths(5) set_map_range [OF assms s] by (simp add: list_all_iff)
  then show "list_all program_path (map fst (map_range ord getDefaultFieldsToAnonymize))"
    by (auto simp: list_all_iff program_rename_def)
qed

lemma program_paths_edit: "list_all program_path ps \<Longrightarrow> list_all edit_path ps"
  by (auto simp: list_all_iff program_path_edit)

lemma program_renames_path: "list_all program_rename sds \<Longrightarrow> list_all rename_path sds"
  by (auto simp: list_all_iff program_rename_def)

lemma shape_pipeline:
  assumes "range_ok ord" "shape v"
  shows "shape (tree_pipeline ord v)"
  unfolding tree_pipeline_def Let_def
  using assms by (intro run_delete [THEN conjunct2] run_rename [THEN conjunct2, THEN conjunct2]
      run_transform [THEN conjunct2] program_paths anonymize_paths
      fn_ok_unpack fn_ok_drop fn_ok_list fn_ok_hash)

section \<open>What the edits leave alone\<close>

text \<open>
  The members other than \<^verbatim>\<open>cluster\<close> and \<^verbatim>\<open>infra_envs\<close> stay, no name is added, and the
  list of hosts keeps its length.
\<close>

definition edited_names :: "string list" where
  "edited_names = [''cluster'', ''infra_envs'']"

definition host_len :: "json \<Rightarrow> nat" where
  "host_len v = (case jget [''cluster'', ''hosts''] v of Some (JArr hs) \<Rightarrow> length hs | _ \<Rightarrow> 0)"

definition names_of :: "json \<Rightarrow> string set" where
  "names_of v = (case v of JObj m \<Rightarrow> fst ` set m | _ \<Rightarrow> {})"

definition frame :: "json \<Rightarrow> json \<Rightarrow> bool" where
  "frame v v' =
     (is_JObj v' = is_JObj v \<and> names_of v' \<subseteq> names_of v \<union> set edited_names \<and>
      (\<forall>n. n \<notin> set edited_names \<longrightarrow> jget [n] v' = jget [n] v) \<and>
      host_len v' = host_len v)"

lemma frame_refl: "frame v v"
  by (simp add: frame_def)

lemma frame_trans: "frame u v \<Longrightarrow> frame v w \<Longrightarrow> frame u w"
  by (auto simp: frame_def)

lemma names_jset: "names_of (jset (k # ks) w v) \<subseteq> insert k (names_of v)"
  by (cases v) (auto simp: names_of_def fst_mput split: option.split)

lemma names_jdel: "names_of (jdel (k # ks) v) \<subseteq> insert k (names_of v)"
proof (cases v)
  case (JObj m)
  have "fst ` set (mdel k m) \<subseteq> fst ` set m" using set_mdel [of k m] by (rule image_mono)
  with JObj show ?thesis by (auto simp: names_of_def fst_mput split: option.split)
qed (simp_all add: names_of_def)

lemma frame_jset:
  assumes "jwf v" "k \<in> set edited_names" "apart (k # ks) [''cluster'', ''hosts'']"
  shows "frame v (jset (k # ks) w v)"
proof -
  have "jget [n] (jset (k # ks) w v) = jget [n] v" if "n \<notin> set edited_names" for n
    by (rule jget_jset_apart [OF assms(1)]) (use that assms(2) in auto)
  then show ?thesis
    using names_jset [of k ks w v] assms(2) jget_jset_apart [OF assms(1,3)]
    by (auto simp: frame_def host_len_def is_JObj_jset simp del: jget.simps jset.simps)
qed

lemma frame_jdel:
  assumes "jwf v" "k \<in> set edited_names" "apart (k # ks) [''cluster'', ''hosts'']"
  shows "frame v (jdel (k # ks) v)"
proof -
  have "jget [n] (jdel (k # ks) v) = jget [n] v" if "n \<notin> set edited_names" for n
    by (rule jget_jdel_apart [OF assms(1)]) (use that assms(2) in auto)
  then show ?thesis
    using names_jdel [of k ks v] assms(2) jget_jdel_apart [OF assms(1,3)]
    by (auto simp: frame_def host_len_def is_JObj_jdel simp del: jget.simps jdel.simps)
qed

lemma frame_on_hosts: "jwf v \<Longrightarrow> frame v (on_items [''cluster'', ''hosts''] g v)"
proof (cases "\<exists>vs. jget [''cluster'', ''hosts''] v = Some (JArr vs)")
  case True
  assume wf: "jwf v"
  obtain vs where vs: "jget [''cluster'', ''hosts''] v = Some (JArr vs)" using True by blast
  then have eq: "on_items [''cluster'', ''hosts''] g v = jset [''cluster'', ''hosts''] (JArr (map g vs)) v"
    by (simp add: on_items_def)
  have "jget [n] (jset [''cluster'', ''hosts''] w v) = jget [n] v" if "n \<notin> set edited_names" for n w
    by (rule jget_jset_apart [OF wf]) (use that in \<open>auto simp: edited_names_def\<close>)
  moreover have "host_len (on_items [''cluster'', ''hosts''] g v) = host_len v"
    using vs jget_on_items [OF wf, of "[''cluster'', ''hosts'']" g] by (simp add: host_len_def del: jget.simps)
  ultimately show ?thesis
    using names_jset [of "''cluster''" "[''hosts'']" _ v] eq
    by (auto simp: frame_def is_JObj_jset edited_names_def simp del: jget.simps jset.simps)
next
  case False
  then have "on_items [''cluster'', ''hosts''] g v = v" by (auto simp: on_items_def split: option.splits json.splits)
  then show ?thesis by (simp add: frame_refl)
qed

lemma frame_on_infra_envs: "jwf v \<Longrightarrow> frame v (on_items [''infra_envs''] g v)"
  by (auto simp: on_items_def edited_names_def frame_refl intro!: frame_jset split: option.split json.split)

lemma cluster_path_frame:
  assumes "cluster_path ks"
  obtains k where "ks = ''cluster'' # [k]" "''cluster'' \<in> set edited_names"
    "apart (''cluster'' # [k]) [''cluster'', ''hosts'']"
  using assms by (auto simp: cluster_path_def edited_names_def split: list.splits)

lemma frame_program_edit:
  assumes g: "\<not> isComplexPath p \<Longrightarrow> cluster_path (segs p) \<Longrightarrow> frame v (g (segs p) v)"
    and s: "shape v" and p: "program_path p"
  shows "frame v (program_edit g p v)"
proof -
  have wf: "jwf v" using s by (simp add: shape_def)
  from p show ?thesis
  proof (cases rule: program_path_cases)
    case cluster
    then show ?thesis using g by (simp add: program_edit_def)
  next
    case (hosts b)
    then show ?thesis using frame_on_hosts [OF wf] by (simp add: program_edit_def parent_paths)
  next
    case (infra b)
    then show ?thesis using frame_on_infra_envs [OF wf] by (simp add: program_edit_def parent_paths)
  qed
qed

lemma frame_transform:
  assumes "shape v" "program_path p"
  shows "frame v (path_transform f p v)"
  unfolding path_transform_program [OF assms]
proof (rule frame_program_edit [OF _ assms])
  assume "cluster_path (segs p)"
  then obtain k where k: "segs p = ''cluster'' # [k]" "''cluster'' \<in> set edited_names"
    "apart (''cluster'' # [k]) [''cluster'', ''hosts'']" by (rule cluster_path_frame)
  have "jwf v" using assms(1) by (simp add: shape_def)
  then show "frame v (node_transform f (segs p) v)"
    using frame_jset k by (auto simp: node_transform_def frame_refl simp del: jset.simps split: option.split)
qed

lemma frame_delete:
  assumes "shape v" "program_path p"
  shows "frame v (path_delete p v)"
  unfolding path_delete_program [OF assms]
proof (rule frame_program_edit [OF _ assms])
  assume "cluster_path (segs p)"
  then obtain k where k: "segs p = ''cluster'' # [k]" "''cluster'' \<in> set edited_names"
    "apart (''cluster'' # [k]) [''cluster'', ''hosts'']" by (rule cluster_path_frame)
  have "jwf v" using assms(1) by (simp add: shape_def)
  then show "frame v (jdel (segs p) v)" using frame_jdel k by metis
qed

lemma frame_rename:
  assumes s: "shape v" and p: "program_rename (p, q)"
  shows "frame v (program_edit (\<lambda>ks. node_rename ks (sibling (p, q))) p v)"
proof (rule frame_program_edit [OF _ s])
  show pp: "program_path p" using p by (simp add: program_rename_def)
  assume nc: "\<not> isComplexPath p" and cp: "cluster_path (segs p)"
  have q: "\<not> isComplexPath q" using p nc by (simp add: program_rename_def rename_path_def)
  have cq: "cluster_path (segs q)" "plain_path q" using p q by (simp_all add: program_rename_def program_path_def)
  obtain k where k: "segs p = ''cluster'' # [k]" "''cluster'' \<in> set edited_names"
    "apart (''cluster'' # [k]) [''cluster'', ''hosts'']" by (rule cluster_path_frame [OF cp])
  obtain l where l: "segs q = ''cluster'' # [l]" "''cluster'' \<in> set edited_names"
    "apart (''cluster'' # [l]) [''cluster'', ''hosts'']" by (rule cluster_path_frame [OF cq(1)])
  have wf: "jwf v" using s by (simp add: shape_def)
  show "frame v (node_rename (segs p) (sibling (p, q)) v)"
  proof (cases "jget (segs p) v")
    case (Some w)
    let ?v = "jset (segs q) (reread_node w) v"
    have "jwf ?v"
      by (rule jset_jwf [OF wf reread_jwf [OF jget_jwf [OF wf Some]] plain_segs_utf8 [OF cq(2)]])
    then have "frame ?v (jdel (segs p) ?v)" using frame_jdel k by metis
    moreover have "frame v ?v" using frame_jset [OF wf l(2,3)] l(1) by simp
    ultimately show ?thesis
      using Some q frame_trans by (auto simp: node_rename_def sibling_def)
  qed (simp add: node_rename_def frame_refl)
qed

lemma frame_run_transform:
  "shape v \<Longrightarrow> list_all program_path ps \<Longrightarrow> fn_ok f \<Longrightarrow> frame v (tree_transform f ps v)"
proof (induction ps arbitrary: v)
  case (Cons p ps)
  have "frame (path_transform f p v) (tree_transform f ps (path_transform f p v))"
    using Cons.prems transform_step [OF Cons.prems(1)] by (intro Cons.IH) simp_all
  moreover have "frame v (path_transform f p v)"
    by (rule frame_transform [OF Cons.prems(1)]) (use Cons.prems(2) in simp)
  ultimately have "frame v (tree_transform f ps (path_transform f p v))" by (rule frame_trans [rotated])
  then show ?case by (simp add: tree_transform_def)
qed (simp add: tree_transform_def frame_refl)

lemma frame_run_delete: "shape v \<Longrightarrow> list_all program_path ps \<Longrightarrow> frame v (tree_delete ps v)"
proof (induction ps arbitrary: v)
  case (Cons p ps)
  have "frame (path_delete p v) (tree_delete ps (path_delete p v))"
    using Cons.prems delete_step [OF Cons.prems(1)] by (intro Cons.IH) simp_all
  with frame_delete [OF Cons.prems(1)] Cons.prems(2) show ?case
    using frame_trans by (auto simp: tree_delete_def)
qed (simp add: tree_delete_def frame_refl)

lemma frame_run_rename: "shape v \<Longrightarrow> list_all program_rename sds \<Longrightarrow> frame v (total_rename sds v)"
proof (induction sds arbitrary: v)
  case (Cons sd sds)
  obtain p q where sd: "sd = (p, q)" by fastforce
  have pr: "program_rename (p, q)" using Cons.prems(2) sd by simp
  let ?v = "program_edit (\<lambda>ks. node_rename ks (sibling sd)) (fst sd) v"
  have "frame ?v (total_rename sds ?v)"
    using Cons.prems rename_step [OF Cons.prems(1) pr] sd by (intro Cons.IH) simp_all
  with frame_rename [OF Cons.prems(1) pr] show ?case
    using frame_trans sd by (auto simp: total_rename_def)
qed (simp add: total_rename_def frame_refl)

lemma frame_pipeline:
  assumes ord: "range_ok ord" and s: "shape v"
  shows "frame v (tree_pipeline ord v)"
proof -
  let ?r = "map_range ord getDefaultFieldsToAnonymize"
  let ?v1 = "tree_transform (\<lambda>u. Some u) getDefaultFieldsToUnpack v"
  let ?v2 = "tree_transform (mapToListDropKey ord) getDefaultFieldsMapToListDropKey ?v1"
  let ?v3 = "tree_transform (mapToList ord) getDefaultFieldsMapToList ?v2"
  let ?v4 = "tree_transform hash_sensitive (map fst ?r) ?v3"
  note s1 = run_transform [OF s program_paths(1) fn_ok_unpack, THEN conjunct2]
  note s2 = run_transform [OF s1 program_paths(2) fn_ok_drop [OF ord], THEN conjunct2]
  note s3 = run_transform [OF s2 program_paths(3) fn_ok_list [OF ord], THEN conjunct2]
  note s4 = run_transform [OF s3 anonymize_paths(2) [OF ord] fn_ok_hash, THEN conjunct2]
  note s5 = run_rename [OF s4 anonymize_paths(1) [OF ord], THEN conjunct2, THEN conjunct2]
  have "frame v ?v1" "frame ?v1 ?v2" "frame ?v2 ?v3" "frame ?v3 ?v4" "frame ?v4 (total_rename ?r ?v4)"
    "frame (total_rename ?r ?v4) (tree_delete getDefaultFieldsToDelete (total_rename ?r ?v4))"
    by (intro frame_run_transform frame_run_rename frame_run_delete s s1 s2 s3 s4 s5 program_paths
        anonymize_paths ord fn_ok_unpack fn_ok_drop fn_ok_list fn_ok_hash)+
  then show ?thesis
    unfolding tree_pipeline_def Let_def by (blast intro: frame_trans)
qed

section \<open>The editing functions\<close>

text \<open>
  C13. \<^verbatim>\<open>Transform\<close> on the text of an event implements the transformation of the JSON value at
  the paths, through packed strings and for every element of a list, for any function and
  any paths into the cluster, its hosts or the infra-envs.
\<close>

theorem Transform_edits:
  assumes "json_edit_lib L" "reps L d v" "shape v" "list_all program_path ps" "fn_ok f"
  shows "reps L (Transform L d ps f) (tree_transform f ps v)"
proof -
  have e: "list_all edit_path ps" using assms(4) by (simp add: list_all_iff program_path_edit)
  show ?thesis
    unfolding Transform_def
    by (rule json_edit_lib.transform_loop_refines
        [OF assms(1,2) shape_not_JStr [OF assms(3)] assms(5) e run_transform [OF assms(3-5), THEN conjunct1]])
qed

text \<open>
  \<^verbatim>\<open>Delete\<close> implements the deletion of the members at the paths, and returns no error.
\<close>

lemma Delete_edits:
  assumes "json_edit_lib L" "reps L d v" "shape v" "list_all program_path ps"
  shows "snd (Delete L d ps) = None \<and> reps L (fst (Delete L d ps)) (tree_delete ps v)"
proof -
  have e: "list_all edit_path ps" using assms(4) by (simp add: list_all_iff program_path_edit)
  show ?thesis
    by (rule json_edit_lib.Delete_refines
        [OF assms(1,2) shape_not_JStr [OF assms(3)] e run_delete [OF assms(3,4), THEN conjunct1]])
qed

end
