(* ===== verification/Pipeline.thy ===== *)
theory Pipeline
  imports EnricherSpec
begin

text \<open>
  What \<^verbatim>\<open>getTransformedEvent\<close> gives: the event with the edited cluster, the edited
  infra-envs and the hosts summary of the edited cluster, everything else as it was. The
  edits are those of \<open>tree_pipeline\<close>, computed without text. The consequences follow:
  which keys of secrets are gone (\<open>Secrets\<close>), and what an anonymised user name becomes (\<open>UserNames\<close>).
\<close>

section \<open>Well-formed summaries\<close>

lemma stat_label_map: "stat_label s = map (\<lambda>c. if c = CHR ''.'' then CHR ''_'' else c) s"
  by (induction s) (auto simp: stat_label_def replace_char_def)

lemma valid_stat_label: "valid_utf8 s \<Longrightarrow> valid_utf8 (stat_label s)"
  unfolding stat_label_map by (subst valid_utf8_map) (auto simp: ascii_map_def byte_def)

lemma host_label_valid:
  assumes "jwf (JObj h)" "host_label k h = Some l"
  shows "valid_utf8 l"
proof -
  obtain ie s where ie: "mget h ''infra_env'' = Some (JObj ie)" "mget ie k = Some (JStr s)" "l = stat_label s"
    using assms(2)
    by (auto simp: host_label_def getInfraEnvFromHost_def split: option.splits json.splits)
  then have "jwf (JStr s)" using jwf_mget [OF jwf_mget [OF assms(1) ie(1)] ie(2)] by simp
  with ie(3) show ?thesis by (simp add: valid_stat_label)
qed

lemma label_count_valid:
  assumes "\<forall>h\<in>set hosts. jwf (JObj h)" "label_count k l hosts \<noteq> 0"
  shows "valid_utf8 l"
proof -
  have "filter (\<lambda>h. host_label k h = Some l) hosts \<noteq> []" using assms(2) by (simp add: label_count_def)
  then obtain h where "h \<in> set hosts" "host_label k h = Some l" by (auto simp: filter_empty_conv)
  then show ?thesis using host_label_valid assms(1) by blast
qed

lemma wf_share:
  assumes "length hosts \<le> 2 ^ 52" "label_count k l hosts \<noteq> 0"
  shows "wf64 (share64 (label_count k l hosts) (infra_env_count hosts))"
proof -
  let ?c = "label_count k l hosts" and ?t = "infra_env_count hosts"
  have b: "?c \<le> ?t" "0 < ?t" "?t \<le> 2 ^ 53"
  proof -
    show "?c \<le> ?t" by (rule label_count_le)
    with assms(2) show "0 < ?t" by simp
    have "?t \<le> 2 ^ 52" using infra_env_count_le [of hosts] assms(1) by linarith
    then show "?t \<le> 2 ^ 53" by simp
  qed
  have "wf64 (share64 ?c ?t) \<or> share64 ?c ?t = F_inf False"
    unfolding share64_round [OF b] by (rule wf_round64) simp
  with share_entry [OF assms] show ?thesis by auto
qed

lemma valid_stat_keys: "k \<in> set stat_keys \<Longrightarrow> valid_utf8 k"
  by (auto simp: stat_keys_def byte_def)

lemma wf_hosts_summary:
  assumes ord: "range_ok ord" and len: "length hosts \<le> 2 ^ 52" and wf: "\<forall>h\<in>set hosts. jwf (JObj h)"
  shows "wf_summary (hosts_summary_of ord hosts)"
proof -
  obtain stats where st: "hosts_summary_of ord hosts =
      \<lparr> hs_heterogeneous = f64_less (snd (getHighestKeyValue ord (the (mget stats ''cpu_architecture'')))) f64_one,
        hs_host_count = int (length hosts),
        hs_infra_env = Some (map (\<lambda>(k, m). (k, Some m)) stats),
        hs_iso_type = fst (getHighestKeyValue ord (the (mget stats ''type''))) \<rparr>"
    "msorted stats"
    "\<And>k. k \<in> set stat_keys \<Longrightarrow> \<exists>n. mget stats k = Some n \<and> msorted n \<and>
       (\<forall>l. mget n l = (if label_count k l hosts = 0 then None
              else Some (share64 (label_count k l hosts) (infra_env_count hosts))))"
    "\<And>k n. mget stats k = Some n \<Longrightarrow> k \<in> set stat_keys"
    by (rule summary_stats [OF ord len]) (rule that)
  have inner: "msorted n \<and> (\<forall>q\<in>set n. valid_utf8 (fst q) \<and> wf64 (snd q))" if "mget stats k = Some n" for k n
  proof -
    have n: "msorted n" "\<And>l. mget n l = (if label_count k l hosts = 0 then None
              else Some (share64 (label_count k l hosts) (infra_env_count hosts)))"
      using st(3) [OF st(4) [OF that]] that by auto
    have "valid_utf8 (fst q) \<and> wf64 (snd q)" if q: "q \<in> set n" for q
    proof -
      have "mget n (fst q) = Some (snd q)"
        using q msorted_distinct [OF n(1)] by (simp add: map_of_is_SomeI)
      then show ?thesis
        using n(2) [of "fst q"] label_count_valid [OF wf] wf_share [OF len, of k "fst q"]
        by (auto split: if_splits)
    qed
    with n(1) show ?thesis by blast
  qed
  have pairs: "valid_utf8 k \<and> msorted n \<and> (\<forall>q\<in>set n. valid_utf8 (fst q) \<and> wf64 (snd q))" if "(k, n) \<in> set stats" for k n
  proof -
    have "mget stats k = Some n" using that msorted_distinct [OF st(2)] by (simp add: map_of_is_SomeI)
    then show ?thesis using inner st(4) valid_stat_keys by blast
  qed
  obtain n where n: "mget stats ''type'' = Some n" "msorted n" using st(3) [of "''type''"] by (auto simp: stat_keys_def)
  have iso: "valid_utf8 (fst (getHighestKeyValue ord n))"
  proof -
    obtain k v where kv: "getHighestKeyValue ord n = (k, v)" by fastforce
    have "\<forall>j c. mget n j = Some c \<longrightarrow> (\<exists>m e. c = F_fin False m e) \<and> 0 < val64 c"
      using st(3) [of "''type''"] n(1) share_entry [OF len, of "''type''"]
      by (auto simp: stat_keys_def split: if_splits)
    from getHighestKeyValue_max(2) [OF ord n(2) this kv] have "k = [] \<or> mget n k = Some v" by blast
    then have "valid_utf8 k"
      using inner [OF n(1)] mget_in_set [of n k v] by force
    with kv show ?thesis by simp
  qed
  have "int (length hosts) \<le> 2 ^ 53" using len by simp
  moreover have "msorted (map (\<lambda>(k, m). (k, Some m)) stats)" using st(2) by (simp add: msorted_map_snd)
  ultimately show ?thesis
    using pairs iso n(1) by (auto simp: wf_summary_def st(1))
qed

section \<open>The event a well-formed value spells\<close>

lemma json_text_valid: "jwf v \<Longrightarrow> valid_utf8 (json_text (field_json v n))"
  unfolding json_text_def field_json_def
  by (auto simp del: jget.simps dest!: jget_jwf [of v "[n]"] split: option.split json.split)

lemma json_obj_wf: "jwf v \<Longrightarrow> pred_option wf_obj (json_obj v)"
  by (cases v) (simp_all add: json_obj_def wf_obj_def)

lemma bind_obj_wf: "jwf v \<Longrightarrow> pred_option wf_obj (Option.bind (jget ks v) json_obj)"
  using jget_jwf [of v ks] json_obj_wf by (cases "jget ks v") auto

lemma wf_value_event: "jwf v \<Longrightarrow> wf_event (value_event v)"
proof -
  assume wf: "jwf v"
  have "list_all (pred_option wf_obj) (case field_json v ''infra_envs'' of Some (JArr vs) \<Rightarrow> map json_obj vs | _ \<Rightarrow> [])"
  proof (cases "\<exists>vs. field_json v ''infra_envs'' = Some (JArr vs)")
    case True
    then obtain vs where vs: "field_json v ''infra_envs'' = Some (JArr vs)" by blast
    then have "\<forall>x\<in>set vs. jwf x"
      using jget_jwf [OF wf, of "[''infra_envs'']" "JArr vs"] by (simp add: field_json_def del: jget.simps)
    with vs json_obj_wf show ?thesis by (simp add: list_all_iff)
  qed (auto split: option.split json.split)
  moreover have "pred_option valid_utf8 (json_tag (field_json v ''release_tag''))"
    using jget_jwf [OF wf, of "[''release_tag'']"]
    by (auto simp: json_tag_def field_json_def simp del: jget.simps split: option.split json.split)
  ultimately show ?thesis
    using bind_obj_wf [OF wf] json_text_valid [OF wf]
    by (simp add: wf_event_def value_event_def Let_def field_json_def del: jget.simps)
qed

definition event_value :: "enriched_event \<Rightarrow> json" where
  "event_value e = canon (enriched_json e)"

lemma jget_event_value: "jget [n] (event_value e) = map_option canon (mget (enriched_members e) n)"
  using mget_canon_obj [OF enriched_members_keys(1), of canon e n]
  by (simp add: event_value_def enriched_json_members split: option.split)

lemma names_event_value: "names_of (event_value e) \<subseteq> set enriched_fields"
proof -
  have "set (mfold (map (\<lambda>p. (fst p, canon (snd p))) (enriched_members e)) [])
      \<subseteq> (\<lambda>p. (fst p, canon (snd p))) ` set (enriched_members e)"
    using set_mfold [of "map (\<lambda>p. (fst p, canon (snd p))) (enriched_members e)" "[]"] by simp
  then show ?thesis
    using enriched_members_keys(2) [of e]
    by (fastforce simp: names_of_def event_value_def enriched_json_members)
qed

lemma event_props_names:
  "case jget [''event''] (event_value e) of Some (JObj em) \<Rightarrow> set (map fst em) \<subseteq> {''props''} | _ \<Rightarrow> True"
  using jget_event_value [of "''event''" e]
  by (auto simp: mget_enriched props_json_def simp del: jget.simps split: option.splits if_splits)

lemma exact_keys_frame:
  assumes "frame (event_value e) v"
  shows "exact_keys v"
proof -
  have "is_JObj v" using assms by (simp add: frame_def event_value_def enriched_json_members)
  then obtain m where m: "v = JObj m" by (cases v) auto
  have "jget [''event''] v = jget [''event''] (event_value e)"
    using assms by (simp add: frame_def edited_names_def)
  moreover have "fst ` set m \<subseteq> set enriched_fields"
    using assms names_event_value [of e] m
    by (auto simp: frame_def names_of_def edited_names_def enriched_fields_def)
  ultimately show ?thesis
    using event_props_names [of e] m by (auto simp: exact_keys_def split: option.splits json.splits)
qed

lemma value_event_event_value:
  "wf_event e \<Longrightarrow> value_event (event_value e) = (drop_empty_props e) \<lparr> ee_hosts_summary := None \<rparr>"
  using decode_value_event [of "enriched_json e"] decode_enriched_json [of e]
  by (simp add: jok_jfinite jok_enriched_json jdistinct_enriched_json
      exact_keys_frame [OF frame_refl, unfolded event_value_def] event_value_def)

lemma value_event_frame:
  assumes f: "frame (event_value e) v" and wf: "wf_event e"
  shows "value_event v = (drop_empty_props e) \<lparr> ee_hosts_summary := None,
     ee_cluster := ee_cluster (value_event v), ee_infra_envs := ee_infra_envs (value_event v) \<rparr>"
proof -
  have fld: "field_json v n = field_json (event_value e) n" if "n \<notin> set edited_names" for n
    using f that by (simp add: frame_def field_json_def del: jget.simps)
  have props: "jget [''event'', ''props''] v = jget [''event'', ''props''] (event_value e)"
    using f jget_append [of "[''event'']" "[''props'']" v] jget_append [of "[''event'']" "[''props'']" "event_value e"]
    by (simp add: frame_def edited_names_def del: jget.simps)
  have "value_event v = (value_event (event_value e)) \<lparr> ee_cluster := ee_cluster (value_event v),
      ee_infra_envs := ee_infra_envs (value_event v) \<rparr>"
    by (simp add: value_event_def Let_def fld props edited_names_def del: jget.simps)
  with value_event_event_value [OF wf] show ?thesis by simp
qed

section \<open>The transformed event\<close>

text \<open>
  \<open>event_ok\<close>: the texts of the event are valid, its maps are well-formed, its cluster is
  a map whose hosts are a list (or null), and no host or infra-env is a string, nor is
  the infra-env of a host.
\<close>

definition event_ok :: "enriched_event \<Rightarrow> bool" where
  "event_ok e = (wf_event e \<and> shape (event_value e))"

definition pipeline_event :: "range_order \<Rightarrow> enriched_event \<Rightarrow> enriched_event" where
  "pipeline_event ord e =
     (drop_empty_props e) \<lparr> ee_hosts_summary := None,
       ee_cluster := ee_cluster (value_event (tree_pipeline ord (event_value e))),
       ee_infra_envs := ee_infra_envs (value_event (tree_pipeline ord (event_value e))) \<rparr>"

lemma pipeline_event_value:
  assumes "range_ok ord" "event_ok e"
  shows "value_event (tree_pipeline ord (event_value e)) = pipeline_event ord e"
  unfolding pipeline_event_def
  by (rule value_event_frame) (use frame_pipeline assms in \<open>simp_all add: event_ok_def\<close>)

lemma hosts_of_value:
  assumes "jwf v"
  shows "length (getHostsFromEvent (value_event v)) \<le> host_len v"
    and "\<forall>h\<in>set (getHostsFromEvent (value_event v)). jwf (JObj h)"
proof -
  define objs :: "json list \<Rightarrow> jobject list" where
    "objs = (\<lambda>hs. concat (map (\<lambda>h. case h of JObj host \<Rightarrow> [host] | _ \<Rightarrow> []) hs))"
  have eq: "getHostsFromEvent (value_event v)
      = (case jget [''cluster'', ''hosts''] v of Some (JArr hs) \<Rightarrow> objs hs | _ \<Rightarrow> [])"
    by (cases v) (auto simp: getHostsFromEvent_def value_event_def Let_def field_json_def json_obj_def objs_def
        split: option.split json.split)
  have "length (objs hs) \<le> length hs" for hs
    by (induction hs) (auto simp: objs_def split: json.split)
  then show "length (getHostsFromEvent (value_event v)) \<le> host_len v"
    by (auto simp: eq host_len_def simp del: jget.simps split: option.split json.split)
  have "\<forall>h\<in>set (objs hs). JObj h \<in> set hs" for hs
    by (auto simp: objs_def split: json.splits)
  moreover have "\<forall>x\<in>set hs. jwf x" if "jget [''cluster'', ''hosts''] v = Some (JArr hs)" for hs
    using jget_jwf [OF assms that] by simp
  ultimately have "\<forall>h\<in>set (objs hs). jwf (JObj h)" if "jget [''cluster'', ''hosts''] v = Some (JArr hs)" for hs
    using that by blast
  then show "\<forall>h\<in>set (getHostsFromEvent (value_event v)). jwf (JObj h)"
    unfolding eq by (simp del: jget.simps jwf_simps(6) split: option.split json.split) metis
qed

lemma AddHostsSummary_cong:
  "e \<lparr> ee_hosts_summary := None \<rparr> = e' \<Longrightarrow> AddHostsSummary ord e = AddHostsSummary ord e'"
  by (auto simp: AddHostsSummary_def getHostsFromEvent_def)

lemma getEnrichedEvent_value:
  assumes "denotes d v" "exact_keys v"
  shows "(getEnrichedEventFromJson d) \<lparr> ee_hosts_summary := None \<rparr> = value_event v"
proof -
  obtain r where "json_parse d = Some r" "jok r" "jdistinct r" "canon r = v"
    using assms(1) by (auto simp: denotes_def)
  then show ?thesis
    using decode_value_event [of r] assms(2) by (simp add: getEnrichedEventFromJson_def jok_jfinite)
qed

text \<open>From the edited text to the event with its summary.\<close>

lemma transformed_wf:
  assumes "range_ok ord" "event_ok e" "host_len (event_value e) \<le> 2 ^ 52"
  shows "wf_event (AddHostsSummary ord (pipeline_event ord e))"
proof -
  let ?v = "tree_pipeline ord (event_value e)" and ?r = "pipeline_event ord e"
  have s: "shape (event_value e)" using assms(2) by (simp add: event_ok_def)
  have wf: "jwf ?v" using shape_pipeline [OF assms(1) s] by (simp add: shape_def)
  have r: "value_event ?v = ?r" by (rule pipeline_event_value [OF assms(1,2)])
  have hosts: "length (getHostsFromEvent ?r) \<le> 2 ^ 52" "\<forall>h\<in>set (getHostsFromEvent ?r). jwf (JObj h)"
    using hosts_of_value [OF wf] r frame_pipeline [OF assms(1) s] assms(3) by (simp_all add: frame_def)
  have "wf_event ?r" using wf_value_event [OF wf] r by simp
  then show ?thesis
    using wf_hosts_summary [OF assms(1) hosts] by (simp add: AddHostsSummary_def wf_event_def)
qed

lemma summary_and_decode:
  assumes ord: "range_ok (pe_range env)" and e: "event_ok e" and len: "host_len (event_value e) \<le> 2 ^ 52"
    and d: "denotes d (tree_pipeline (pe_range env) (event_value e))"
  shows "getEnrichedEventFromJson (addHostsSummaryJson env d) =
    AddHostsSummary (pe_range env) (pipeline_event (pe_range env) e)"
proof -
  let ?ord = "pe_range env"
  let ?v = "tree_pipeline ?ord (event_value e)" and ?r = "pipeline_event ?ord e"
  have s: "shape (event_value e)" using e by (simp add: event_ok_def)
  have fr: "frame (event_value e) ?v" by (rule frame_pipeline [OF ord s])
  have r: "value_event ?v = ?r" by (rule pipeline_event_value [OF ord e])
  have "(getEnrichedEventFromJson d) \<lparr> ee_hosts_summary := None \<rparr> = ?r"
    using getEnrichedEvent_value [OF d exact_keys_frame [OF fr]] r by simp
  then have add: "AddHostsSummary ?ord (getEnrichedEventFromJson d) = AddHostsSummary ?ord ?r"
    by (rule AddHostsSummary_cong)
  let ?e = "AddHostsSummary ?ord ?r"
  have wf6: "wf_event ?e" by (rule transformed_wf [OF ord e len])
  have "drop_empty_props ?e = ?e"
    by (simp add: AddHostsSummary_def pipeline_event_def drop_empty_props_def)
  then show ?thesis
    using add Marshal_enriched [OF wf6] parse_enriched [OF wf6] decode_enriched_json [OF wf6]
    by (simp add: addHostsSummaryJson_def getEnrichedEventFromJson_def)
qed

text \<open>The edits on text compute the edits on values.\<close>

lemma text_edits:
  assumes L: "json_edit_lib L" and ord: "range_ok ord" and r: "reps L d v" and s: "shape v"
  shows "\<exists>d' e. anonymizeJson L ord (mapToListJson L ord (mapToListJsonDropKey L ord
        (unpackJson L d getDefaultFieldsToUnpack) getDefaultFieldsMapToListDropKey)
        getDefaultFieldsMapToList) getDefaultFieldsToAnonymize = Return (d', e) \<and>
      denotes (fst (Delete L d' getDefaultFieldsToDelete)) (tree_pipeline ord v)"
proof -
  let ?rn = "map_range ord getDefaultFieldsToAnonymize"
  have tr: "reps L (Transform L d ps f) (tree_transform f ps v) \<and> shape (tree_transform f ps v)"
    if "reps L d v" "shape v" "fn_ok f" "list_all program_path ps" for d v f ps
    using that run_transform [OF that(2,4,3)] program_paths_edit
    unfolding Transform_def by (auto intro!: json_edit_lib.transform_loop_refines [OF L] simp: shape_not_JStr)
  note t1 = tr [OF r s fn_ok_unpack program_paths(1)]
  note t2 = tr [OF t1 [THEN conjunct1] t1 [THEN conjunct2] fn_ok_drop [OF ord] program_paths(2)]
  note t3 = tr [OF t2 [THEN conjunct1] t2 [THEN conjunct2] fn_ok_list [OF ord] program_paths(3)]
  note t4 = tr [OF t3 [THEN conjunct1] t3 [THEN conjunct2] fn_ok_hash anonymize_paths(2) [OF ord]]
  note sh = t4 [THEN conjunct2]
  note rn = run_rename [OF sh anonymize_paths(1) [OF ord]]
  obtain d' where d': "rename_loop L (Transform L (mapToListJson L ord (mapToListJsonDropKey L ord
        (unpackJson L d getDefaultFieldsToUnpack) getDefaultFieldsMapToListDropKey)
        getDefaultFieldsMapToList) (map fst ?rn) hash_sensitive) ?rn = Return (d', None)"
    "reps L d' (total_rename ?rn (tree_transform hash_sensitive (map fst ?rn)
      (tree_transform (mapToList ord) getDefaultFieldsMapToList
        (tree_transform (mapToListDropKey ord) getDefaultFieldsMapToListDropKey
          (tree_transform (\<lambda>u. Some u) getDefaultFieldsToUnpack v)))))"
    using json_edit_lib.rename_loop_refines [OF L t4 [THEN conjunct1] shape_not_JStr [OF sh]
        program_renames_path [OF anonymize_paths(1) [OF ord]] rn [THEN conjunct1]]
      rn [THEN conjunct2, THEN conjunct1]
    by (auto simp: mapToListJson_def mapToListJsonDropKey_def unpackJson_def)
  note sh5 = rn [THEN conjunct2, THEN conjunct2]
  have "reps L (fst (Delete L d' getDefaultFieldsToDelete)) (tree_pipeline ord v)"
    unfolding tree_pipeline_def Let_def
    using json_edit_lib.Delete_refines [OF L d'(2) shape_not_JStr [OF sh5]
        program_paths_edit [OF program_paths(4)] run_delete [OF sh5 program_paths(4), THEN conjunct1]]
    by simp
  then show ?thesis using d'(1) by (auto simp: anonymizeJson_def Rename_def reps_def)
qed

lemma getTransformedEvent_core:
  assumes "json_edit_lib (pe_lib env)" "range_ok (pe_range env)" "event_ok e"
    "host_len (event_value e) \<le> 2 ^ 52"
  shows "getTransformedEvent env NewEventEnricher e =
    Return (AddHostsSummary (pe_range env) (pipeline_event (pe_range env) e))"
proof -
  have wfe: "wf_event e" and s: "shape (event_value e)" using assms(3) by (simp_all add: event_ok_def)
  have "reps (pe_lib env) (jprint (enriched_json e)) (event_value e)"
    unfolding event_value_def by (rule reps_print [OF jok_enriched_json [OF wfe] jdistinct_enriched_json [OF wfe]])
  from text_edits [OF assms(1,2) this s]
  obtain d' err where d': "anonymizeJson (pe_lib env) (pe_range env) (mapToListJson (pe_lib env) (pe_range env)
        (mapToListJsonDropKey (pe_lib env) (pe_range env)
        (unpackJson (pe_lib env) (jprint (enriched_json e)) getDefaultFieldsToUnpack) getDefaultFieldsMapToListDropKey)
        getDefaultFieldsMapToList) getDefaultFieldsToAnonymize = Return (d', err)"
    "denotes (fst (Delete (pe_lib env) d' getDefaultFieldsToDelete)) (tree_pipeline (pe_range env) (event_value e))"
    by blast
  then show ?thesis
    using summary_and_decode [OF assms(2,3,4) d'(2)]
    by (simp add: getTransformedEvent_def NewEventEnricher_def Marshal_enriched [OF wfe] Let_def)
qed

text \<open>
  C10. \<^verbatim>\<open>getTransformedEvent\<close> neither panics nor loses the event, whatever the iteration
  order of maps and for every gjson and sjson that keep their documented laws: it gives
  the event with the cluster and the infra-envs edited as \<open>tree_pipeline\<close> says and with
  the hosts summary of the edited cluster; every other field stays (an empty map of
  properties becomes nil).
\<close>

theorem getTransformedEvent_pipeline:
  assumes "json_edit_lib (pe_lib env)" "range_ok (pe_range env)" "event_ok e"
    "host_len (event_value e) \<le> 2 ^ 52"
  shows "getTransformedEvent env NewEventEnricher e =
    Return (AddHostsSummary (pe_range env) (pipeline_event (pe_range env) e))"
  by (rule getTransformedEvent_core [OF assms])

end
