(* ===== verification/Secrets.thy ===== *)
theory Secrets
  imports Pipeline
begin

text \<open>
  What the enrichment removes. \<open>path_absent\<close> says that there is no node at a path of the
  program, in any item for a path with \<^verbatim>\<open>[*]\<close>; the deletions and the renamings establish it for their paths, in whatever
  order the map of renamings is visited, and no later edit undoes it.
\<close>

section \<open>Absent nodes\<close>

definition child_segs :: "string \<Rightarrow> string list" where
  "child_segs p =
     (if isComplexPath p then (case split_path p of Some (a, b) \<Rightarrow> segs b | None \<Rightarrow> []) else segs p)"

definition every_item :: "(json \<Rightarrow> bool) \<Rightarrow> json option \<Rightarrow> bool" where
  "every_item P w = (case w of Some (JArr vs) \<Rightarrow> \<forall>x\<in>set vs. P x | _ \<Rightarrow> True)"

definition path_absent :: "string \<Rightarrow> json \<Rightarrow> bool" where
  "path_absent p v =
     (if isComplexPath p then
        (case split_path p of
           Some (a, b) \<Rightarrow> every_item (\<lambda>x. jget (segs b) x = None) (jget (segs a) v)
         | None \<Rightarrow> True)
      else jget (segs p) v = None)"

lemma jget_jdel_None: "jwf v \<Longrightarrow> jget ls v = None \<Longrightarrow> jget ls (jdel ks v) = None"
proof (induction ks v arbitrary: ls rule: jdel.induct)
  case (2 k ks m)
  show ?case
  proof (cases ls)
    case (Cons l ms)
    have sub: "jget ms u = None" if "mget m l = Some u" for u using 2(3) Cons that by simp
    show ?thesis
    proof (cases "ks = []")
      case True
      then show ?thesis using 2(3) Cons by (simp add: gomap_simps split: option.splits)
    next
      case False
      have IH: "jget ms (jdel ks u) = None" if "mget m k = Some u" "l = k" for u
        using 2(1) [OF False that(1) jwf_mget [OF 2(2) that(1)]] sub that by simp
      then show ?thesis
        using 2(2,3) Cons False by (auto simp: gomap_simps split: option.splits)
    qed
  qed (use 2 in simp)
qed auto

lemma node_rename_absent: "jwf v \<Longrightarrow> \<forall>k\<in>set ls. valid_utf8 k \<Longrightarrow> ks \<noteq> [] \<Longrightarrow> jget ks (node_rename ks ls v) = None"
  by (cases "jget ks v")
    (auto simp: node_rename_def intro!: jget_jdel_same jset_jwf reread_jwf dest: jget_jwf)

lemma node_rename_None:
  assumes "jwf v" "\<forall>k\<in>set ls. valid_utf8 k" "apart ls ms" "jget ms v = None"
  shows "jget ms (node_rename ks ls v) = None"
proof (cases "jget ks v")
  case (Some w)
  have "jwf (jset ls (reread_node w) v)"
    using jset_jwf [OF assms(1) reread_jwf assms(2)] jget_jwf [OF assms(1) Some] by blast
  moreover have "jget ms (jset ls (reread_node w) v) = None"
    using jget_jset_apart [OF assms(1,3)] assms(4) by simp
  ultimately show ?thesis using Some by (simp add: node_rename_def jget_jdel_None)
qed (simp add: node_rename_def assms(4))

text \<open>An edit inside the cluster leaves the two lists alone.\<close>

definition edit_local :: "(string list \<Rightarrow> json \<Rightarrow> json) \<Rightarrow> string \<Rightarrow> json \<Rightarrow> bool" where
  "edit_local g q v =
     (\<not> isComplexPath q \<and> cluster_path (segs q) \<longrightarrow> jget [''cluster'', ''hosts''] (g (segs q) v) = jget [''cluster'', ''hosts''] v \<and>
        jget [''infra_envs''] (g (segs q) v) = jget [''infra_envs''] v)"

lemma cluster_apart:
  "cluster_path ks \<Longrightarrow> apart ks [''cluster'', ''hosts'']"
  "cluster_path ks \<Longrightarrow> apart ks [''infra_envs'']"
  "cluster_path ks \<Longrightarrow> apart [''cluster'', ''hosts''] ks"
  "cluster_path ks \<Longrightarrow> apart [''infra_envs''] ks"
  by (auto simp: cluster_path_def split: list.splits)

lemma edit_local_transform: "jwf v \<Longrightarrow> edit_local (node_transform f) q v"
  by (auto simp: edit_local_def node_transform_def jget_jset_apart cluster_apart
      simp del: jget.simps split: option.split)

lemma edit_local_jdel: "jwf v \<Longrightarrow> edit_local jdel q v"
  by (simp add: edit_local_def jget_jdel_apart cluster_apart del: jget.simps)

lemma edit_local_rename:
  assumes "jwf v" "\<forall>k\<in>set ls. valid_utf8 k" "\<not> isComplexPath q \<Longrightarrow> cluster_path (segs q) \<Longrightarrow> cluster_path ls"
  shows "edit_local (\<lambda>ks. node_rename ks ls) q v"
proof (cases "jget (segs q) v")
  case (Some w)
  have "jwf (jset ls (reread_node w) v)"
    using jset_jwf [OF assms(1) reread_jwf assms(2)] jget_jwf [OF assms(1) Some] by blast
  then show ?thesis
    using assms(1,3) Some
    by (auto simp: edit_local_def node_rename_def jget_jdel_apart jget_jset_apart cluster_apart simp del: jget.simps)
qed (simp add: edit_local_def node_rename_def)

lemma list_items_jwf: "jwf v \<Longrightarrow> jget ks v = Some (JArr vs) \<Longrightarrow> x \<in> set vs \<Longrightarrow> jwf x"
  using jget_jwf [of v ks "JArr vs"] by simp

lemma absent_items_same:
  assumes "jwf v" "ks \<noteq> []" "every_item P (jget ks v)" "\<And>x. jwf x \<Longrightarrow> P x \<Longrightarrow> Q (g x)"
  shows "every_item Q (jget ks (on_items ks g v))"
proof (cases "\<exists>vs. jget ks v = Some (JArr vs)")
  case True
  then obtain vs where vs: "jget ks v = Some (JArr vs)" by blast
  then show ?thesis
    using assms(3,4) list_items_jwf [OF assms(1) vs] by (simp add: every_item_def jget_on_items [OF assms(1,2)])
next
  case False
  then show ?thesis
    by (auto simp: every_item_def jget_on_items [OF assms(1,2)] split: option.split json.split)
qed

lemma path_absent_lists:
  "isComplexPath p \<Longrightarrow> split_path p = Some (a, b) \<Longrightarrow>
     path_absent p v = every_item (\<lambda>x. jget (child_segs p) x = None) (jget (segs a) v)"
  by (simp add: path_absent_def child_segs_def)

lemma absent_preserved:
  assumes s: "shape v" and p: "program_path p" and q: "program_path q" and loc: "edit_local g q v"
    and item: "\<And>x. jwf x \<Longrightarrow> jget (child_segs p) x = None \<Longrightarrow> jget (child_segs p) (g (child_segs q) x) = None"
    and abs: "path_absent p v"
  shows "path_absent p (program_edit g q v)"
proof -
  have wf: "jwf v" using s by (simp add: shape_def)
  let ?h = "[''cluster'', ''hosts'']" and ?i = "[''infra_envs'']"
  show ?thesis
    using q
  proof (cases rule: program_path_cases)
    case q: cluster
    then have e: "program_edit g q v = g (segs q) v" "child_segs q = segs q"
      by (simp_all add: program_edit_def child_segs_def)
    from p show ?thesis
    proof (cases rule: program_path_cases)
      case cluster
      then show ?thesis using item [OF wf] abs e by (simp add: path_absent_def child_segs_def)
    next
      case (hosts b)
      then show ?thesis using loc q(1,2) abs e(1) by (simp add: edit_local_def path_absent_def parent_paths del: jget.simps)
    next
      case (infra b)
      then show ?thesis using loc q(1,2) abs e(1) by (simp add: edit_local_def path_absent_def parent_paths del: jget.simps)
    qed
  next
    case q: (hosts c)
    then have e: "program_edit g q v = on_items ?h (g (child_segs q)) v"
      by (simp add: program_edit_def child_segs_def parent_paths)
    from p show ?thesis
    proof (cases rule: program_path_cases)
      case cluster
      then show ?thesis using abs e jget_on_items_apart [OF wf cluster_apart(3)] by (simp add: path_absent_def)
    next
      case (hosts b)
      have "every_item (\<lambda>x. jget (child_segs p) x = None) (jget ?h (on_items ?h (g (child_segs q)) v))"
        by (rule absent_items_same [OF wf, where P = "\<lambda>x. jget (child_segs p) x = None"])
          (use abs hosts item in \<open>simp_all add: path_absent_lists parent_paths del: jget.simps\<close>)
      then show ?thesis using hosts e by (simp add: path_absent_lists parent_paths del: jget.simps)
    next
      case (infra b)
      have "jget ?i (on_items ?h (g (child_segs q)) v) = jget ?i v" by (rule jget_on_items_apart [OF wf]) simp
      then show ?thesis using infra abs e by (simp add: path_absent_lists parent_paths del: jget.simps)
    qed
  next
    case q: (infra c)
    then have e: "program_edit g q v = on_items ?i (g (child_segs q)) v"
      by (simp add: program_edit_def child_segs_def parent_paths)
    from p show ?thesis
    proof (cases rule: program_path_cases)
      case cluster
      then show ?thesis using abs e jget_on_items_apart [OF wf cluster_apart(4)] by (simp add: path_absent_def)
    next
      case (infra b)
      have "every_item (\<lambda>x. jget (child_segs p) x = None) (jget ?i (on_items ?i (g (child_segs q)) v))"
        by (rule absent_items_same [OF wf, where P = "\<lambda>x. jget (child_segs p) x = None"])
          (use abs infra item in \<open>simp_all add: path_absent_lists parent_paths del: jget.simps\<close>)
      then show ?thesis using infra e by (simp add: path_absent_lists parent_paths del: jget.simps)
    next
      case (hosts b)
      have "jget ?h (on_items ?i (g (child_segs q)) v) = jget ?h v" by (rule jget_on_items_apart [OF wf]) simp
      then show ?thesis using hosts abs e by (simp add: path_absent_lists parent_paths del: jget.simps)
    qed
  qed
qed

lemma absent_established:
  assumes s: "shape v" and p: "program_path p"
    and item: "\<And>x. jwf x \<Longrightarrow> jget (child_segs p) (g (child_segs p) x) = None"
  shows "path_absent p (program_edit g p v)"
proof -
  have wf: "jwf v" using s by (simp add: shape_def)
  have triv: "every_item (\<lambda>x. True) (jget ks v)" for ks
    by (simp add: every_item_def split: option.split json.split)
  have items: "every_item (\<lambda>x. jget (child_segs p) x = None) (jget ks (on_items ks (g (child_segs p)) v))"
    if "ks \<noteq> []" for ks
    by (rule absent_items_same [OF wf that triv]) (rule item)
  from p show ?thesis
  proof (cases rule: program_path_cases)
    case cluster
    then show ?thesis using item [OF wf] by (simp add: path_absent_def child_segs_def program_edit_def)
  next
    case (hosts b)
    then show ?thesis using items [of "[''cluster'', ''hosts'']"]
      by (simp add: path_absent_lists program_edit_def parent_paths child_segs_def del: jget.simps)
  next
    case (infra b)
    then show ?thesis using items [of "[''infra_envs'']"]
      by (simp add: path_absent_lists program_edit_def parent_paths child_segs_def del: jget.simps)
  qed
qed

section \<open>Deletions\<close>

lemma child_segs_nonempty: "program_path p \<Longrightarrow> child_segs p \<noteq> []"
  by (auto simp: child_segs_def program_path_def split: option.splits if_splits)

lemma delete_absent:
  "shape v \<Longrightarrow> list_all program_path ps \<Longrightarrow> program_path p \<Longrightarrow> p \<in> set ps \<or> path_absent p v \<Longrightarrow>
     path_absent p (tree_delete ps v)"
proof (induction ps arbitrary: v)
  case (Cons q ps)
  have q: "program_path q" using Cons.prems(2) by simp
  have eq: "path_delete q v = program_edit jdel q v" by (rule path_delete_program [OF Cons.prems(1) q])
  have s: "shape (path_delete q v)" using delete_step [OF Cons.prems(1) q] by simp
  have wf: "jwf v" using Cons.prems(1) by (simp add: shape_def)
  have "p \<in> set ps \<or> path_absent p (path_delete q v)"
  proof (cases "p = q")
    case True
    have "path_absent q (program_edit jdel q v)"
      by (rule absent_established [OF Cons.prems(1) q]) (rule jget_jdel_same [OF _ child_segs_nonempty [OF q]])
    with True eq show ?thesis by simp
  next
    case False
    have "path_absent p (program_edit jdel q v)" if "path_absent p v"
      by (rule absent_preserved [OF Cons.prems(1,3) q edit_local_jdel [OF wf] _ that]) (rule jget_jdel_None)
    with False Cons.prems(4) eq show ?thesis by auto
  qed
  from Cons.IH [OF s _ Cons.prems(3) this] Cons.prems(2) show ?case by (simp add: tree_delete_def)
qed (simp add: tree_delete_def)

section \<open>Renamings\<close>

lemma sibling_facts:
  assumes "program_rename (p, q)"
  shows "\<forall>k\<in>set (sibling (p, q)). valid_utf8 k" "cluster_path (segs p) \<Longrightarrow> \<not> isComplexPath p \<Longrightarrow> cluster_path (sibling (p, q))"
  using assms
  by (auto simp: program_rename_def program_path_def sibling_def rename_path_def plain_segs split: option.splits if_splits)

lemma rename_absent:
  "shape v \<Longrightarrow> list_all program_rename sds \<Longrightarrow> program_path p \<Longrightarrow>
     \<forall>sd\<in>set sds. apart (sibling sd) (child_segs p) \<Longrightarrow> p \<in> fst ` set sds \<or> path_absent p v \<Longrightarrow>
     path_absent p (total_rename sds v)"
proof (induction sds arbitrary: v)
  case (Cons sd sds)
  obtain a b where sd: "sd = (a, b)" by fastforce
  have pr: "program_rename (a, b)" using Cons.prems(2) sd by simp
  have a: "program_path a" using pr by (simp add: program_rename_def)
  let ?g = "\<lambda>ks. node_rename ks (sibling (a, b))"
  have s: "shape (program_edit ?g a v)" using rename_step [OF Cons.prems(1) pr] by simp
  have wf: "jwf v" using Cons.prems(1) by (simp add: shape_def)
  have "p \<in> fst ` set sds \<or> path_absent p (program_edit ?g a v)"
  proof (cases "p = a")
    case True
    have "path_absent a (program_edit ?g a v)"
      by (rule absent_established [OF Cons.prems(1) a])
        (rule node_rename_absent [OF _ sibling_facts(1) [OF pr] child_segs_nonempty [OF a]])
    with True show ?thesis by simp
  next
    case False
    have "path_absent p (program_edit ?g a v)" if abs: "path_absent p v"
    proof (rule absent_preserved [OF Cons.prems(1,3) a _ _ abs])
      show "edit_local ?g a v"
        by (rule edit_local_rename [OF wf sibling_facts(1) [OF pr]]) (rule sibling_facts(2) [OF pr])
      show "jget (child_segs p) (?g (child_segs a) x) = None" if "jwf x" "jget (child_segs p) x = None" for x
        by (rule node_rename_None [OF that(1) sibling_facts(1) [OF pr] _ that(2)])
          (use Cons.prems(4) sd in simp)
    qed
    with False Cons.prems(5) sd show ?thesis by auto
  qed
  from Cons.IH [OF s _ Cons.prems(3) _ this] Cons.prems(2,4) show ?case by (simp add: total_rename_def sd)
qed (simp add: total_rename_def)

section \<open>No key of a secret is left\<close>

lemma rename_targets:
  assumes "range_ok ord"
  shows "\<forall>sd\<in>set (map_range ord getDefaultFieldsToAnonymize).
      \<forall>p\<in>fst ` set getDefaultFieldsToAnonymize. apart (sibling sd) (child_segs p)"
proof -
  have "msorted getDefaultFieldsToAnonymize"
    unfolding getDefaultFieldsToAnonymize_def by (rule msorted_mfold) simp
  then have "set (map_range ord getDefaultFieldsToAnonymize) = set getDefaultFieldsToAnonymize"
    by (rule set_map_range [OF assms])
  moreover have "list_all (\<lambda>sd. list_all (\<lambda>p. apart (sibling sd) (child_segs (fst p))) getDefaultFieldsToAnonymize)
      getDefaultFieldsToAnonymize"
    by code_simp
  ultimately show ?thesis by (simp add: list_all_iff)
qed

lemma pipeline_absent:
  assumes ord: "range_ok ord" and s: "shape v"
    and p: "p \<in> set getDefaultFieldsToDelete \<or> p \<in> fst ` set getDefaultFieldsToAnonymize"
  shows "path_absent p (tree_pipeline ord v)"
proof -
  let ?rn = "map_range ord getDefaultFieldsToAnonymize"
  define v4 where "v4 = tree_transform hash_sensitive (map fst ?rn)
      (tree_transform (mapToList ord) getDefaultFieldsMapToList
        (tree_transform (mapToListDropKey ord) getDefaultFieldsMapToListDropKey
          (tree_transform (\<lambda>u. Some u) getDefaultFieldsToUnpack v)))"
  have s4: "shape v4" unfolding v4_def
    using ord s by (intro run_transform [THEN conjunct2] program_paths anonymize_paths
        fn_ok_unpack fn_ok_drop fn_ok_list fn_ok_hash)
  have s5: "shape (total_rename ?rn v4)"
    using run_rename [OF s4 anonymize_paths(1) [OF ord]] by simp
  have eq: "tree_pipeline ord v = tree_delete getDefaultFieldsToDelete (total_rename ?rn v4)"
    by (simp add: tree_pipeline_def v4_def Let_def)
  have set: "set ?rn = set getDefaultFieldsToAnonymize"
    by (rule set_map_range [OF ord]) (unfold getDefaultFieldsToAnonymize_def, rule msorted_mfold, simp)
  have pp: "program_path p"
    using p program_paths(4,5) by (auto simp: list_all_iff program_rename_def)
  have "path_absent p (total_rename ?rn v4)" if "p \<in> fst ` set getDefaultFieldsToAnonymize"
    by (rule rename_absent [OF s4 anonymize_paths(1) [OF ord] pp])
      (use rename_targets [OF ord] that set in blast)+
  then show ?thesis
    unfolding eq using p by (intro delete_absent [OF s5 program_paths(4) pp]) blast
qed

lemma secret_paths:
  "set getDefaultFieldsToDelete = {''cluster.pull_secret'', ''cluster.ssh_public_key'',
     ''cluster.hosts[*].infra_env.ssh_authorized_key'', ''infra_envs[*].ssh_authorized_key''}"
  "fst ` set getDefaultFieldsToAnonymize = {''cluster.user_name'', ''cluster.hosts[*].user_name'',
     ''cluster.hosts[*].infra_env.user_name'', ''infra_envs[*].user_name''}"
  by code_simp+

lemma secret_segs:
  "\<not> isComplexPath ''cluster.pull_secret''" "segs ''cluster.pull_secret'' = [''cluster'', ''pull_secret'']"
  "\<not> isComplexPath ''cluster.ssh_public_key''" "segs ''cluster.ssh_public_key'' = [''cluster'', ''ssh_public_key'']"
  "\<not> isComplexPath ''cluster.user_name''" "segs ''cluster.user_name'' = [''cluster'', ''user_name'']"
  "isComplexPath ''cluster.hosts[*].infra_env.ssh_authorized_key''"
  "split_path ''cluster.hosts[*].infra_env.ssh_authorized_key'' = Some (''cluster.hosts'', ''infra_env.ssh_authorized_key'')"
  "segs ''infra_env.ssh_authorized_key'' = [''infra_env'', ''ssh_authorized_key'']"
  "isComplexPath ''infra_envs[*].ssh_authorized_key''"
  "split_path ''infra_envs[*].ssh_authorized_key'' = Some (''infra_envs'', ''ssh_authorized_key'')"
  "segs ''ssh_authorized_key'' = [''ssh_authorized_key'']"
  "isComplexPath ''cluster.hosts[*].user_name''"
  "split_path ''cluster.hosts[*].user_name'' = Some (''cluster.hosts'', ''user_name'')"
  "segs ''user_name'' = [''user_name'']"
  "isComplexPath ''cluster.hosts[*].infra_env.user_name''"
  "split_path ''cluster.hosts[*].infra_env.user_name'' = Some (''cluster.hosts'', ''infra_env.user_name'')"
  "segs ''infra_env.user_name'' = [''infra_env'', ''user_name'']"
  "isComplexPath ''infra_envs[*].user_name''"
  "split_path ''infra_envs[*].user_name'' = Some (''infra_envs'', ''user_name'')"
  by code_simp+

lemma absent_facts:
  assumes ord: "range_ok ord" and s: "shape v"
  shows "jget [''cluster'', ''pull_secret''] (tree_pipeline ord v) = None"
    "jget [''cluster'', ''ssh_public_key''] (tree_pipeline ord v) = None"
    "jget [''cluster'', ''user_name''] (tree_pipeline ord v) = None"
    "every_item (\<lambda>h. jget [''infra_env'', ''ssh_authorized_key''] h = None \<and> jget [''user_name''] h = None
       \<and> jget [''infra_env'', ''user_name''] h = None) (jget [''cluster'', ''hosts''] (tree_pipeline ord v))"
    "every_item (\<lambda>x. jget [''ssh_authorized_key''] x = None \<and> jget [''user_name''] x = None)
       (jget [''infra_envs''] (tree_pipeline ord v))"
proof -
  note a = pipeline_absent [OF ord s, unfolded secret_paths]
  show "jget [''cluster'', ''pull_secret''] (tree_pipeline ord v) = None"
    using a [of "''cluster.pull_secret''"] by (simp add: path_absent_def secret_segs del: jget.simps)
  show "jget [''cluster'', ''ssh_public_key''] (tree_pipeline ord v) = None"
    using a [of "''cluster.ssh_public_key''"] by (simp add: path_absent_def secret_segs del: jget.simps)
  show "jget [''cluster'', ''user_name''] (tree_pipeline ord v) = None"
    using a [of "''cluster.user_name''"] by (simp add: path_absent_def secret_segs del: jget.simps)
  have h: "every_item (\<lambda>x. jget [''infra_env'', ''ssh_authorized_key''] x = None) (jget [''cluster'', ''hosts''] (tree_pipeline ord v))"
    "every_item (\<lambda>x. jget [''user_name''] x = None) (jget [''cluster'', ''hosts''] (tree_pipeline ord v))"
    "every_item (\<lambda>x. jget [''infra_env'', ''user_name''] x = None) (jget [''cluster'', ''hosts''] (tree_pipeline ord v))"
    using a [of "''cluster.hosts[*].infra_env.ssh_authorized_key''"] a [of "''cluster.hosts[*].user_name''"]
      a [of "''cluster.hosts[*].infra_env.user_name''"]
    by (simp_all add: path_absent_def secret_segs parent_paths del: jget.simps)
  then show "every_item (\<lambda>h. jget [''infra_env'', ''ssh_authorized_key''] h = None \<and> jget [''user_name''] h = None
       \<and> jget [''infra_env'', ''user_name''] h = None) (jget [''cluster'', ''hosts''] (tree_pipeline ord v))"
    by (auto simp: every_item_def simp del: jget.simps split: option.splits json.splits)
  have i: "every_item (\<lambda>x. jget [''ssh_authorized_key''] x = None) (jget [''infra_envs''] (tree_pipeline ord v))"
    "every_item (\<lambda>x. jget [''user_name''] x = None) (jget [''infra_envs''] (tree_pipeline ord v))"
    using a [of "''infra_envs[*].ssh_authorized_key''"] a [of "''infra_envs[*].user_name''"]
    by (simp_all add: path_absent_def secret_segs parent_paths del: jget.simps)
  then show "every_item (\<lambda>x. jget [''ssh_authorized_key''] x = None \<and> jget [''user_name''] x = None)
       (jget [''infra_envs''] (tree_pipeline ord v))"
    by (auto simp: every_item_def simp del: jget.simps split: option.splits json.splits)
qed

lemma jget_obj: "jget [k] (JObj m) = mget m k"
  by (simp split: option.split)

lemma jget_obj2: "jget [k, l] (JObj m) = None \<Longrightarrow> mget m k = Some (JObj n) \<Longrightarrow> mget n l = None"
  by (auto split: option.splits)

lemma event_hosts_items:
  assumes "every_item P (jget [''cluster'', ''hosts''] v)" "h \<in> set (getHostsFromEvent (value_event v))"
  shows "P (JObj h)"
proof (cases v)
  case (JObj M)
  then obtain c where c: "mget M ''cluster'' = Some (JObj c)"
    using assms(2) by (auto simp: getHostsFromEvent_def value_event_def Let_def field_json_def json_obj_def
        split: option.splits json.splits)
  obtain hs where hs: "mget c ''hosts'' = Some (JArr hs)"
  proof (cases "\<exists>hs. mget c ''hosts'' = Some (JArr hs)")
    case False
    then have "getHostsFromEvent (value_event v) = []"
      using JObj c by (auto simp: getHostsFromEvent_def value_event_def Let_def field_json_def json_obj_def
          split: option.split json.split)
    with assms(2) show thesis by simp
  qed (use that in blast)
  have "JObj h \<in> set hs"
    using assms(2) JObj c hs
    by (auto simp: getHostsFromEvent_def value_event_def Let_def field_json_def json_obj_def split: json.splits)
  then show ?thesis using assms(1) JObj c hs by (simp add: every_item_def)
qed (use assms(2) in \<open>simp_all add: getHostsFromEvent_def value_event_def Let_def field_json_def\<close>)

lemma transformed_no_secrets:
  assumes "json_edit_lib (pe_lib env)" "range_ok (pe_range env)" "event_ok e"
    "host_len (event_value e) \<le> 2 ^ 52"
    "getTransformedEvent env NewEventEnricher e = Return e'"
  shows "(\<forall>c. ee_cluster e' = Some c \<longrightarrow>
       mget c ''pull_secret'' = None \<and> mget c ''ssh_public_key'' = None \<and> mget c ''user_name'' = None) \<and>
     (\<forall>h\<in>set (getHostsFromEvent e'). mget h ''user_name'' = None \<and>
       (\<forall>ie. getInfraEnvFromHost h = Some ie \<longrightarrow>
          mget ie ''ssh_authorized_key'' = None \<and> mget ie ''user_name'' = None)) \<and>
     (\<forall>ie. Some ie \<in> set (ee_infra_envs e') \<longrightarrow>
       mget ie ''ssh_authorized_key'' = None \<and> mget ie ''user_name'' = None)"
proof -
  define v where "v = tree_pipeline (pe_range env) (event_value e)"
  have s: "shape (event_value e)" using assms(3) by (simp add: event_ok_def)
  note a = absent_facts [OF assms(2) s, folded v_def]
  have e': "e' = AddHostsSummary (pe_range env) (value_event v)"
    using getTransformedEvent_core [OF assms(1-4)] assms(5) pipeline_event_value [OF assms(2,3)]
    by (simp add: v_def)
  then have f: "ee_cluster e' = ee_cluster (value_event v)" "ee_infra_envs e' = ee_infra_envs (value_event v)"
    "getHostsFromEvent e' = getHostsFromEvent (value_event v)"
    by (simp_all add: AddHostsSummary_def getHostsFromEvent_def)
  have sv: "shape v" unfolding v_def by (rule shape_pipeline [OF assms(2) s])
  have "mget c ''pull_secret'' = None \<and> mget c ''ssh_public_key'' = None \<and> mget c ''user_name'' = None"
    if "ee_cluster e' = Some c" for c
  proof -
    have "jget [''cluster''] v = Some (JObj c)"
      using that f(1) by (auto simp: value_event_def Let_def field_json_def json_obj_def
          simp del: jget.simps split: json.splits bind_splits)
    then have "jget [k] (JObj c) = jget [''cluster'', k] v" for k
      using jget_append [of "[''cluster'']" "[k]" v] by (simp del: jget.simps)
    then show ?thesis using a(1-3) by (metis jget_obj)
  qed
  moreover have "mget h ''user_name'' = None \<and> (\<forall>ie. getInfraEnvFromHost h = Some ie \<longrightarrow>
      mget ie ''ssh_authorized_key'' = None \<and> mget ie ''user_name'' = None)"
    if "h \<in> set (getHostsFromEvent e')" for h
  proof -
    have h: "jget [''infra_env'', ''ssh_authorized_key''] (JObj h) = None" "jget [''user_name''] (JObj h) = None"
      "jget [''infra_env'', ''user_name''] (JObj h) = None"
      using event_hosts_items [OF a(4), of h] that f(3) by auto
    then show ?thesis
      using jget_obj2 [OF h(1)] jget_obj2 [OF h(3)]
      by (auto simp: getInfraEnvFromHost_def split: option.splits json.splits)
  qed
  moreover have "mget ie ''ssh_authorized_key'' = None \<and> mget ie ''user_name'' = None"
    if ie: "Some ie \<in> set (ee_infra_envs e')" for ie
  proof -
    obtain vs where vs: "jget [''infra_envs''] v = Some (JArr vs)" "Some ie \<in> json_obj ` set vs"
      using ie f(2) by (auto simp: value_event_def Let_def field_json_def
          simp del: jget.simps split: option.splits json.splits)
    then have "JObj ie \<in> set vs" by (auto simp: json_obj_def split: json.splits)
    then have "jget [''ssh_authorized_key''] (JObj ie) = None \<and> jget [''user_name''] (JObj ie) = None"
      using a(5) vs(1) by (simp add: every_item_def del: jget.simps)
    then show ?thesis unfolding jget_obj .
  qed
  ultimately show ?thesis by blast
qed

text \<open>
  C2. The transformed event has no key \<^verbatim>\<open>pull_secret\<close>, \<^verbatim>\<open>ssh_public_key\<close> or \<^verbatim>\<open>user_name\<close> in its
  cluster, no \<^verbatim>\<open>user_name\<close> in a host, and no \<^verbatim>\<open>ssh_authorized_key\<close> or \<^verbatim>\<open>user_name\<close> in an infra-env or
  in the infra-env of a host. (What \<^verbatim>\<open>user_id\<close> holds instead of the name is shown in \<open>UserNames\<close>.)
\<close>

theorem getTransformedEvent_no_secret_keys:
  assumes "json_edit_lib (pe_lib env)" "range_ok (pe_range env)" "event_ok e"
    "host_len (event_value e) \<le> 2 ^ 52"
    "getTransformedEvent env NewEventEnricher e = Return e'"
  shows "(\<forall>c. ee_cluster e' = Some c \<longrightarrow>
       mget c ''pull_secret'' = None \<and> mget c ''ssh_public_key'' = None \<and> mget c ''user_name'' = None) \<and>
     (\<forall>h\<in>set (getHostsFromEvent e'). mget h ''user_name'' = None \<and>
       (\<forall>ie. getInfraEnvFromHost h = Some ie \<longrightarrow>
          mget ie ''ssh_authorized_key'' = None \<and> mget ie ''user_name'' = None)) \<and>
     (\<forall>ie. Some ie \<in> set (ee_infra_envs e') \<longrightarrow>
       mget ie ''ssh_authorized_key'' = None \<and> mget ie ''user_name'' = None)"
  by (rule transformed_no_secrets [OF assms])

end
