(* ===== verification/UserNames.thy ===== *)
theory UserNames
  imports Secrets
begin

text \<open>
  What the enrichment puts in place of a user name. The edits of the pipeline are followed at one
  node, in the cluster or in one item of a list: those at other paths leave it alone, the
  anonymising edit hashes it, and the renaming moves it to its sibling.
\<close>

section \<open>Nodes in lists\<close>

text \<open>
  A node is found by the list it is in, if any (\<open>container\<close>, empty for a path of the cluster),
  the index in that list, and the path from there.
\<close>

definition container :: "string \<Rightarrow> string list" where
  "container p = (if isComplexPath p then (case split_path p of Some (a, b) \<Rightarrow> segs a | None \<Rightarrow> []) else [])"

definition list_items :: "json option \<Rightarrow> json list" where
  "list_items w = (case w of Some (JArr vs) \<Rightarrow> vs | _ \<Rightarrow> [])"

definition item_at :: "string list \<Rightarrow> nat \<Rightarrow> json \<Rightarrow> json option" where
  "item_at L i v =
     (if L = [] then Some v
      else if i < length (list_items (jget L v)) then Some (list_items (jget L v) ! i) else None)"

definition node_at :: "string list \<Rightarrow> nat \<Rightarrow> string list \<Rightarrow> json \<Rightarrow> json option" where
  "node_at L i ks v = Option.bind (item_at L i v) (jget ks)"

definition locus :: "string list \<Rightarrow> string list \<Rightarrow> bool" where
  "locus L ks = (L = [] \<and> cluster_path ks \<or> L = [''cluster'', ''hosts''] \<or> L = [''infra_envs''])"

lemma list_items_mem: "x \<in> set (list_items w) \<Longrightarrow> \<exists>vs. w = Some (JArr vs) \<and> x \<in> set vs"
  by (auto simp: list_items_def split: option.splits json.splits)

lemma item_at_jwf: "jwf v \<Longrightarrow> item_at L i v = Some x \<Longrightarrow> jwf x"
proof (cases "L = []")
  case False
  assume "jwf v" "item_at L i v = Some x"
  then have "x \<in> set (list_items (jget L v))" "jwf v" using False by (auto simp: item_at_def split: if_splits)
  then obtain vs where "jget L v = Some (JArr vs)" "x \<in> set vs" using list_items_mem by blast
  with \<open>jwf v\<close> show "jwf x" by (rule list_items_jwf)
qed (simp add: item_at_def)

lemma container_path:
  assumes "program_path q"
  shows "container q = [] \<and> \<not> isComplexPath q \<or> container q = [''cluster'', ''hosts''] \<or> container q = [''infra_envs'']"
  using assms by (cases rule: program_path_cases) (simp_all add: container_def parent_paths)

text \<open>An edit along a path changes the items of its own list, and nothing elsewhere.\<close>

lemma list_items_on_items:
  "jwf v \<Longrightarrow> ks \<noteq> [] \<Longrightarrow> list_items (jget ks (on_items ks h v)) = map h (list_items (jget ks v))"
  by (simp add: jget_on_items list_items_def split: option.split json.split)

lemma program_edit_items:
  assumes "jwf v" "program_path q" "edit_local g q v" "L = [''cluster'', ''hosts''] \<or> L = [''infra_envs'']"
  shows "list_items (jget L (program_edit g q v)) =
    (if container q = L then map (g (child_segs q)) (list_items (jget L v)) else list_items (jget L v))"
  using assms(2)
proof (cases rule: program_path_cases)
  case cluster
  then show ?thesis
    using assms(3,4) by (auto simp: edit_local_def container_def program_edit_def simp del: jget.simps)
next
  case (hosts b)
  then have e: "program_edit g q v = on_items [''cluster'', ''hosts''] (g (child_segs q)) v"
    "container q = [''cluster'', ''hosts'']"
    by (simp_all add: program_edit_def child_segs_def container_def parent_paths)
  have "jget [''infra_envs''] (on_items [''cluster'', ''hosts''] h v) = jget [''infra_envs''] v" for h
    by (rule jget_on_items_apart [OF assms(1)]) simp
  then show ?thesis
    unfolding e using assms(4) list_items_on_items [OF assms(1), of "[''cluster'', ''hosts'']"]
    by (elim disjE) (simp_all del: jget.simps)
next
  case (infra b)
  then have e: "program_edit g q v = on_items [''infra_envs''] (g (child_segs q)) v" "container q = [''infra_envs'']"
    by (simp_all add: program_edit_def child_segs_def container_def parent_paths)
  have "jget [''cluster'', ''hosts''] (on_items [''infra_envs''] h v) = jget [''cluster'', ''hosts''] v" for h
    by (rule jget_on_items_apart [OF assms(1)]) simp
  then show ?thesis
    unfolding e using assms(4) list_items_on_items [OF assms(1), of "[''infra_envs'']"]
    by (elim disjE) (simp_all del: jget.simps)
qed

lemma node_at_same:
  assumes "jwf v" "program_path q" "edit_local g q v" "container q = L"
  shows "node_at L i ks (program_edit g q v) = Option.bind (item_at L i v) (\<lambda>x. jget ks (g (child_segs q) x))"
proof (cases "L = []")
  case True
  then have "program_edit g q v = g (child_segs q) v"
    using container_path [OF assms(2)] assms(4) by (auto simp: program_edit_def child_segs_def)
  with True show ?thesis by (simp add: node_at_def item_at_def)
next
  case False
  then have "L = [''cluster'', ''hosts''] \<or> L = [''infra_envs'']" using container_path [OF assms(2)] assms(4) by blast
  from program_edit_items [OF assms(1-3) this] assms(4) False show ?thesis by (simp add: node_at_def item_at_def)
qed

lemma node_at_keeps:
  assumes "jwf v" "program_path q" "edit_local g q v" "locus L ks"
    "container q = L \<Longrightarrow> (\<And>x. jwf x \<Longrightarrow> jget ks (g (child_segs q) x) = jget ks x)"
  shows "node_at L i ks (program_edit g q v) = node_at L i ks v"
proof (cases "container q = L")
  case True
  show ?thesis
    unfolding node_at_same [OF assms(1-3) True] unfolding node_at_def
    by (cases "item_at L i v") (simp_all add: assms(5) [OF True item_at_jwf [OF assms(1)]])
next
  case False
  show ?thesis
  proof (cases "L = []")
    case True
    then have c: "cluster_path ks" using assms(4) by (auto simp: locus_def)
    from assms(2) show ?thesis
    proof (cases rule: program_path_cases)
      case cluster
      with False True show ?thesis by (simp add: container_def)
    next
      case (hosts b)
      then show ?thesis using True jget_on_items_apart [OF assms(1) cluster_apart(3) [OF c]]
        by (simp add: program_edit_def parent_paths node_at_def item_at_def)
    next
      case (infra b)
      then show ?thesis using True jget_on_items_apart [OF assms(1) cluster_apart(4) [OF c]]
        by (simp add: program_edit_def parent_paths node_at_def item_at_def)
    qed
  next
    case nonempty: False
    then have "L = [''cluster'', ''hosts''] \<or> L = [''infra_envs'']" using assms(4) by (auto simp: locus_def)
    from program_edit_items [OF assms(1-3) this] False nonempty show ?thesis by (simp add: node_at_def item_at_def)
  qed
qed

lemma node_transform_apart: "jwf v \<Longrightarrow> apart ks ls \<Longrightarrow> jget ls (node_transform f ks v) = jget ls v"
  by (auto simp: node_transform_def jget_jset_apart split: option.split)

lemma node_rename_apart:
  assumes "jwf v" "\<forall>k\<in>set ls. valid_utf8 k" "apart ks ms" "apart ls ms"
  shows "jget ms (node_rename ks ls v) = jget ms v"
proof (cases "jget ks v")
  case (Some w)
  have "jwf (jset ls (reread_node w) v)" by (rule jset_jwf [OF assms(1) reread_jwf [OF jget_jwf [OF assms(1) Some]] assms(2)])
  with Some show ?thesis
    using assms by (simp add: node_rename_def jget_jdel_apart jget_jset_apart)
qed (simp add: node_rename_def)

text \<open>Whole runs of edits, none of which touches the node.\<close>

definition all_apart :: "string list \<Rightarrow> string list \<Rightarrow> string list \<Rightarrow> bool" where
  "all_apart L ks ps = list_all (\<lambda>p. container p = L \<longrightarrow> apart (child_segs p) ks) ps"

lemma transform_keeps:
  "shape v \<Longrightarrow> list_all program_path ps \<Longrightarrow> fn_ok f \<Longrightarrow> locus L ks \<Longrightarrow> all_apart L ks ps \<Longrightarrow>
     node_at L i ks (tree_transform f ps v) = node_at L i ks v"
proof (induction ps arbitrary: v)
  case (Cons p ps)
  have p: "program_path p" using Cons.prems(2) by simp
  have wf: "jwf v" using Cons.prems(1) by (simp add: shape_def)
  have s: "shape (path_transform f p v)" using transform_step [OF Cons.prems(1) p Cons.prems(3)] by simp
  have "node_at L i ks (program_edit (node_transform f) p v) = node_at L i ks v"
    by (rule node_at_keeps [OF wf p edit_local_transform [OF wf] Cons.prems(4)])
      (use Cons.prems(5) node_transform_apart in \<open>simp add: all_apart_def\<close>)
  with Cons.IH [OF s] Cons.prems show ?case
    by (simp add: tree_transform_def path_transform_program [OF Cons.prems(1) p] all_apart_def)
qed (simp add: tree_transform_def)

lemma delete_keeps:
  "shape v \<Longrightarrow> list_all program_path ps \<Longrightarrow> locus L ks \<Longrightarrow> all_apart L ks ps \<Longrightarrow>
     node_at L i ks (tree_delete ps v) = node_at L i ks v"
proof (induction ps arbitrary: v)
  case (Cons p ps)
  have p: "program_path p" using Cons.prems(2) by simp
  have wf: "jwf v" using Cons.prems(1) by (simp add: shape_def)
  have s: "shape (path_delete p v)" using delete_step [OF Cons.prems(1) p] by simp
  have "node_at L i ks (program_edit jdel p v) = node_at L i ks v"
    by (rule node_at_keeps [OF wf p edit_local_jdel [OF wf] Cons.prems(3)])
      (use Cons.prems(4) jget_jdel_apart in \<open>simp add: all_apart_def\<close>)
  with Cons.IH [OF s] Cons.prems show ?case
    by (simp add: tree_delete_def path_delete_program [OF Cons.prems(1) p] all_apart_def)
qed (simp add: tree_delete_def)

lemma edit_local_sibling:
  "jwf v \<Longrightarrow> program_rename (p, q) \<Longrightarrow> edit_local (\<lambda>ks. node_rename ks (sibling (p, q))) p v"
  by (rule edit_local_rename [OF _ sibling_facts(1)]) (auto dest: sibling_facts(2))

definition renames_apart :: "string list \<Rightarrow> string list \<Rightarrow> (string \<times> string) list \<Rightarrow> bool" where
  "renames_apart L ks sds =
     list_all (\<lambda>sd. container (fst sd) = L \<longrightarrow> apart (child_segs (fst sd)) ks \<and> apart (sibling sd) ks) sds"

lemma rename_keeps:
  "shape v \<Longrightarrow> list_all program_rename sds \<Longrightarrow> locus L ks \<Longrightarrow> renames_apart L ks sds \<Longrightarrow>
     node_at L i ks (total_rename sds v) = node_at L i ks v"
proof (induction sds arbitrary: v)
  case (Cons sd sds)
  obtain p q where sd: "sd = (p, q)" by fastforce
  have pr: "program_rename (p, q)" using Cons.prems(2) sd by simp
  have p: "program_path p" using pr by (simp add: program_rename_def)
  have wf: "jwf v" using Cons.prems(1) by (simp add: shape_def)
  have s: "shape (program_edit (\<lambda>ks. node_rename ks (sibling (p, q))) p v)"
    using rename_step [OF Cons.prems(1) pr] by simp
  have "node_at L i ks (program_edit (\<lambda>ks. node_rename ks (sibling (p, q))) p v) = node_at L i ks v"
    by (rule node_at_keeps [OF wf p edit_local_sibling [OF wf pr] Cons.prems(3)])
      (use Cons.prems(4) sd node_rename_apart sibling_facts(1) [OF pr] in \<open>simp add: renames_apart_def\<close>)
  with Cons.IH [OF s] Cons.prems show ?case by (simp add: total_rename_def sd renames_apart_def)
qed (simp add: total_rename_def)

lemma total_rename_append: "total_rename (xs @ ys) v = total_rename ys (total_rename xs v)"
  by (simp add: total_rename_def)

lemma tree_transform_append: "tree_transform f (xs @ ys) v = tree_transform f ys (tree_transform f xs v)"
  by (simp add: tree_transform_def)

text \<open>The paths of user names and the pseudonyms beside them, each apart from all other edits.\<close>

definition user_path :: "string \<times> string \<Rightarrow> bool" where
  "user_path sd =
     (let L = container (fst sd); n = child_segs (fst sd); m = sibling sd in
      n \<noteq> [] \<and> m \<noteq> [] \<and> butlast m = butlast n \<and> apart n m \<and> locus L n \<and> locus L m \<and>
      all_apart L n getDefaultFieldsToUnpack \<and> all_apart L n getDefaultFieldsMapToListDropKey \<and>
      all_apart L n getDefaultFieldsMapToList \<and> all_apart L m getDefaultFieldsToDelete \<and>
      list_all (\<lambda>sd'. fst sd' = fst sd \<or> all_apart L n [fst sd'] \<and> renames_apart L n [sd'] \<and> renames_apart L m [sd'])
        getDefaultFieldsToAnonymize)"

lemma user_paths_ok: "list_all user_path getDefaultFieldsToAnonymize"
  by code_simp

lemma anonymize_split:
  assumes "range_ok ord" "sd \<in> set getDefaultFieldsToAnonymize"
  obtains xs ys where "map_range ord getDefaultFieldsToAnonymize = xs @ sd # ys"
    "set xs \<union> set ys \<subseteq> set getDefaultFieldsToAnonymize" "\<forall>sd'\<in>set xs \<union> set ys. fst sd' \<noteq> fst sd"
proof -
  let ?l = "map_range ord getDefaultFieldsToAnonymize"
  have m: "msorted getDefaultFieldsToAnonymize"
    unfolding getDefaultFieldsToAnonymize_def by (rule msorted_mfold) simp
  have set: "set ?l = set getDefaultFieldsToAnonymize" by (rule set_map_range [OF assms(1) m])
  then obtain xs ys where l: "?l = xs @ sd # ys" using assms(2) by (metis split_list)
  have "distinct (map fst ?l)" by (rule distinct_map_range [OF assms(1) m])
  then have "\<forall>sd'\<in>set xs \<union> set ys. fst sd' \<noteq> fst sd" unfolding l by (auto simp: image_iff)
  with that l set show thesis by auto
qed

text \<open>At its own path, the anonymising edit and the renaming do what they should.\<close>

lemma node_hashed:
  assumes "shape v" "program_path p" "node_at (container p) i (child_segs p) v = Some w" "w \<noteq> JNull"
    "hash_sensitive (unpack_node w) = Some w'"
  shows "node_at (container p) i (child_segs p) (path_transform hash_sensitive p v) = Some w'"
proof -
  let ?n = "child_segs p"
  have wf: "jwf v" using assms(1) by (simp add: shape_def)
  obtain x where x: "item_at (container p) i v = Some x" "jget ?n x = Some w"
    using assms(3) by (auto simp: node_at_def bind_eq_Some_conv)
  have "jget ?n (jset ?n w' x) = Some w'"
    by (rule jget_jset_same [OF item_at_jwf [OF wf x(1)] jget_settable [OF x(2) child_segs_nonempty [OF assms(2)]]])
  then show ?thesis
    using x assms(4,5)
    by (simp add: path_transform_program [OF assms(1,2)] node_at_same [OF wf assms(2) edit_local_transform [OF wf] refl]
        node_transform_def)
qed

lemma node_renamed:
  assumes "shape v" "program_rename (p, q)" "user_path (p, q)" "node_at (container p) i (child_segs p) v = Some w"
  shows "node_at (container p) i (sibling (p, q)) (program_edit (\<lambda>ks. node_rename ks (sibling (p, q))) p v) =
    Some (reread_node w)"
proof -
  let ?n = "child_segs p" and ?m = "sibling (p, q)"
  have wf: "jwf v" using assms(1) by (simp add: shape_def)
  have p: "program_path p" using assms(2) by (simp add: program_rename_def)
  have u: "?m \<noteq> []" "butlast ?m = butlast ?n" "apart ?n ?m" "?n \<noteq> []"
    using assms(3) by (simp_all add: user_path_def Let_def)
  obtain x where x: "item_at (container p) i v = Some x" "jget ?n x = Some w"
    using assms(4) by (auto simp: node_at_def bind_eq_Some_conv)
  have wx: "jwf x" by (rule item_at_jwf [OF wf x(1)])
  have st: "settable ?m x" using jget_settable [OF x(2) u(4)] u(1,2) by (simp add: settable_def)
  have "jwf (jset ?m (reread_node w) x)"
    by (rule jset_jwf [OF wx reread_jwf [OF jget_jwf [OF wx x(2)]] sibling_facts(1) [OF assms(2)]])
  then have "jget ?m (node_rename ?n ?m x) = Some (reread_node w)"
    using x(2) by (simp add: node_rename_def jget_jdel_apart [OF _ u(3)] jget_jset_same [OF wx st])
  with x(1) show ?thesis by (simp add: node_at_same [OF wf p edit_local_sibling [OF wf assms(2)] refl])
qed

lemma pipeline_user_id:
  assumes ord: "range_ok ord" and s: "shape v" and pq: "(p, q) \<in> set getDefaultFieldsToAnonymize"
    and w: "node_at (container p) i (child_segs p) v = Some w" "w \<noteq> JNull"
    and h: "hash_sensitive (unpack_node w) = Some w'" "w' \<noteq> JNull"
  shows "node_at (container p) i (sibling (p, q)) (tree_pipeline ord v) = Some (unpack_node w')"
proof -
  let ?L = "container p" and ?n = "child_segs p" and ?m = "sibling (p, q)"
  have up: "user_path (p, q)" using user_paths_ok pq by (auto simp: list_all_iff)
  then have loc: "locus ?L ?n" "locus ?L ?m" and ap: "all_apart ?L ?n getDefaultFieldsToUnpack"
    "all_apart ?L ?n getDefaultFieldsMapToListDropKey" "all_apart ?L ?n getDefaultFieldsMapToList"
    "all_apart ?L ?m getDefaultFieldsToDelete"
    and others: "list_all (\<lambda>sd'. fst sd' = p \<or> all_apart ?L ?n [fst sd'] \<and> renames_apart ?L ?n [sd'] \<and>
      renames_apart ?L ?m [sd']) getDefaultFieldsToAnonymize"
    by (simp_all add: user_path_def Let_def)
  obtain xs ys where l: "map_range ord getDefaultFieldsToAnonymize = xs @ (p, q) # ys"
    "set xs \<union> set ys \<subseteq> set getDefaultFieldsToAnonymize" "\<forall>sd'\<in>set xs \<union> set ys. fst sd' \<noteq> fst (p, q)"
    by (rule anonymize_split [OF ord pq])
  have away: "all_apart ?L ?n (map fst zs) \<and> renames_apart ?L ?n zs \<and> renames_apart ?L ?m zs"
    if "set zs \<subseteq> set xs \<union> set ys" for zs
  proof -
    have "\<forall>sd\<in>set zs. sd \<in> set getDefaultFieldsToAnonymize \<and> fst sd \<noteq> p" using that l(2,3) by auto
    then have "\<forall>sd\<in>set zs. all_apart ?L ?n [fst sd] \<and> renames_apart ?L ?n [sd] \<and> renames_apart ?L ?m [sd]"
      using others unfolding list_all_iff by blast
    then show ?thesis by (simp add: all_apart_def renames_apart_def list_all_iff)
  qed
  note ays = away [OF Un_upper2] and axs = away [OF Un_upper1]
  note an = anonymize_paths [OF ord, unfolded l(1)]
  have pp: "list_all program_path (map fst xs)" "list_all program_path (map fst ys)" "program_path p"
    "list_all program_rename xs" "list_all program_rename ys" "program_rename (p, q)"
    using an by auto
  define v3 where "v3 = tree_transform (mapToList ord) getDefaultFieldsMapToList
    (tree_transform (mapToListDropKey ord) getDefaultFieldsMapToListDropKey
      (tree_transform (\<lambda>u. Some u) getDefaultFieldsToUnpack v))"
  note s1 = run_transform [OF s program_paths(1) fn_ok_unpack, THEN conjunct2]
  note s2 = run_transform [OF s1 program_paths(2) fn_ok_drop [OF ord], THEN conjunct2]
  note s3 = run_transform [OF s2 program_paths(3) fn_ok_list [OF ord], THEN conjunct2, folded v3_def]
  have w3: "node_at ?L i ?n v3 = Some w"
    unfolding v3_def transform_keeps [OF s2 program_paths(3) fn_ok_list [OF ord] loc(1) ap(3)]
      transform_keeps [OF s1 program_paths(2) fn_ok_drop [OF ord] loc(1) ap(2)]
      transform_keeps [OF s program_paths(1) fn_ok_unpack loc(1) ap(1)] by (rule w(1))
  define a where "a = tree_transform hash_sensitive (map fst xs) v3"
  define b where "b = path_transform hash_sensitive p a"
  define c where "c = tree_transform hash_sensitive (map fst ys) b"
  define d where "d = total_rename xs c"
  define e where "e = program_edit (\<lambda>ks. node_rename ks ?m) p d"
  have sa: "shape a" unfolding a_def by (rule run_transform [OF s3 pp(1) fn_ok_hash, THEN conjunct2])
  have sb: "shape b" unfolding b_def by (rule transform_step [OF sa pp(3) fn_ok_hash, THEN conjunct2])
  have sc: "shape c" unfolding c_def by (rule run_transform [OF sb pp(2) fn_ok_hash, THEN conjunct2])
  have sd: "shape d" unfolding d_def using run_rename [OF sc pp(4)] by simp
  have se: "shape e" unfolding e_def using rename_step [OF sd pp(6)] by simp
  have sf: "shape (total_rename ys e)" using run_rename [OF se pp(5)] by simp
  have "node_at ?L i ?n a = Some w"
    unfolding a_def using transform_keeps [OF s3 pp(1) fn_ok_hash loc(1)] axs w3 by simp
  then have "node_at ?L i ?n b = Some w'" unfolding b_def by (rule node_hashed [OF sa pp(3) _ w(2) h(1)])
  then have "node_at ?L i ?n c = Some w'"
    unfolding c_def using transform_keeps [OF sb pp(2) fn_ok_hash loc(1)] ays by simp
  then have "node_at ?L i ?n d = Some w'" unfolding d_def using rename_keeps [OF sc pp(4) loc(1)] axs by simp
  then have "node_at ?L i ?m e = Some (reread_node w')" unfolding e_def by (rule node_renamed [OF sd pp(6) up])
  then have "node_at ?L i ?m (tree_delete getDefaultFieldsToDelete (total_rename ys e)) = Some (reread_node w')"
    using delete_keeps [OF sf program_paths(4) loc(2) ap(4)] rename_keeps [OF se pp(5) loc(2)] ays by simp
  moreover have "tree_pipeline ord v = tree_delete getDefaultFieldsToDelete (total_rename ys e)"
    by (simp add: tree_pipeline_def Let_def l(1) tree_transform_append total_rename_append e_def d_def c_def b_def a_def v3_def)
      (simp add: tree_transform_def total_rename_def)
  ultimately show ?thesis using h(2) by (simp add: reread_node_def)
qed

section \<open>The objects of an event that have a user\<close>

text \<open>What stands for the user of an object \<open>a\<close> in the object \<open>b\<close> made of it.\<close>

definition user_turned :: "jobject option \<Rightarrow> jobject option \<Rightarrow> bool" where
  "user_turned a b = (\<forall>m w w'. a = Some m \<and> mget m ''user_name'' = Some w \<and> w \<noteq> JNull \<and>
     hash_sensitive (unpack_node w) = Some w' \<and> w' \<noteq> JNull \<longrightarrow>
     (\<exists>n. b = Some n \<and> mget n ''user_id'' = Some (unpack_node w')))"

definition user_hashed :: "jobject option \<Rightarrow> jobject option \<Rightarrow> bool" where
  "user_hashed a b = (\<forall>m s. a = Some m \<and> mget m ''user_name'' = Some (JStr s) \<and> json_Unmarshal s = None \<longrightarrow>
     (\<exists>n. b = Some n \<and> mget n ''user_id'' = Some (unpack_node (JStr (md5_hex s)))))"

lemma user_turned_hashed: "user_turned a b \<Longrightarrow> user_hashed a b"
  by (auto simp: user_turned_def user_hashed_def hash_sensitive_def unpack_node_def)

definition cluster_hosts :: "enriched_event \<Rightarrow> json list" where
  "cluster_hosts e = (case ee_cluster e of None \<Rightarrow> [] | Some c \<Rightarrow> list_items (mget c ''hosts''))"

definition host_infra_env :: "json \<Rightarrow> jobject option" where
  "host_infra_env h = (case h of JObj m \<Rightarrow> getInfraEnvFromHost m | _ \<Rightarrow> None)"

definition obj_at :: "string list \<Rightarrow> nat \<Rightarrow> string list \<Rightarrow> json \<Rightarrow> jobject option" where
  "obj_at L i ks v = Option.bind (node_at L i ks v) json_obj"

lemma json_obj_Some: "json_obj x = Some m \<longleftrightarrow> x = JObj m"
  by (cases x) (simp_all add: json_obj_def)

lemma node_at_append: "node_at L i (ks @ ls) v = Option.bind (node_at L i ks v) (jget ls)"
  by (cases "item_at L i v") (auto simp: node_at_def jget_append split: option.split)

lemma obj_at_member: "obj_at L i ks v = Some m \<Longrightarrow> node_at L i (ks @ [k]) v = mget m k"
  by (auto simp: obj_at_def node_at_append bind_eq_Some_conv json_obj_Some jget_obj simp del: jget.simps)

lemma pipeline_user:
  assumes "range_ok ord" "shape v" "(p, q) \<in> set getDefaultFieldsToAnonymize"
    "child_segs p = ks @ [''user_name'']" "sibling (p, q) = ks @ [''user_id'']" "container p = L"
  shows "user_turned (obj_at L i ks v) (obj_at L i ks (tree_pipeline ord v))"
  unfolding user_turned_def
proof (intro allI impI, elim conjE)
  fix m w w'
  assume m: "obj_at L i ks v = Some m" "mget m ''user_name'' = Some w" and w: "w \<noteq> JNull"
    "hash_sensitive (unpack_node w) = Some w'" "w' \<noteq> JNull"
  have "node_at L i (ks @ [''user_id'']) (tree_pipeline ord v) = Some (unpack_node w')"
    using pipeline_user_id [OF assms(1-3) _ w, of i] obj_at_member [OF m(1)] m(2) assms(4-6) by simp
  then obtain y where y: "node_at L i ks (tree_pipeline ord v) = Some y" "jget [''user_id''] y = Some (unpack_node w')"
    by (auto simp: node_at_append bind_eq_Some_conv simp del: jget.simps)
  then obtain n where "y = JObj n" by (cases y) simp_all
  with y show "\<exists>n. obj_at L i ks (tree_pipeline ord v) = Some n \<and> mget n ''user_id'' = Some (unpack_node w')"
    by (auto simp: obj_at_def jget_obj json_obj_Some simp del: jget.simps)
qed

lemma user_places:
  "(''cluster.user_name'', ''cluster.user_id'') \<in> set getDefaultFieldsToAnonymize"
  "(''cluster.hosts[*].user_name'', ''cluster.hosts[*].user_id'') \<in> set getDefaultFieldsToAnonymize"
  "(''cluster.hosts[*].infra_env.user_name'', ''cluster.hosts[*].infra_env.user_id'') \<in> set getDefaultFieldsToAnonymize"
  "(''infra_envs[*].user_name'', ''infra_envs[*].user_id'') \<in> set getDefaultFieldsToAnonymize"
  "child_segs ''cluster.user_name'' = [''cluster''] @ [''user_name'']"
  "sibling (''cluster.user_name'', ''cluster.user_id'') = [''cluster''] @ [''user_id'']"
  "child_segs ''cluster.hosts[*].user_name'' = [] @ [''user_name'']"
  "sibling (''cluster.hosts[*].user_name'', ''cluster.hosts[*].user_id'') = [] @ [''user_id'']"
  "child_segs ''cluster.hosts[*].infra_env.user_name'' = [''infra_env''] @ [''user_name'']"
  "sibling (''cluster.hosts[*].infra_env.user_name'', ''cluster.hosts[*].infra_env.user_id'') = [''infra_env''] @ [''user_id'']"
  "child_segs ''infra_envs[*].user_name'' = [] @ [''user_name'']"
  "sibling (''infra_envs[*].user_name'', ''infra_envs[*].user_id'') = [] @ [''user_id'']"
  "container ''cluster.user_name'' = []"
  "container ''cluster.hosts[*].user_name'' = [''cluster'', ''hosts'']"
  "container ''cluster.hosts[*].infra_env.user_name'' = [''cluster'', ''hosts'']"
  "container ''infra_envs[*].user_name'' = [''infra_envs'']"
  by code_simp+

text \<open>No edit changes how many items a list has.\<close>

lemma transform_length:
  assumes L: "L = [''cluster'', ''hosts''] \<or> L = [''infra_envs'']"
  shows "shape v \<Longrightarrow> list_all program_path ps \<Longrightarrow> fn_ok f \<Longrightarrow>
    length (list_items (jget L (tree_transform f ps v))) = length (list_items (jget L v))"
proof (induction ps arbitrary: v)
  case (Cons p ps)
  have p: "program_path p" using Cons.prems(2) by simp
  have wf: "jwf v" using Cons.prems(1) by (simp add: shape_def)
  have s: "shape (path_transform f p v)" using transform_step [OF Cons.prems(1) p Cons.prems(3)] by simp
  show ?case
    using Cons.IH [OF s] Cons.prems program_edit_items [OF wf p edit_local_transform [OF wf] L]
    by (simp add: tree_transform_def path_transform_program [OF Cons.prems(1) p] del: jget.simps split: if_splits)
qed (simp add: tree_transform_def)

lemma delete_length:
  assumes L: "L = [''cluster'', ''hosts''] \<or> L = [''infra_envs'']"
  shows "shape v \<Longrightarrow> list_all program_path ps \<Longrightarrow>
    length (list_items (jget L (tree_delete ps v))) = length (list_items (jget L v))"
proof (induction ps arbitrary: v)
  case (Cons p ps)
  have p: "program_path p" using Cons.prems(2) by simp
  have wf: "jwf v" using Cons.prems(1) by (simp add: shape_def)
  have s: "shape (path_delete p v)" using delete_step [OF Cons.prems(1) p] by simp
  show ?case
    using Cons.IH [OF s] Cons.prems program_edit_items [OF wf p edit_local_jdel [OF wf] L]
    by (simp add: tree_delete_def path_delete_program [OF Cons.prems(1) p] del: jget.simps split: if_splits)
qed (simp add: tree_delete_def)

lemma rename_length:
  assumes L: "L = [''cluster'', ''hosts''] \<or> L = [''infra_envs'']"
  shows "shape v \<Longrightarrow> list_all program_rename sds \<Longrightarrow>
    length (list_items (jget L (total_rename sds v))) = length (list_items (jget L v))"
proof (induction sds arbitrary: v)
  case (Cons sd sds)
  obtain p q where sd: "sd = (p, q)" by fastforce
  have pr: "program_rename (p, q)" using Cons.prems(2) sd by simp
  have p: "program_path p" using pr by (simp add: program_rename_def)
  have wf: "jwf v" using Cons.prems(1) by (simp add: shape_def)
  have s: "shape (program_edit (\<lambda>ks. node_rename ks (sibling (p, q))) p v)"
    using rename_step [OF Cons.prems(1) pr] by simp
  show ?case
    using Cons.IH [OF s] Cons.prems program_edit_items [OF wf p edit_local_sibling [OF wf pr] L]
    by (simp add: total_rename_def sd del: jget.simps split: if_splits)
qed (simp add: total_rename_def)

lemma pipeline_length:
  assumes ord: "range_ok ord" and s: "shape v" and L: "L = [''cluster'', ''hosts''] \<or> L = [''infra_envs'']"
  shows "length (list_items (jget L (tree_pipeline ord v))) = length (list_items (jget L v))"
proof -
  note s1 = run_transform [OF s program_paths(1) fn_ok_unpack, THEN conjunct2]
  note s2 = run_transform [OF s1 program_paths(2) fn_ok_drop [OF ord], THEN conjunct2]
  note s3 = run_transform [OF s2 program_paths(3) fn_ok_list [OF ord], THEN conjunct2]
  note s4 = run_transform [OF s3 anonymize_paths(2) [OF ord] fn_ok_hash, THEN conjunct2]
  note s5 = run_rename [OF s4 anonymize_paths(1) [OF ord], THEN conjunct2, THEN conjunct2]
  show ?thesis
    by (simp only: tree_pipeline_def Let_def delete_length [OF L s5 program_paths(4)]
        rename_length [OF L s4 anonymize_paths(1) [OF ord]] transform_length [OF L s3 anonymize_paths(2) [OF ord] fn_ok_hash]
        transform_length [OF L s2 program_paths(3) fn_ok_list [OF ord]]
        transform_length [OF L s1 program_paths(2) fn_ok_drop [OF ord]]
        transform_length [OF L s program_paths(1) fn_ok_unpack])
qed

text \<open>The objects of an event and the nodes of its value.\<close>

lemma node_hosts:
  "(case Option.bind w json_obj of None \<Rightarrow> [] | Some c \<Rightarrow> list_items (mget c ''hosts'')) =
     list_items (Option.bind w (jget [''hosts'']))"
proof (cases w)
  case (Some x)
  then show ?thesis by (cases x) (simp_all add: json_obj_def list_items_def split: option.split)
qed (simp add: list_items_def)

lemma event_objects:
  "ee_cluster (value_event v) = obj_at [] 0 [''cluster''] v"
    "cluster_hosts (value_event v) = list_items (jget [''cluster'', ''hosts''] v)"
    "ee_infra_envs (value_event v) = map json_obj (list_items (jget [''infra_envs''] v))"
proof -
  show c: "ee_cluster (value_event v) = obj_at [] 0 [''cluster''] v"
    by (simp add: value_event_def Let_def field_json_def obj_at_def node_at_def item_at_def del: jget.simps)
  have "jget [''cluster'', ''hosts''] v = Option.bind (jget [''cluster''] v) (jget [''hosts''])"
    using jget_append [of "[''cluster'']" "[''hosts'']" v] by (simp del: jget.simps split: option.split)
  then show "cluster_hosts (value_event v) = list_items (jget [''cluster'', ''hosts''] v)"
    unfolding cluster_hosts_def c by (simp add: obj_at_def node_at_def item_at_def node_hosts del: jget.simps)
  show "ee_infra_envs (value_event v) = map json_obj (list_items (jget [''infra_envs''] v))"
    by (simp add: value_event_def Let_def field_json_def list_items_def del: jget.simps split: option.split json.split)
qed

lemma item_obj_at:
  assumes "L \<noteq> []" "i < length (list_items (jget L v))"
  shows "obj_at L i [] v = json_obj (list_items (jget L v) ! i)"
    "obj_at L i [''infra_env''] v = host_infra_env (list_items (jget L v) ! i)"
  using assms
  by (auto simp: obj_at_def node_at_def item_at_def host_infra_env_def getInfraEnvFromHost_def json_obj_def
      split: json.split option.split)

lemma transformed_users:
  assumes "json_edit_lib (pe_lib env)" "range_ok (pe_range env)" "event_ok e"
    "host_len (event_value e) \<le> 2 ^ 52" "getTransformedEvent env NewEventEnricher e = Return e'"
  shows "user_turned (ee_cluster e) (ee_cluster e')"
    "list_all2 (\<lambda>h h'. user_turned (json_obj h) (json_obj h') \<and> user_turned (host_infra_env h) (host_infra_env h'))
       (cluster_hosts e) (cluster_hosts e')"
    "list_all2 user_turned (ee_infra_envs e) (ee_infra_envs e')"
proof -
  let ?H = "[''cluster'', ''hosts'']" and ?I = "[''infra_envs'']"
  define v where "v = event_value e"
  define v' where "v' = tree_pipeline (pe_range env) v"
  have s: "shape v" and wf: "wf_event e" using assms(3) by (simp_all add: event_ok_def v_def)
  have s': "shape v'" unfolding v'_def by (rule shape_pipeline [OF assms(2) s])
  have "e' = AddHostsSummary (pe_range env) (value_event v')"
    using getTransformedEvent_core [OF assms(1-4)] assms(5) pipeline_event_value [OF assms(2,3)]
    by (simp add: v_def v'_def)
  then have new: "ee_cluster e' = ee_cluster (value_event v')" "cluster_hosts e' = cluster_hosts (value_event v')"
    "ee_infra_envs e' = ee_infra_envs (value_event v')"
    by (simp_all add: AddHostsSummary_def cluster_hosts_def)
  have old: "ee_cluster e = ee_cluster (value_event v)" "cluster_hosts e = cluster_hosts (value_event v)"
    "ee_infra_envs e = ee_infra_envs (value_event v)"
    using value_event_event_value [OF wf] by (simp_all add: v_def drop_empty_props_def cluster_hosts_def)
  note obj = new [unfolded event_objects] old [unfolded event_objects]
  note turned = pipeline_user [OF assms(2) s, folded v'_def]
  note len = pipeline_length [OF assms(2) s, folded v'_def]
  show "user_turned (ee_cluster e) (ee_cluster e')"
    unfolding obj by (rule turned [OF user_places(1,5,6,13)])
  have hosts: "user_turned (obj_at ?H i [] v) (obj_at ?H i [] v')"
    "user_turned (obj_at ?H i [''infra_env''] v) (obj_at ?H i [''infra_env''] v')" for i
    by (rule turned [OF user_places(2,7,8,14)]) (rule turned [OF user_places(3,9,10,15)])
  then show "list_all2 (\<lambda>h h'. user_turned (json_obj h) (json_obj h') \<and> user_turned (host_infra_env h) (host_infra_env h'))
       (cluster_hosts e) (cluster_hosts e')"
    unfolding obj list_all2_conv_all_nth using len [of ?H] item_obj_at [of ?H]
    by (metis (no_types, lifting) list.distinct(1))
  have infra: "user_turned (obj_at ?I i [] v) (obj_at ?I i [] v')" for i by (rule turned [OF user_places(4,11,12,16)])
  show "list_all2 user_turned (ee_infra_envs e) (ee_infra_envs e')"
    unfolding obj
  proof (rule list_all2_all_nthI)
    show l: "length (map json_obj (list_items (jget ?I v))) = length (map json_obj (list_items (jget ?I v')))"
      using len [of ?I] by (simp del: jget.simps)
    fix i
    assume "i < length (map json_obj (list_items (jget ?I v)))"
    then have i: "i < length (list_items (jget ?I v))" "i < length (list_items (jget ?I v'))" using l by simp_all
    show "user_turned (map json_obj (list_items (jget ?I v)) ! i) (map json_obj (list_items (jget ?I v')) ! i)"
      using infra [of i] unfolding item_obj_at(1) [OF _ i(1), simplified] item_obj_at(1) [OF _ i(2), simplified]
        nth_map [OF i(1)] nth_map [OF i(2)] .
  qed
qed

section \<open>Results\<close>

text \<open>
  C35. Every user name that is not itself JSON text is replaced by its MD5 sum, wherever the
  program looks for one: in the cluster, in each of its hosts, in the infra-env of each host, and
  in each infra-env of the event. \<^verbatim>\<open>user_id\<close> of the object in the same place is the hexadecimal
  text, read once more as JSON where it happens to be a number. The lists keep their length.
\<close>

theorem user_name_hashed:
  assumes "json_edit_lib (pe_lib env)" "range_ok (pe_range env)" "event_ok e"
    "host_len (event_value e) \<le> 2 ^ 52" "getTransformedEvent env NewEventEnricher e = Return e'"
  shows "user_hashed (ee_cluster e) (ee_cluster e') \<and>
    list_all2 (\<lambda>h h'. user_hashed (json_obj h) (json_obj h') \<and> user_hashed (host_infra_env h) (host_infra_env h'))
      (cluster_hosts e) (cluster_hosts e') \<and>
    list_all2 user_hashed (ee_infra_envs e) (ee_infra_envs e')"
proof (intro conjI)
  note t = transformed_users [OF assms]
  show "user_hashed (ee_cluster e) (ee_cluster e')" by (rule user_turned_hashed [OF t(1)])
  show "list_all2 (\<lambda>h h'. user_hashed (json_obj h) (json_obj h') \<and> user_hashed (host_infra_env h) (host_infra_env h'))
      (cluster_hosts e) (cluster_hosts e')"
    by (rule list_all2_mono [OF t(2)]) (blast intro: user_turned_hashed)
  show "list_all2 user_hashed (ee_infra_envs e) (ee_infra_envs e')"
    by (rule list_all2_mono [OF t(3)]) (rule user_turned_hashed)
qed

text \<open>
  C36. A user name that is the text of a JSON number is not hashed: it stands in \<^verbatim>\<open>user_id\<close>
  of the transformed event as that number, in the clear.
\<close>

theorem numeric_user_name_in_clear:
  assumes "json_edit_lib (pe_lib env)" "range_ok (pe_range env)" "event_ok e"
    "host_len (event_value e) \<le> 2 ^ 52" "getTransformedEvent env NewEventEnricher e = Return e'"
    "ee_cluster e = Some c" "mget c ''user_name'' = Some (JStr s)" "json_Unmarshal s = Some (JNum x)"
  shows "\<exists>c'. ee_cluster e' = Some c' \<and> mget c' ''user_id'' = Some (JNum x)"
  using transformed_users(1) [OF assms(1-5)] assms(6-8)
  by (simp add: user_turned_def hash_sensitive_def unpack_node_def)

end
