(* ===== verification/Samples.thy ===== *)
theory Samples
  imports UserNames
begin

text \<open>
  Concrete events, and the results on \<^verbatim>\<open>AddHostsSummary\<close> and \<^verbatim>\<open>getTransformedEvent\<close> applied
  to them with the implementation \<open>tree_lib\<close> of gjson and sjson.
\<close>

definition sample_host :: json where
  "sample_host = JObj [(''id'', JStr ''h1''),
     (''infra_env'', JObj [(''cpu_architecture'', JStr ''x86_64''), (''ssh_authorized_key'', JStr ''ssh-rsa''),
        (''type'', JStr ''full-iso''), (''user_name'', JStr ''bob'')]),
     (''user_name'', JStr ''bob'')]"

definition sample_cluster :: jobject where
  "sample_cluster = [(''hosts'', JArr [sample_host]), (''pull_secret'', JStr ''token''),
     (''user_name'', JStr ''bob'')]"

definition sample_event :: enriched_event where
  "sample_event = zero_enriched
     \<lparr> ee_name := ''Event'', ee_cluster := Some sample_cluster,
       ee_infra_envs := [Some [(''ssh_authorized_key'', JStr ''ssh-rsa''), (''user_name'', JStr ''bob'')]] \<rparr>"

definition numeric_event :: enriched_event where
  "numeric_event = zero_enriched \<lparr> ee_cluster := Some [(''user_name'', JStr ''0'')] \<rparr>"

lemma sample_wf: "wf_event sample_event" "wf_event numeric_event"
  by (simp_all add: wf_event_def sample_event_def numeric_event_def sample_cluster_def zero_enriched_def wf_obj_def)
    (intro conjI; code_simp)+

lemma sample_shape: "shape (event_value sample_event)" "shape (event_value numeric_event)"
  by code_simp+

lemma sample_hosts: "host_len (event_value sample_event) = 1" "host_len (event_value numeric_event) = 0"
  by code_simp+

lemma sample_ok: "event_ok sample_event" "event_ok numeric_event"
  using sample_wf sample_shape by (simp_all add: event_ok_def)

definition sample_hs :: "jobject list" where
  "sample_hs = (case sample_host of JObj m \<Rightarrow> [m] | _ \<Rightarrow> [])"

lemma sample_event_hosts: "getHostsFromEvent sample_event = sample_hs"
  by code_simp

lemma sample_labels:
  "length sample_hs = 1" "infra_env_count sample_hs = 1"
  "label_count ''type'' ''full-iso'' sample_hs = 1" "label_count ''cpu_architecture'' ''x86_64'' sample_hs = 1"
  by code_simp+

lemma sample_summary: obtains s where "ee_hosts_summary (AddHostsSummary (\<lambda>ks. ks) sample_event) = Some s"
  by (simp add: AddHostsSummary_def)

lemma sample_transformed:
  obtains e' where "getTransformedEvent sample_env NewEventEnricher sample_event = Return e'"
  using getTransformedEvent_core [OF sample_env_ok sample_ok(1)] sample_hosts by simp

lemma numeric_transformed:
  obtains e' where "getTransformedEvent sample_env NewEventEnricher numeric_event = Return e'"
  using getTransformedEvent_core [OF sample_env_ok sample_ok(2)] sample_hosts by simp

lemma sample_user: "ee_cluster sample_event = Some sample_cluster"
  "mget sample_cluster ''user_name'' = Some (JStr ''bob'')"
  by (simp_all add: sample_event_def sample_cluster_def)

lemma numeric_user: "ee_cluster numeric_event = Some [(''user_name'', JStr ''0'')]"
  by (simp add: numeric_event_def)

lemma sample_json: "json_Unmarshal ''bob'' = None"
  by code_simp

lemma numeric_json: "json_Unmarshal ''0'' = Some (JNum f64_zero)"
  using Unmarshal_jprint [of "JNum f64_zero"] by simp

section \<open>The results at these events\<close>

theorem hosts_summary_shares_witness:
  "\<exists>s infra m. ee_hosts_summary (AddHostsSummary (\<lambda>ks. ks) sample_event) = Some s \<and>
     hs_host_count s = 1 \<and> hs_infra_env s = Some infra \<and> mget infra ''type'' = Some (Some m) \<and>
     mget m ''full-iso'' = Some (share64 1 1)"
proof -
  have len: "length (getHostsFromEvent sample_event) \<le> 2 ^ 52" by (simp add: sample_event_hosts sample_labels)
  have ty: "''type'' \<in> set stat_keys" by (simp add: stat_keys_def)
  obtain s infra where s: "ee_hosts_summary (AddHostsSummary (\<lambda>ks. ks) sample_event) = Some s"
    "hs_host_count s = int (length sample_hs)" "hs_infra_env s = Some infra"
    "\<forall>k\<in>set stat_keys. \<exists>m. mget infra k = Some (Some m) \<and>
        (\<forall>l. mget m l = (if label_count k l sample_hs = 0 then None
            else Some (share64 (label_count k l sample_hs) (infra_env_count sample_hs))))"
    using hosts_summary_shares [OF range_ok_id len, unfolded sample_event_hosts] by blast
  then obtain m where "mget infra ''type'' = Some (Some m)"
    "mget m ''full-iso'' = (if label_count ''type'' ''full-iso'' sample_hs = 0 then None
       else Some (share64 (label_count ''type'' ''full-iso'' sample_hs) (infra_env_count sample_hs)))"
    using ty by blast
  with s(1-3) show ?thesis by (simp add: sample_labels)
qed

theorem hosts_summary_heterogeneous_witness:
  "\<exists>s. ee_hosts_summary (AddHostsSummary (\<lambda>ks. ks) sample_event) = Some s \<and> \<not> hs_heterogeneous s"
proof -
  obtain s where s: "ee_hosts_summary (AddHostsSummary (\<lambda>ks. ks) sample_event) = Some s"
    by (rule sample_summary)
  have "\<not> hs_heterogeneous s"
    using hosts_summary_heterogeneous [OF range_ok_id _ s] sample_labels by (auto simp: sample_event_hosts)
  with s show ?thesis by blast
qed

theorem hosts_summary_iso_type_witness:
  "\<exists>s. ee_hosts_summary (AddHostsSummary (\<lambda>ks. ks) sample_event) = Some s \<and>
     0 < label_count ''type'' (hs_iso_type s) sample_hs"
proof -
  obtain s where s: "ee_hosts_summary (AddHostsSummary (\<lambda>ks. ks) sample_event) = Some s"
    by (rule sample_summary)
  have "\<not> (\<forall>l. label_count ''type'' l sample_hs = 0)" using sample_labels(3) by (metis zero_neq_one)
  then have "0 < label_count ''type'' (hs_iso_type s) sample_hs"
    using hosts_summary_iso_type [OF range_ok_id _ s, unfolded sample_event_hosts] sample_labels(1)
    by (simp split: if_splits)
  with s show ?thesis by blast
qed

theorem getTransformedEvent_pipeline_witness:
  "getTransformedEvent sample_env NewEventEnricher sample_event =
     Return (AddHostsSummary (pe_range sample_env) (pipeline_event (pe_range sample_env) sample_event))"
  by (rule getTransformedEvent_pipeline [OF sample_env_ok sample_ok(1)]) (simp add: sample_hosts)

theorem getTransformedEvent_no_secret_keys_witness:
  "\<exists>e' c. getTransformedEvent sample_env NewEventEnricher sample_event = Return e' \<and>
     ee_cluster e' = Some c \<and> mget c ''pull_secret'' = None"
proof -
  obtain e' where e': "getTransformedEvent sample_env NewEventEnricher sample_event = Return e'"
    by (rule sample_transformed)
  have len: "host_len (event_value sample_event) \<le> 2 ^ 52" by (simp add: sample_hosts)
  obtain c where "ee_cluster e' = Some c"
    using transformed_users(1) [OF sample_env_ok sample_ok(1) len e'] sample_user sample_json
    by (auto simp: user_turned_def unpack_node_def hash_sensitive_def)
  with getTransformedEvent_no_secret_keys [OF sample_env_ok sample_ok(1) len e'] e' show ?thesis by blast
qed

text \<open>The user of the cluster, of its host, of the infra-env of the host, and of the infra-env.\<close>

theorem user_name_hashed_witness:
  "\<exists>e' c h hie ie. getTransformedEvent sample_env NewEventEnricher sample_event = Return e' \<and>
     ee_cluster e' = Some c \<and> mget c ''hosts'' = Some (JArr [JObj h]) \<and> getInfraEnvFromHost h = Some hie \<and>
     ee_infra_envs e' = [Some ie] \<and>
     (\<forall>m\<in>set [c, h, hie, ie]. mget m ''user_id'' = Some (unpack_node (JStr (md5_hex ''bob''))))"
proof -
  let ?id = "Some (unpack_node (JStr (md5_hex ''bob'')))"
  obtain e' where e': "getTransformedEvent sample_env NewEventEnricher sample_event = Return e'"
    by (rule sample_transformed)
  have len: "host_len (event_value sample_event) \<le> 2 ^ 52" by (simp add: sample_hosts)
  note t = user_name_hashed [OF sample_env_ok sample_ok(1) len e']
  have users: "\<exists>n. b = Some n \<and> mget n ''user_id'' = ?id"
    if "user_hashed (Some m) b" "mget m ''user_name'' = Some (JStr ''bob'')" for m b
    using that sample_json by (simp add: user_hashed_def)
  have places: "ee_cluster sample_event = Some sample_cluster" "cluster_hosts sample_event = [sample_host]"
    "mget sample_cluster ''user_name'' = Some (JStr ''bob'')"
    "json_obj sample_host = Some (hd sample_hs)" "mget (hd sample_hs) ''user_name'' = Some (JStr ''bob'')"
    "host_infra_env sample_host = Some (the (getInfraEnvFromHost (hd sample_hs)))"
    "mget (the (getInfraEnvFromHost (hd sample_hs))) ''user_name'' = Some (JStr ''bob'')"
    "ee_infra_envs sample_event = [Some [(''ssh_authorized_key'', JStr ''ssh-rsa''), (''user_name'', JStr ''bob'')]]"
    by code_simp+
  obtain c where c: "ee_cluster e' = Some c" "mget c ''user_id'' = ?id"
    using t users [of sample_cluster "ee_cluster e'"] places(1,3) by auto
  obtain y where y: "cluster_hosts e' = [y]" "user_hashed (json_obj sample_host) (json_obj y)"
    "user_hashed (host_infra_env sample_host) (host_infra_env y)"
    using t places(2) by (auto simp: list_all2_Cons1)
  obtain h where h: "y = JObj h" "mget h ''user_id'' = ?id"
    using users [OF _ places(5), of "json_obj y"] y(2) places(4) by (auto simp: json_obj_Some)
  obtain hie where hie: "getInfraEnvFromHost h = Some hie" "mget hie ''user_id'' = ?id"
    using users [OF _ places(7), of "host_infra_env y"] y(3) places(6) h(1) by (auto simp: host_infra_env_def)
  obtain b where b: "ee_infra_envs e' = [b]"
    "user_hashed (Some [(''ssh_authorized_key'', JStr ''ssh-rsa''), (''user_name'', JStr ''bob'')]) b"
    using t places(8) by (auto simp: list_all2_Cons1)
  obtain ie where ie: "b = Some ie" "mget ie ''user_id'' = ?id" using users [OF b(2)] by auto
  have "mget c ''hosts'' = Some (JArr [JObj h])"
    using y(1) h(1) c(1) by (auto simp: cluster_hosts_def list_items_def split: option.splits json.splits)
  with e' c h hie b ie show ?thesis
    by (intro exI [of _ e'] exI [of _ c] exI [of _ h] exI [of _ hie] exI [of _ ie]) simp
qed

theorem numeric_user_name_in_clear_witness:
  "\<exists>e' c. getTransformedEvent sample_env NewEventEnricher numeric_event = Return e' \<and>
     ee_cluster e' = Some c \<and> mget c ''user_id'' = Some (JNum f64_zero)"
proof -
  obtain e' where e': "getTransformedEvent sample_env NewEventEnricher numeric_event = Return e'"
    by (rule numeric_transformed)
  have len: "host_len (event_value numeric_event) \<le> 2 ^ 52" by (simp add: sample_hosts)
  from numeric_user_name_in_clear [OF sample_env_ok sample_ok(2) len e' numeric_user _ numeric_json] e'
  show ?thesis by auto
qed

lemma sample_reps:
  "reps tree_lib (jprint (enriched_json sample_event)) (event_value sample_event)"
  unfolding event_value_def
  by (rule reps_print) (simp_all add: jok_enriched_json jdistinct_enriched_json sample_wf)

theorem Transform_edits_witness:
  "reps tree_lib (Transform tree_lib (jprint (enriched_json sample_event)) getDefaultFieldsToUnpack (\<lambda>u. Some u))
     (tree_transform (\<lambda>u. Some u) getDefaultFieldsToUnpack (event_value sample_event))"
  by (rule Transform_edits [OF tree.json_edit_lib_axioms sample_reps sample_shape(1) program_paths(1) fn_ok_unpack])

end
