(* ===== verification/Decoding.thy ===== *)
theory Decoding
  imports EventJson
begin

text \<open>
  Whatever text is decoded, the values that come out are well-formed: strings are valid
  UTF-8, numbers are finite, maps have every key once. This holds also for what is left
  behind by a decoder that returned an error. A parsed tree is \<open>raw_json\<close> when it is so but
  for numbers that are too large.
\<close>

definition raw_json :: "json \<Rightarrow> bool" where
  "raw_json t = jok (soften t)"

lemma raw_json_simps [simp]:
  "raw_json JNull" "raw_json (JBool b)" "raw_json (JStr s) = valid_utf8 s"
  "raw_json (JArr vs) = (\<forall>v\<in>set vs. raw_json v)"
  "raw_json (JObj kvs) = (\<forall>p\<in>set kvs. valid_utf8 (fst p) \<and> raw_json (snd p))"
  by (simp_all add: raw_json_def)

lemma raw_number: "wf64 x \<or> x = F_inf b \<Longrightarrow> raw_json (JNum x)"
  by (cases x) (auto simp: raw_json_def)

lemma parse_raw:
  "parse_value n s = Some (v, r) \<Longrightarrow> raw_json v"
  "parse_elems n s = Some (vs, r) \<Longrightarrow> w \<in> set vs \<Longrightarrow> raw_json w"
  "parse_members n s = Some (kvs, r) \<Longrightarrow> p \<in> set kvs \<Longrightarrow> valid_utf8 (fst p) \<and> raw_json (snd p)"
proof (induction n arbitrary: s v r vs kvs w p)
  case (Suc n)
  { case 1
    then show ?case
      by (cases rule: parse_value_SucE)
        (use Suc.IH(2,3) in \<open>auto dest: scan_string_valid scan_number_wf intro: raw_number\<close>)
  next
    case 2
    then show ?case
      by (cases rule: parse_elems_SucE) (use Suc.IH(1,2) in auto)
  next
    case 3
    then show ?case
      by (cases rule: parse_members_SucE)
        (use Suc.IH(1) Suc.IH(3) [where p = p] in \<open>auto simp: split_paired_all dest: scan_string_valid\<close>)
  }
qed simp_all

lemma json_parse_raw: "json_parse s = Some t \<Longrightarrow> raw_json t"
  by (auto simp: json_parse_def split: option.splits if_splits dest: parse_raw(1))

lemma decoded_jwf: "raw_json t \<Longrightarrow> jwf (decoded t)"
  by (simp add: decoded_def raw_json_def jwf_canon)

lemma decoded_id: "jwf v \<Longrightarrow> decoded v = v"
  by (simp add: decoded_finite jok_jfinite jwf_def canon_id)

section \<open>Decoders\<close>

lemma wf_obj_Nil [simp]: "wf_obj []"
  by (simp add: wf_obj_def jwf_def)

lemma wf_obj_mput: "wf_obj m \<Longrightarrow> valid_utf8 k \<Longrightarrow> jwf v \<Longrightarrow> wf_obj (mput k v m)"
  using set_mput [of k v m] by (fastforce simp: wf_obj_def jwf_def msorted_mput)

lemma wf_obj_mfold:
  "wf_obj m \<Longrightarrow> \<forall>p\<in>set kvs. valid_utf8 (fst p) \<and> jwf (snd p) \<Longrightarrow> wf_obj (mfold kvs m)"
  by (induction kvs arbitrary: m) (auto simp: wf_obj_mput)

lemma wf_obj_mdel: "wf_obj m \<Longrightarrow> wf_obj (mdel k m)"
  using set_mdel [of k m] by (fastforce simp: wf_obj_def jwf_def msorted_mdel)

lemma wf_obj_get: "wf_obj m \<Longrightarrow> mget m k = Some v \<Longrightarrow> jwf v"
  by (fastforce simp: wf_obj_def jwf_def dest: mget_in_set)

text \<open>A well-formed map is read as it is.\<close>

lemma decode_map_id:
  assumes "wf_obj m" "x = None \<or> x = Some []"
  shows "decode_map x (JObj m) = (Some m, False)"
proof -
  have ok: "jok (JObj m)" and c: "jcanon (JObj m)" using assms(1) by (simp_all add: wf_obj_def jwf_def)
  have "map (\<lambda>p. (fst p, decoded (snd p))) m = m"
    using ok c by (intro map_idI) (auto simp: jwf_def decoded_id split_paired_all)
  moreover have "mfold m [] = m" using c by (simp add: mfold_sorted)
  ultimately show ?thesis using assms(2) jok_jfinite [OF ok] by (auto simp: decode_map_def)
qed

lemma decoded_map_wf: "raw_json t \<Longrightarrow> pred_option wf_obj m \<Longrightarrow> pred_option wf_obj (fst (decode_map m t))"
  by (cases t; cases m) (auto simp: decode_map_def intro!: wf_obj_mfold decoded_jwf)

lemma Unmarshal_map_wf: "pred_option wf_obj m \<Longrightarrow> pred_option wf_obj (fst (Unmarshal_map m s))"
  by (auto simp: Unmarshal_map_def decoded_map_wf json_parse_raw split: option.split)

lemma decode_string_valid: "raw_json t \<Longrightarrow> valid_utf8 s \<Longrightarrow> valid_utf8 (fst (decode_string s t))"
  by (cases t) (auto simp: decode_string_def)

lemma decode_string_ptr_valid:
  "raw_json t \<Longrightarrow> pred_option valid_utf8 s \<Longrightarrow> pred_option valid_utf8 (fst (decode_string_ptr s t))"
  by (cases t; cases s) (auto simp: decode_string_ptr_def)

lemma decode_any_wf: "raw_json t \<Longrightarrow> jwf x \<Longrightarrow> jwf (fst (decode_any x t))"
  using decoded_jwf [of t]
  by (cases t) (auto simp: decode_any_def decoded_def)

lemma decoded_maps_wf:
  "raw_json t \<Longrightarrow> list_all (pred_option wf_obj) ms \<Longrightarrow> list_all (pred_option wf_obj) (fst (decode_maps ms t))"
  by (cases t) (auto simp: decode_maps_def Let_def list_all_length intro!: decoded_map_wf)

lemma decode_field_inv:
  assumes "\<forall>v\<in>set vs. raw_json v" "P x" "\<And>y v. raw_json v \<Longrightarrow> P y \<Longrightarrow> P (fst (dec y v))"
  shows "P (fst (decode_field dec x vs))"
proof -
  have "P (fst (foldl (\<lambda>(y, e) v. case dec y v of (y', e') \<Rightarrow> (y', e \<or> e')) (x, e) vs))" for e
    using assms(1,2)
  proof (induction vs arbitrary: x e)
    case (Cons v vs)
    obtain y d where y: "dec x v = (y, d)" by fastforce
    then have "P y" using assms(3) [of v x] Cons.prems by simp
    then show ?case using Cons.IH [of y] Cons.prems by (simp add: y)
  qed simp
  then show ?thesis by (simp add: decode_field_def)
qed

lemma raw_members: "raw_json (JObj kvs) \<Longrightarrow> \<forall>v\<in>set (field_members names n kvs). raw_json v"
  by (auto simp: field_members_def)

lemma decode_embedded_wf: "raw_json t \<Longrightarrow> pred_option wf_obj m \<Longrightarrow> pred_option wf_obj (fst (decode_embedded m t))"
proof (cases t)
  case (JObj kvs)
  assume "raw_json t" "pred_option wf_obj m"
  then show ?thesis
    using decode_field_inv [where P = "pred_option wf_obj" and dec = decode_map, OF raw_members _ decoded_map_wf] JObj
    by (simp add: decode_embedded_def)
qed (simp_all add: decode_embedded_def)

lemma decode_event_wf:
  assumes "raw_json t" "valid_utf8 (ev_name e)" "jwf (ev_payload e)" "pred_option wf_obj (ev_metadata e)"
    "decode_event e t = (e', err)"
  shows "valid_utf8 (ev_name e') \<and> jwf (ev_payload e') \<and> pred_option wf_obj (ev_metadata e')"
proof (cases t)
  case (JObj kvs)
  let ?m = "\<lambda>n. field_members event_fields n kvs"
  have rm: "\<forall>v\<in>set (?m n). raw_json v" for n using raw_members assms(1) JObj by blast
  have "valid_utf8 (fst (decode_field decode_string (ev_name e) (?m ''name'')))"
    by (rule decode_field_inv [where P = valid_utf8, OF rm assms(2) decode_string_valid])
  moreover have "jwf (fst (decode_field decode_any (ev_payload e) (?m ''payload'')))"
    by (rule decode_field_inv [where P = jwf, OF rm assms(3) decode_any_wf])
  moreover have "pred_option wf_obj (fst (decode_field decode_map (ev_metadata e) (?m ''metadata'')))"
    by (rule decode_field_inv [where P = "pred_option wf_obj", OF rm assms(4) decoded_map_wf])
  ultimately show ?thesis using assms(5) JObj by (auto simp: decode_event_def split: prod.splits)
qed (use assms in \<open>auto simp: decode_event_def\<close>)

text \<open>The fields of an enriched event other than the hosts summary.\<close>

lemma decode_enriched_wf:
  assumes "raw_json t" "wf_event e" "\<forall>v\<in>set (case t of JObj kvs \<Rightarrow> field_members enriched_fields ''host_summary'' kvs | _ \<Rightarrow> []). False"
  shows "wf_event (fst (decode_enriched e t))"
proof (cases t)
  case (JObj kvs)
  let ?m = "\<lambda>n. field_members enriched_fields n kvs"
  have rm: "\<forall>v\<in>set (?m n). raw_json v" for n using raw_members assms(1) JObj by blast
  have str: "valid_utf8 s \<Longrightarrow> valid_utf8 (fst (decode_field decode_string s (?m n)))" for n s
    by (rule decode_field_inv [where P = valid_utf8, OF rm _ decode_string_valid])
  have mp: "pred_option wf_obj x \<Longrightarrow> pred_option wf_obj (fst (decode_field decode_map x (?m n)))" for n x
    by (rule decode_field_inv [where P = "pred_option wf_obj", OF rm _ decoded_map_wf])
  have pr: "pred_option wf_obj x \<Longrightarrow> pred_option wf_obj (fst (decode_field decode_embedded x (?m n)))" for n x
    by (rule decode_field_inv [where P = "pred_option wf_obj", OF rm _ decode_embedded_wf])
  have ie: "list_all (pred_option wf_obj) x \<Longrightarrow> list_all (pred_option wf_obj) (fst (decode_field decode_maps x (?m n)))" for n x
    by (rule decode_field_inv [where P = "list_all (pred_option wf_obj)", OF rm _ decoded_maps_wf])
  have rt: "pred_option valid_utf8 x \<Longrightarrow> pred_option valid_utf8 (fst (decode_field decode_string_ptr x (?m n)))" for n x
    by (rule decode_field_inv [where P = "pred_option valid_utf8", OF rm _ decode_string_ptr_valid])
  have hs: "?m ''host_summary'' = []" using assms(3) JObj by (cases "?m ''host_summary''") auto
  show ?thesis
    using assms(2) str mp pr ie rt
    by (simp add: JObj decode_enriched_def Let_def wf_event_def hs decode_field_simps)
qed (use assms in \<open>auto simp: decode_enriched_def\<close>)

text \<open>Maps of strings.\<close>

definition wf_strings :: "string gomap \<Rightarrow> bool" where
  "wf_strings m = (msorted m \<and> (\<forall>p\<in>set m. valid_utf8 (fst p) \<and> valid_utf8 (snd p)))"

lemma wf_strings_mfold:
  "wf_strings m \<Longrightarrow> \<forall>p\<in>set kvs. valid_utf8 (fst p) \<and> valid_utf8 (snd p) \<Longrightarrow> wf_strings (mfold kvs m)"
proof (induction kvs arbitrary: m)
  case (Cons p kvs)
  have "wf_strings (mput (fst p) (snd p) m)"
    using Cons.prems set_mput [of "fst p" "snd p" m] by (fastforce simp: wf_strings_def msorted_mput)
  with Cons show ?case by simp
qed simp

lemma decode_strings_wf:
  "raw_json t \<Longrightarrow> pred_option wf_strings (fst (decode_map_of decode_string [] (Some []) t))"
  by (cases t) (auto simp: decode_map_of_def wf_strings_def [of "[]"] intro!: wf_strings_mfold decode_string_valid)

end
