(* ===== verification/SnapshotRepository.thy ===== *)
theory SnapshotRepository
  imports Decoding
begin

text \<open>
  \<^verbatim>\<open>internal/repository/redis/snapshot_repository.go\<close>: the latest state of every cluster,
  host and infra-env, kept as JSON text in redis hashes. The client library go-redis is a
  record of four commands, and of what time does, over a state \<open>'s\<close>; the locale \<open>redis_hashes\<close> states what redis
  documents of them. The interface of the repository is the record \<open>snapshot_store\<close>, its
  contract the locale \<open>snapshot_contract\<close>, which the model of the code satisfies over every
  redis that keeps its laws.
\<close>

section \<open>The commands of redis\<close>

text \<open>
  A flag is True when the command returned an error; \<open>r_hget\<close> gives None for an error,
  the missing field included, and \<open>r_hgetall\<close> gives the empty map for a missing key.
  \<open>r_pass\<close> is what becomes of redis in a number of nanoseconds in which nobody writes.
\<close>

record 's redis_cmd =
  r_hset :: "'s \<Rightarrow> string \<Rightarrow> string \<Rightarrow> string \<Rightarrow> 's \<times> bool"
  r_expire :: "'s \<Rightarrow> string \<Rightarrow> int \<Rightarrow> 's \<times> bool"
  r_hget :: "'s \<Rightarrow> string \<Rightarrow> string \<Rightarrow> string option"
  r_hgetall :: "'s \<Rightarrow> string \<Rightarrow> string gomap option"
  r_pass :: "nat \<Rightarrow> 's \<Rightarrow> 's"

type_synonym hashes = "string \<Rightarrow> string \<Rightarrow> string option"

abbreviation set_field :: "hashes \<Rightarrow> string \<Rightarrow> string \<Rightarrow> string \<Rightarrow> hashes" where
  "set_field h k f v \<equiv> h (k := (h k) (f \<mapsto> v))"

text \<open>
  A command that returns an error may have been executed all the same, when its answer
  was lost. In time a key can expire, and then all of its hash is gone.
\<close>

locale redis_hashes =
  fixes R :: "'s redis_cmd" and hash :: "'s \<Rightarrow> hashes"
  assumes hset_ok: "r_hset R s k f v = (s', False) \<Longrightarrow> hash s' = set_field (hash s) k f v"
    and hset_err: "r_hset R s k f v = (s', True) \<Longrightarrow> hash s' = hash s \<or> hash s' = set_field (hash s) k f v"
    and expire_keeps: "r_expire R s k d = (s', e) \<Longrightarrow> 0 < d \<Longrightarrow> hash s' = hash s"
    and hget_hash: "r_hget R s k f = Some v \<Longrightarrow> hash s k f = Some v"
    and hgetall_hash: "r_hgetall R s k = Some m \<Longrightarrow> msorted m \<and> mget m = hash s k"
    and pass_drops: "hash (r_pass R t s) k = hash s k \<or> hash (r_pass R t s) k = Map.empty"

section \<open>The repository\<close>

record 's snapshot_repository =
  sr_redis :: "'s redis_cmd"
  sr_expiration :: int
  sr_range :: range_order

definition NewSnapshotRepository :: "'s redis_cmd \<Rightarrow> int \<Rightarrow> range_order \<Rightarrow> 's snapshot_repository" where
  "NewSnapshotRepository redis expiration ord =
     \<lparr> sr_redis = redis, sr_expiration = expiration, sr_range = ord \<rparr>"

datatype snapshot_error = Marshal_failed | Set_key_failed | Set_ttl_failed

definition hset ::
  "'s snapshot_repository \<Rightarrow> 's \<Rightarrow> string \<Rightarrow> string \<Rightarrow> event option \<Rightarrow> 's \<times> snapshot_error option" where
  "hset r s key field event =
     (case (case event of None \<Rightarrow> Some [] | Some e \<Rightarrow> json_Marshal (ev_payload e)) of
        None \<Rightarrow> (s, Some Marshal_failed)
      | Some eventBytes \<Rightarrow>
          (case r_hset (sr_redis r) s key field eventBytes of
             (s1, True) \<Rightarrow> (s1, Some Set_key_failed)
           | (s1, False) \<Rightarrow>
               (case r_expire (sr_redis r) s1 key (sr_expiration r) of
                  (s2, True) \<Rightarrow> (s2, Some Set_ttl_failed)
                | (s2, False) \<Rightarrow> (s2, None))))"

definition getClustersHKey :: string where
  "getClustersHKey = ''clusters''"

definition getHostsHKey :: "string \<Rightarrow> string" where
  "getHostsHKey clusterID = ''hosts_'' @ clusterID"

definition getInfraEnvsHKey :: "string \<Rightarrow> string" where
  "getInfraEnvsHKey clusterID = ''infraenvs_'' @ clusterID"

definition SetCluster ::
  "'s snapshot_repository \<Rightarrow> 's \<Rightarrow> string \<Rightarrow> event option \<Rightarrow> 's \<times> snapshot_error option" where
  "SetCluster r s clusterID event = hset r s getClustersHKey clusterID event"

definition SetHost ::
  "'s snapshot_repository \<Rightarrow> 's \<Rightarrow> string \<Rightarrow> string \<Rightarrow> event option \<Rightarrow> 's \<times> snapshot_error option" where
  "SetHost r s clusterID hostID event = hset r s (getHostsHKey clusterID) hostID event"

definition SetInfraEnv ::
  "'s snapshot_repository \<Rightarrow> 's \<Rightarrow> string \<Rightarrow> string \<Rightarrow> event option \<Rightarrow> 's \<times> snapshot_error option" where
  "SetInfraEnv r s clusterID infraEnvID event = hset r s (getInfraEnvsHKey clusterID) infraEnvID event"

text \<open>The results of the getters carry whether an error was returned.\<close>

definition GetCluster :: "'s snapshot_repository \<Rightarrow> 's \<Rightarrow> string \<Rightarrow> jobject option \<times> bool" where
  "GetCluster r s clusterID =
     (case r_hget (sr_redis r) s getClustersHKey clusterID of
        None \<Rightarrow> (Some [], False)
      | Some clusterRaw \<Rightarrow> Unmarshal_map (Some []) clusterRaw)"

text \<open>The loop over the texts of a hash: it stops at the first text that is no map.\<close>

fun read_states :: "jobject option list \<Rightarrow> (string \<times> string) list \<Rightarrow> jobject option list \<times> bool" where
  "read_states states [] = (states, False)"
| "read_states states ((k, v) # kvs) =
     (case Unmarshal_map (Some []) v of
        (state, True) \<Rightarrow> (states, True)
      | (state, False) \<Rightarrow> read_states (states @ [state]) kvs)"

definition GetHosts :: "'s snapshot_repository \<Rightarrow> 's \<Rightarrow> string \<Rightarrow> jobject option list \<times> bool" where
  "GetHosts r s clusterID =
     (case r_hgetall (sr_redis r) s (getHostsHKey clusterID) of
        None \<Rightarrow> ([], True)
      | Some hostsRaw \<Rightarrow> read_states [] (map_range (sr_range r) hostsRaw))"

definition GetInfraEnvs :: "'s snapshot_repository \<Rightarrow> 's \<Rightarrow> string \<Rightarrow> jobject option list \<times> bool" where
  "GetInfraEnvs r s clusterID =
     (case r_hgetall (sr_redis r) s (getInfraEnvsHKey clusterID) of
        None \<Rightarrow> ([], True)
      | Some infraEnv \<Rightarrow> read_states [] (map_range (sr_range r) infraEnv))"

section \<open>The interface and its contract\<close>

text \<open>\<^verbatim>\<open>SnapshotRepositoryInterface\<close>, as its clients see it.\<close>

record 's snapshot_store =
  ss_SetCluster :: "'s \<Rightarrow> string \<Rightarrow> event option \<Rightarrow> 's \<times> snapshot_error option"
  ss_SetHost :: "'s \<Rightarrow> string \<Rightarrow> string \<Rightarrow> event option \<Rightarrow> 's \<times> snapshot_error option"
  ss_SetInfraEnv :: "'s \<Rightarrow> string \<Rightarrow> string \<Rightarrow> event option \<Rightarrow> 's \<times> snapshot_error option"
  ss_GetCluster :: "'s \<Rightarrow> string \<Rightarrow> jobject option \<times> bool"
  ss_GetHosts :: "'s \<Rightarrow> string \<Rightarrow> jobject option list \<times> bool"
  ss_GetInfraEnvs :: "'s \<Rightarrow> string \<Rightarrow> jobject option list \<times> bool"

definition snapshot_store_of :: "'s snapshot_repository \<Rightarrow> 's snapshot_store" where
  "snapshot_store_of r =
     \<lparr> ss_SetCluster = SetCluster r, ss_SetHost = SetHost r, ss_SetInfraEnv = SetInfraEnv r,
       ss_GetCluster = GetCluster r, ss_GetHosts = GetHosts r, ss_GetInfraEnvs = GetInfraEnvs r \<rparr>"

text \<open>What the repository keeps: under each key, the last state of each identifier.\<close>

datatype snap_key = Clusters | Hosts_of string | InfraEnvs_of string

type_synonym snapshots = "snap_key \<Rightarrow> string \<Rightarrow> jobject option"

abbreviation set_state :: "snapshots \<Rightarrow> snap_key \<Rightarrow> string \<Rightarrow> jobject \<Rightarrow> snapshots" where
  "set_state v k f m \<equiv> v (k := (v k) (f \<mapsto> m))"

text \<open>The states of a key, each once, in some order; nothing when there was an error.\<close>

definition lists_states :: "(string \<Rightarrow> jobject option) \<Rightarrow> jobject option list \<times> bool \<Rightarrow> bool" where
  "lists_states st res =
     (if snd res then fst res = []
      else (\<exists>fs. distinct fs \<and> set fs = dom st \<and> fst res = map st fs))"

text \<open>A setter with a well-formed object sets the state; with an error it may not have.\<close>

definition sets_state ::
  "('s \<Rightarrow> bool) \<Rightarrow> ('s \<Rightarrow> snapshots) \<Rightarrow> 's \<Rightarrow> 's \<times> snapshot_error option \<Rightarrow> snap_key \<Rightarrow> string \<Rightarrow> jobject \<Rightarrow> bool" where
  "sets_state ok view s res k f m =
     (ok (fst res) \<and>
      (view (fst res) = set_state (view s) k f m \<or> snd res \<noteq> None \<and> view (fst res) = view s))"

text \<open>\<open>later\<close> is what becomes of the store in time; it can forget the states of a key.\<close>

locale snapshot_contract =
  fixes S :: "'s snapshot_store" and ok :: "'s \<Rightarrow> bool" and view :: "'s \<Rightarrow> snapshots" and later :: "nat \<Rightarrow> 's \<Rightarrow> 's"
  assumes set_cluster: "ok s \<Longrightarrow> ev_payload e = JObj m \<Longrightarrow> wf_obj m \<Longrightarrow>
      sets_state ok view s (ss_SetCluster S s c (Some e)) Clusters c m"
    and set_host: "ok s \<Longrightarrow> ev_payload e = JObj m \<Longrightarrow> wf_obj m \<Longrightarrow>
      sets_state ok view s (ss_SetHost S s c h (Some e)) (Hosts_of c) h m"
    and set_infra_env: "ok s \<Longrightarrow> ev_payload e = JObj m \<Longrightarrow> wf_obj m \<Longrightarrow>
      sets_state ok view s (ss_SetInfraEnv S s c i (Some e)) (InfraEnvs_of c) i m"
    and get_cluster: "ok s \<Longrightarrow>
      ss_GetCluster S s c = (Some [], False) \<or>
      (\<exists>m. view s Clusters c = Some m \<and> ss_GetCluster S s c = (Some m, False))"
    and get_hosts: "ok s \<Longrightarrow> lists_states (view s (Hosts_of c)) (ss_GetHosts S s c)"
    and get_infra_envs: "ok s \<Longrightarrow> lists_states (view s (InfraEnvs_of c)) (ss_GetInfraEnvs S s c)"
    and states_wf: "ok s \<Longrightarrow> view s k f = Some m \<Longrightarrow> wf_obj m"
    and later_ok: "ok s \<Longrightarrow> ok (later t s)"
    and later_drops: "ok s \<Longrightarrow> view (later t s) k = view s k \<or> view (later t s) k = Map.empty"

section \<open>The repository keeps the contract\<close>

lemma Unmarshal_map_jprint: "wf_obj m \<Longrightarrow> Unmarshal_map (Some []) (jprint (JObj m)) = (Some m, False)"
  using json_parse_jprint [of "JObj m"]
  by (simp add: Unmarshal_map_def decode_map_id wf_obj_def jwf_def del: jprint.simps)

fun snap_hkey :: "snap_key \<Rightarrow> string" where
  "snap_hkey Clusters = getClustersHKey"
| "snap_hkey (Hosts_of c) = getHostsHKey c"
| "snap_hkey (InfraEnvs_of c) = getInfraEnvsHKey c"

lemma snap_hkey_inj: "snap_hkey a = snap_hkey b \<longleftrightarrow> a = b"
  by (cases a; cases b) (simp_all add: getClustersHKey_def getHostsHKey_def getInfraEnvsHKey_def)

definition state_text :: "string \<Rightarrow> bool" where
  "state_text t = (\<exists>m. wf_obj m \<and> t = jprint (JObj m))"

definition snap_ok :: "('s \<Rightarrow> hashes) \<Rightarrow> 's \<Rightarrow> bool" where
  "snap_ok hash s = (\<forall>k f t. hash s (snap_hkey k) f = Some t \<longrightarrow> state_text t)"

definition snap_view :: "('s \<Rightarrow> hashes) \<Rightarrow> 's \<Rightarrow> snapshots" where
  "snap_view hash s k f = Option.bind (hash s (snap_hkey k) f) (\<lambda>t. fst (Unmarshal_map (Some []) t))"

lemma state_text_map:
  assumes "state_text t"
  obtains m where "wf_obj m" "Unmarshal_map (Some []) t = (Some m, False)"
  using assms by (auto simp: state_text_def Unmarshal_map_jprint simp del: jprint.simps)

lemma read_states_ok:
  "list_all (state_text \<circ> snd) kvs \<Longrightarrow>
     read_states acc kvs = (acc @ map (\<lambda>p. fst (Unmarshal_map (Some []) (snd p))) kvs, False)"
proof (induction kvs arbitrary: acc)
  case (Cons p kvs)
  then obtain m where "Unmarshal_map (Some []) (snd p) = (Some m, False)" by (auto elim: state_text_map)
  with Cons show ?case by (cases p) simp
qed simp

lemma snap_view_dom: "snap_ok hash s \<Longrightarrow> dom (snap_view hash s k) = dom (hash s (snap_hkey k))"
  by (fastforce simp: snap_view_def snap_ok_def dom_def elim: state_text_map split: Option.bind_splits)

section \<open>The operations of the repository\<close>

datatype snap_op =
    Set_cluster string event
  | Set_host string string event
  | Set_infra_env string string event

fun op_key :: "snap_op \<Rightarrow> snap_key" where
  "op_key (Set_cluster c e) = Clusters"
| "op_key (Set_host c h e) = Hosts_of c"
| "op_key (Set_infra_env c i e) = InfraEnvs_of c"

fun op_field :: "snap_op \<Rightarrow> string" where
  "op_field (Set_cluster c e) = c"
| "op_field (Set_host c h e) = h"
| "op_field (Set_infra_env c i e) = i"

fun op_event :: "snap_op \<Rightarrow> event" where
  "op_event (Set_cluster c e) = e"
| "op_event (Set_host c h e) = e"
| "op_event (Set_infra_env c i e) = e"

fun op_state :: "snap_op \<Rightarrow> jobject" where
  "op_state x = (case ev_payload (op_event x) of JObj m \<Rightarrow> m | _ \<Rightarrow> [])"

definition op_ok :: "snap_op \<Rightarrow> bool" where
  "op_ok x = (case ev_payload (op_event x) of JObj m \<Rightarrow> wf_obj m | _ \<Rightarrow> False)"

fun apply_op :: "'s snapshot_store \<Rightarrow> snap_op \<Rightarrow> 's \<Rightarrow> 's \<times> snapshot_error option" where
  "apply_op S (Set_cluster c e) s = ss_SetCluster S s c (Some e)"
| "apply_op S (Set_host c h e) s = ss_SetHost S s c h (Some e)"
| "apply_op S (Set_infra_env c i e) s = ss_SetInfraEnv S s c i (Some e)"

context snapshot_contract
begin

lemma apply_op_sets:
  assumes "ok s" "op_ok x"
  shows "sets_state ok view s (apply_op S x s) (op_key x) (op_field x) (op_state x)"
proof -
  obtain m where "ev_payload (op_event x) = JObj m" "wf_obj m"
    using assms(2) by (auto simp: op_ok_def split: json.splits)
  with assms(1) show ?thesis by (cases x) (simp_all add: set_cluster set_host set_infra_env)
qed

end

section \<open>The repository over a redis that keeps its laws\<close>

context redis_hashes
begin

abbreviation repo :: "int \<Rightarrow> range_order \<Rightarrow> 's snapshot_repository" where
  "repo d ord \<equiv> NewSnapshotRepository R d ord"

lemma view_set_field:
  assumes "hash s' = set_field (hash s) (snap_hkey k) f (jprint (JObj m))" "wf_obj m" "snap_ok hash s"
  shows "snap_ok hash s' \<and> snap_view hash s' = set_state (snap_view hash s) k f m"
proof
  show "snap_ok hash s'" using assms by (auto simp: snap_ok_def state_text_def simp del: jprint.simps)
  show "snap_view hash s' = set_state (snap_view hash s) k f m"
    by (intro ext) (simp add: snap_view_def assms(1) Unmarshal_map_jprint [OF assms(2)] snap_hkey_inj
        del: jprint.simps)
qed

lemma view_same: "hash s' = hash s \<Longrightarrow> snap_ok hash s' = snap_ok hash s \<and> snap_view hash s' = snap_view hash s"
  by (simp add: snap_ok_def snap_view_def [abs_def])

lemma hset_sets:
  assumes "snap_ok hash s" "ev_payload e = JObj m" "wf_obj m" "0 < d"
  shows "sets_state (snap_ok hash) (snap_view hash) s (hset (repo d ord) s (snap_hkey k) f (Some e)) k f m"
proof -
  have t: "json_Marshal (ev_payload e) = Some (jprint (JObj m))"
    using assms(2,3) by (simp add: wf_obj_def Marshal_jwf del: jprint.simps)
  obtain s1 b1 where h: "r_hset R s (snap_hkey k) f (jprint (JObj m)) = (s1, b1)" by fastforce
  obtain s2 b2 where x: "r_expire R s1 (snap_hkey k) d = (s2, b2)" by fastforce
  have s2: "hash s2 = hash s1" by (rule expire_keeps [OF x assms(4)])
  have set_ok: "snap_ok hash s' \<and> snap_view hash s' = set_state (snap_view hash s) k f m"
    if "hash s' = set_field (hash s) (snap_hkey k) f (jprint (JObj m))" for s'
    by (rule view_set_field [OF that assms(3,1)])
  show ?thesis
  proof (cases b1)
    case True
    have "hash s1 = hash s \<or> hash s1 = set_field (hash s) (snap_hkey k) f (jprint (JObj m))"
      using hset_err h True by simp
    then show ?thesis
      using h True t set_ok [of s1] view_same [of s1 s] assms(1)
      by (auto simp: hset_def NewSnapshotRepository_def sets_state_def)
  next
    case False
    have "hash s1 = set_field (hash s) (snap_hkey k) f (jprint (JObj m))"
      using hset_ok h False by simp
    then have "snap_ok hash s2 \<and> snap_view hash s2 = set_state (snap_view hash s) k f m"
      using set_ok [of s2] s2 by simp
    then show ?thesis
      using h x False t by (cases b2) (auto simp: hset_def NewSnapshotRepository_def sets_state_def)
  qed
qed

lemma hgetall_lists:
  assumes "snap_ok hash s" "range_ok ord"
  shows "lists_states (snap_view hash s k)
    (case r_hgetall R s (snap_hkey k) of None \<Rightarrow> ([], True) | Some raw \<Rightarrow> read_states [] (map_range ord raw))"
proof (cases "r_hgetall R s (snap_hkey k)")
  case (Some raw)
  then have m: "msorted raw" "mget raw = hash s (snap_hkey k)" using hgetall_hash by blast+
  let ?fs = "ord (mkeys raw)"
  have d: "distinct ?fs" using assms(2) m(1) by (simp add: range_ok_distinct mkeys_def msorted_distinct)
  have sf: "set ?fs = dom (hash s (snap_hkey k))"
    by (simp add: range_ok_set [OF assms(2)] mkeys_def dom_map_of_conv_image_fst m(2) [symmetric])
  have v: "hash s (snap_hkey k) f = Some (the (mget raw f))" "state_text (the (mget raw f))" if "f \<in> set ?fs" for f
    using that assms(1) by (auto simp: sf m(2) snap_ok_def)
  have "list_all (state_text \<circ> snd) (map_range ord raw)"
    using v(2) by (simp add: map_range_def list_all_iff)
  then have "read_states [] (map_range ord raw) = (map (snap_view hash s k) ?fs, False)"
    by (simp add: read_states_ok map_range_def comp_def snap_view_def v(1))
  then show ?thesis
    using Some d sf by (auto simp: lists_states_def snap_view_dom [OF assms(1)] intro!: exI [of _ ?fs])
qed (simp add: lists_states_def)

lemma snapshot_contract_repo:
  assumes "0 < d" "range_ok ord"
  shows "snapshot_contract (snapshot_store_of (repo d ord)) (snap_ok hash) (snap_view hash) (r_pass R)"
proof
  fix s c h k f m t and e :: event
  assume ok: "snap_ok hash s"
  { assume "ev_payload e = JObj m" "wf_obj m"
    note set = hset_sets [OF ok this assms(1)]
    show "sets_state (snap_ok hash) (snap_view hash) s (ss_SetCluster (snapshot_store_of (repo d ord)) s c (Some e)) Clusters c m"
      using set [of ord Clusters c] by (simp add: snapshot_store_of_def SetCluster_def)
    show "sets_state (snap_ok hash) (snap_view hash) s (ss_SetHost (snapshot_store_of (repo d ord)) s c h (Some e)) (Hosts_of c) h m"
      using set [of ord "Hosts_of c" h] by (simp add: snapshot_store_of_def SetHost_def)
    show "sets_state (snap_ok hash) (snap_view hash) s (ss_SetInfraEnv (snapshot_store_of (repo d ord)) s c h (Some e)) (InfraEnvs_of c) h m"
      using set [of ord "InfraEnvs_of c" h] by (simp add: snapshot_store_of_def SetInfraEnv_def)
  next
    show "ss_GetCluster (snapshot_store_of (repo d ord)) s c = (Some [], False) \<or>
        (\<exists>m. snap_view hash s Clusters c = Some m \<and> ss_GetCluster (snapshot_store_of (repo d ord)) s c = (Some m, False))"
    proof (cases "r_hget R s getClustersHKey c")
      case (Some t)
      then have h: "hash s (snap_hkey Clusters) c = Some t" using hget_hash by simp
      then have "state_text t" using ok by (auto simp: snap_ok_def simp del: snap_hkey.simps)
      then obtain m where "Unmarshal_map (Some []) t = (Some m, False)" by (rule state_text_map)
      with h Some show ?thesis
        by (simp add: snapshot_store_of_def GetCluster_def NewSnapshotRepository_def snap_view_def)
    qed (simp add: snapshot_store_of_def GetCluster_def NewSnapshotRepository_def)
  next
    show "lists_states (snap_view hash s (Hosts_of c)) (ss_GetHosts (snapshot_store_of (repo d ord)) s c)"
      using hgetall_lists [OF ok assms(2), of "Hosts_of c"]
      by (simp add: snapshot_store_of_def GetHosts_def NewSnapshotRepository_def cong: option.case_cong)
    show "lists_states (snap_view hash s (InfraEnvs_of c)) (ss_GetInfraEnvs (snapshot_store_of (repo d ord)) s c)"
      using hgetall_lists [OF ok assms(2), of "InfraEnvs_of c"]
      by (simp add: snapshot_store_of_def GetInfraEnvs_def NewSnapshotRepository_def cong: option.case_cong)
  next
    assume "snap_view hash s k f = Some m"
    then show "wf_obj m"
      using ok by (fastforce simp: snap_view_def snap_ok_def elim: state_text_map split: Option.bind_splits)
  next
    show "snap_ok hash (r_pass R t s)"
      unfolding snap_ok_def using ok pass_drops by (metis (no_types, lifting) option.distinct(1) snap_ok_def)
    show "snap_view hash (r_pass R t s) k = snap_view hash s k \<or> snap_view hash (r_pass R t s) k = Map.empty"
      using pass_drops [of t s "snap_hkey k"] by (auto simp: snap_view_def [abs_def])
  }
qed

end

section \<open>Redis in memory\<close>

text \<open>
  The method \<^verbatim>\<open>Expire\<close> of go-redis sends whole seconds, at least one; a time to live, in
  nanoseconds.
\<close>

definition formatSec :: "int \<Rightarrow> int" where
  "formatSec dur =
     (if 0 < dur \<and> dur < 10 ^ 9 then 1
      else if dur < 0 then - (- dur div 10 ^ 9) else dur div 10 ^ 9)"

definition lifetime :: "int \<Rightarrow> nat" where
  "lifetime d = nat (formatSec d) * 10 ^ 9"

lemma lifetime_pos: "0 < d \<Longrightarrow> 0 < lifetime d"
  by (simp add: lifetime_def formatSec_def pos_imp_zdiv_pos_iff)

text \<open>A key has an assoc list and the time it has left; commands never fail.\<close>

type_synonym mem_store = "string \<Rightarrow> string gomap \<times> nat option"

definition mem_fields :: "mem_store \<Rightarrow> string \<Rightarrow> string gomap" where
  "mem_fields s k = mfold (fst (s k)) []"

definition mem_hash :: "mem_store \<Rightarrow> hashes" where
  "mem_hash s k = mget (mem_fields s k)"

definition mem_left :: "mem_store \<Rightarrow> string \<Rightarrow> nat option" where
  "mem_left s k = (if mem_fields s k = [] then None else snd (s k))"

definition mem_redis :: "mem_store redis_cmd" where
  "mem_redis =
     \<lparr> r_hset = (\<lambda>s k f v. (s (k := (mput f v (mem_fields s k), mem_left s k)), False)),
       r_expire = (\<lambda>s k d. (s (k := (fst (s k), Some (lifetime d))), False)),
       r_hget = mem_hash,
       r_hgetall = (\<lambda>s k. Some (mem_fields s k)),
       r_pass = (\<lambda>t s k.
         case mem_left s k of
           None \<Rightarrow> s k
         | Some n \<Rightarrow> if n \<le> t then ([], None) else (fst (s k), Some (n - t))) \<rparr>"

definition mem_empty :: mem_store where
  "mem_empty = (\<lambda>k. ([], None))"

lemma mem_fields_sorted: "msorted (mem_fields s k)"
  by (simp add: mem_fields_def msorted_mfold)

lemma mem_fields_put: "mem_fields (s (k := (mput f v (mem_fields s k), x))) k' = (if k' = k then mput f v (mem_fields s k) else mem_fields s k')"
  by (simp add: mem_fields_def msorted_mfold msorted_mput mfold_sorted)

lemma mput_ne: "mput k v m \<noteq> []"
  by (cases m) simp_all

lemma mem_left_put: "mem_left (s (k := (mput f v (mem_fields s k), mem_left s k))) = mem_left s"
  by (intro ext) (auto simp: mem_left_def mem_fields_put mput_ne)

lemma mem_hash_put: "mem_hash (s (k := (mput f v (mem_fields s k), x))) = set_field (mem_hash s) k f v"
  by (intro ext) (simp add: mem_hash_def mem_fields_put gomap_simps mem_fields_sorted)

lemma mem_fields_pass:
  "mem_fields (r_pass mem_redis t s) k = (case mem_left s k of Some n \<Rightarrow> if n \<le> t then [] else mem_fields s k | None \<Rightarrow> mem_fields s k)"
  by (simp add: mem_redis_def mem_fields_def split: option.split)

lemma mem_fields_expire: "mem_fields (s (k := (fst (s k), x))) = mem_fields s"
  by (intro ext) (simp add: mem_fields_def)

lemma mem_left_expire: "mem_fields s k \<noteq> [] \<Longrightarrow> mem_left (s (k := (fst (s k), Some n))) = (mem_left s) (k \<mapsto> n)"
  by (intro ext) (simp add: mem_left_def mem_fields_expire)

interpretation mem: redis_hashes mem_redis mem_hash
proof
  show "mem_hash (r_pass mem_redis t s) k = mem_hash s k \<or> mem_hash (r_pass mem_redis t s) k = Map.empty" for t s k
    by (auto simp: mem_hash_def mem_fields_pass split: option.split)
qed (auto simp: mem_redis_def mem_hash_put mem_fields_sorted, simp_all add: mem_hash_def [abs_def] mem_fields_expire)

text \<open>The repository as \<^verbatim>\<open>NewSnapshotRepositoryFromEnv\<close> makes it by default: 720 hours, in nanoseconds.\<close>

definition mem_repository :: "mem_store snapshot_repository" where
  "mem_repository = NewSnapshotRepository mem_redis (720 * 3600 * 10 ^ 9) (\<lambda>ks. ks)"

interpretation mem_repo: snapshot_contract
  "snapshot_store_of mem_repository" "snap_ok mem_hash" "snap_view mem_hash" "r_pass mem_redis"
  unfolding mem_repository_def by (rule mem.snapshot_contract_repo) (simp_all add: range_ok_id)

lemma mem_nothing: "\<forall>k f. mem_hash mem_empty k f = None"
  by (simp add: mem_hash_def mem_fields_def mem_empty_def)

lemma mem_empty_ok: "snap_ok mem_hash mem_empty"
  by (simp add: snap_ok_def mem_nothing)

end
