(* ===== verification/SnapshotHistory.thy ===== *)
theory SnapshotHistory
  imports SnapshotRepository
begin

text \<open>
  What the snapshot repository keeps in the course of time. All states of a kind share one
  hash of redis (all clusters, or the hosts of one cluster), every write gives the whole hash
  its time to live anew, and when that is over the whole hash is gone. Histories of writes and
  waiting are compared with a reference, \<open>state_since\<close>, that looks back for the last write.
\<close>

section \<open>Expiry\<close>

text \<open>
  What redis documents of the time a key has left: a command \<open>HSET\<close> keeps it, \<open>EXPIRE\<close> sets
  it, and a key whose time is over is gone.
\<close>

locale redis_expiry = redis_hashes R hash for R :: "'s redis_cmd" and hash +
  fixes left :: "'s \<Rightarrow> string \<Rightarrow> nat option"
  assumes left_exists: "left s k \<noteq> None \<Longrightarrow> hash s k \<noteq> Map.empty"
    and left_hset: "r_hset R s k f v = (s', False) \<Longrightarrow> left s' = left s"
    and left_expire: "r_expire R s k d = (s', False) \<Longrightarrow> 0 < d \<Longrightarrow> hash s k \<noteq> Map.empty \<Longrightarrow>
      left s' = (left s) (k \<mapsto> lifetime d)"
    and pass_hash: "hash (r_pass R t s) k =
      (case left s k of Some n \<Rightarrow> if n \<le> t then Map.empty else hash s k | None \<Rightarrow> hash s k)"
    and pass_left: "left (r_pass R t s) k =
      (case left s k of Some n \<Rightarrow> if n \<le> t then None else Some (n - t) | None \<Rightarrow> None)"

interpretation mem_expiry: redis_expiry mem_redis mem_hash mem_left
proof
  show "mem_hash (r_pass mem_redis t s) k =
      (case mem_left s k of Some n \<Rightarrow> if n \<le> t then Map.empty else mem_hash s k | None \<Rightarrow> mem_hash s k)" for t s k
    by (simp add: mem_hash_def mem_fields_pass fun_eq_iff split: option.split)
  show "mem_left (r_pass mem_redis t s) k =
      (case mem_left s k of Some n \<Rightarrow> if n \<le> t then None else Some (n - t) | None \<Rightarrow> None)" for t s k
    by (auto simp: mem_left_def mem_fields_pass) (auto simp: mem_redis_def mem_left_def split: option.split)
  show "mem_left s k \<noteq> None \<Longrightarrow> mem_hash s k \<noteq> Map.empty" for s k
    by (auto simp: mem_left_def mem_hash_def fun_eq_iff neq_Nil_conv split: if_splits)
  show "r_hset mem_redis s k f v = (s', False) \<Longrightarrow> mem_left s' = mem_left s" for s k f v s'
    by (auto simp: mem_redis_def mem_left_put)
  show "r_expire mem_redis s k d = (s', False) \<Longrightarrow> 0 < d \<Longrightarrow> mem_hash s k \<noteq> Map.empty \<Longrightarrow>
      mem_left s' = (mem_left s) (k \<mapsto> lifetime d)" for s k d s'
    by (auto simp: mem_redis_def mem_hash_def fun_eq_iff [of "\<lambda>x. None"] intro!: mem_left_expire)
qed

section \<open>Histories\<close>

datatype snap_event = Write snap_op | Wait nat

text \<open>The store after a history, None when a write returned an error.\<close>

fun apply_event :: "'s snapshot_store \<Rightarrow> (nat \<Rightarrow> 's \<Rightarrow> 's) \<Rightarrow> snap_event \<Rightarrow> 's \<Rightarrow> 's option" where
  "apply_event S later (Write x) s = (case apply_op S x s of (s', None) \<Rightarrow> Some s' | (s', Some err) \<Rightarrow> None)"
| "apply_event S later (Wait t) s = Some (later t s)"

fun run_history :: "'s snapshot_store \<Rightarrow> (nat \<Rightarrow> 's \<Rightarrow> 's) \<Rightarrow> snap_event list \<Rightarrow> 's \<Rightarrow> 's option" where
  "run_history S later [] s = Some s"
| "run_history S later (x # xs) s = Option.bind (apply_event S later x s) (run_history S later xs)"

lemma run_history_snoc:
  "run_history S later (xs @ [x]) s = Option.bind (run_history S later xs s) (apply_event S later x)"
proof (induction xs arbitrary: s)
  case Nil
  show ?case by (cases "apply_event S later x s") simp_all
next
  case (Cons y xs)
  then show ?case by (cases "apply_event S later y s") simp_all
qed

fun event_writes :: "snap_event \<Rightarrow> bool" where
  "event_writes (Write x) = op_ok x"
| "event_writes (Wait t) = True"

text \<open>
  Looking back over a history, its latest event first: \<open>g\<close> is the time since the last write
  under the key that was met, or since the end.
\<close>

fun state_since :: "nat \<Rightarrow> snap_event list \<Rightarrow> nat \<Rightarrow> snapshots" where
  "state_since life [] g k f = None"
| "state_since life (Wait t # xs) g k f = state_since life xs (g + t) k f"
| "state_since life (Write x # xs) g k f =
     (if op_key x \<noteq> k then state_since life xs g k f
      else if life \<le> g then None
      else if op_field x = f then Some (op_state x) else state_since life xs 0 k f)"

definition last_state :: "nat \<Rightarrow> snap_event list \<Rightarrow> snapshots" where
  "last_state life hs = state_since life (rev hs) 0"

text \<open>
  The states of a store and the time they have left agree with a history, its latest event first.
\<close>

definition tracks ::
  "('s \<Rightarrow> snapshots) \<Rightarrow> ('s \<Rightarrow> snap_key \<Rightarrow> nat option) \<Rightarrow> nat \<Rightarrow> snap_event list \<Rightarrow> 's \<Rightarrow> bool" where
  "tracks view due life xs s = (\<forall>k.
     (due s k = None \<longrightarrow> view s k = Map.empty \<and> (\<forall>f g. state_since life xs g k f = None)) \<and>
     (\<forall>n. due s k = Some n \<longrightarrow> 0 < n \<and> (\<forall>f g. state_since life xs g k f = (if g < n then view s k f else None))))"

text \<open>A repository whose keys live for \<open>life\<close> after every write.\<close>

locale expiring_snapshots = snapshot_contract S ok view later
  for S :: "'s snapshot_store" and ok and view and later +
  fixes due :: "'s \<Rightarrow> snap_key \<Rightarrow> nat option" and life :: nat
  assumes life_pos: "0 < life"
    and write_due: "ok s \<Longrightarrow> op_ok x \<Longrightarrow> apply_op S x s = (s', None) \<Longrightarrow> due s' = (due s) (op_key x \<mapsto> life)"
    and later_view: "ok s \<Longrightarrow> view (later t s) k =
      (case due s k of Some n \<Rightarrow> if n \<le> t then Map.empty else view s k | None \<Rightarrow> view s k)"
    and later_due: "ok s \<Longrightarrow> due (later t s) k =
      (case due s k of Some n \<Rightarrow> if n \<le> t then None else Some (n - t) | None \<Rightarrow> None)"
begin

lemma tracks_write:
  assumes "ok s" "tracks view due life xs s" "op_ok x" "apply_op S x s = (s', None)"
  shows "ok s' \<and> tracks view due life (Write x # xs) s'"
proof -
  have s': "ok s'" "view s' = set_state (view s) (op_key x) (op_field x) (op_state x)" "due s' = (due s) (op_key x \<mapsto> life)"
    using apply_op_sets [OF assms(1,3)] assms(4) write_due [OF assms(1,3,4)] by (auto simp: sets_state_def)
  have "state_since life xs 0 k f = view s k f" for k f
    using assms(2) by (cases "due s k") (auto simp: tracks_def)
  with assms(2) s' life_pos show ?thesis by (auto simp: tracks_def)
qed

lemma tracks_wait:
  assumes "ok s" "tracks view due life xs s"
  shows "ok (later t s) \<and> tracks view due life (Wait t # xs) (later t s)"
  using assms(2)
  by (auto simp: tracks_def later_ok [OF assms(1)] later_view [OF assms(1)] later_due [OF assms(1)]
      split: option.splits if_splits)

lemma run_history_tracks:
  assumes "ok s" "\<forall>k. due s k = None \<and> view s k = Map.empty"
  shows "list_all event_writes hs \<Longrightarrow> run_history S later hs s = Some s' \<Longrightarrow> ok s' \<and> tracks view due life (rev hs) s'"
proof (induction hs arbitrary: s' rule: rev_induct)
  case Nil
  with assms show ?case by (simp add: tracks_def)
next
  case (snoc x hs)
  then obtain s1 where s1: "run_history S later hs s = Some s1" "apply_event S later x s1 = Some s'"
    by (auto simp: run_history_snoc bind_eq_Some_conv)
  then have t: "ok s1" "tracks view due life (rev hs) s1" using snoc by simp_all
  show ?case
  proof (cases x)
    case (Write op)
    with s1(2) have "apply_op S op s1 = (s', None)" by (simp split: prod.splits option.splits)
    then show ?thesis using tracks_write [OF t, of op s'] snoc.prems(1) Write by simp
  qed (use tracks_wait [OF t] s1(2) in auto)
qed

lemma view_after:
  assumes "ok s" "\<forall>k. due s k = None \<and> view s k = Map.empty" "list_all event_writes hs"
    "run_history S later hs s = Some s'"
  shows "ok s'" "view s' k = last_state life hs k"
proof -
  note t = run_history_tracks [OF assms]
  then show "ok s'" ..
  from t show "view s' k = last_state life hs k"
    by (cases "due s' k") (auto simp: tracks_def last_state_def intro!: ext)
qed

lemma hosts_after:
  assumes "ok s" "\<forall>k. due s k = None \<and> view s k = Map.empty" "list_all event_writes hs"
    "run_history S later hs s = Some s'"
  shows "lists_states (last_state life hs (Hosts_of c)) (ss_GetHosts S s' c)"
    and "lists_states (last_state life hs (InfraEnvs_of c)) (ss_GetInfraEnvs S s' c)"
    and "ss_GetCluster S s' c = (Some [], False) \<or>
      (\<exists>m. last_state life hs Clusters c = Some m \<and> ss_GetCluster S s' c = (Some m, False))"
  using get_hosts [OF view_after(1) [OF assms], of c] get_infra_envs [OF view_after(1) [OF assms], of c]
    get_cluster [OF view_after(1) [OF assms], of c] by (simp_all add: view_after(2) [OF assms])

end

section \<open>The repository over a redis whose keys expire\<close>

locale redis_repository = redis_expiry R hash left for R :: "'s redis_cmd" and hash and left +
  fixes d :: int and ord :: range_order
  assumes d: "0 < d" and ord: "range_ok ord"
begin

lemma hset_left:
  assumes "hset (repo d ord) s key f e = (s', None)"
  shows "left s' = (left s) (key \<mapsto> lifetime d)"
proof -
  obtain v s1 where h: "r_hset R s key f v = (s1, False)" "r_expire R s1 key d = (s', False)"
    using assms by (auto simp: hset_def NewSnapshotRepository_def split: option.splits prod.splits bool.splits)
  have "hash s1 key \<noteq> Map.empty" using hset_ok [OF h(1)] by (auto simp: fun_eq_iff)
  with left_expire [OF h(2) d] left_hset [OF h(1)] show ?thesis by simp
qed

sublocale contract: snapshot_contract "snapshot_store_of (repo d ord)" "snap_ok hash" "snap_view hash" "r_pass R"
  by (rule snapshot_contract_repo [OF d ord])

sublocale snaps: expiring_snapshots "snapshot_store_of (repo d ord)" "snap_ok hash" "snap_view hash" "r_pass R"
  "\<lambda>s k. left s (snap_hkey k)" "lifetime d"
proof
  show "0 < lifetime d" by (rule lifetime_pos [OF d])
  show "(\<lambda>k. left s' (snap_hkey k)) = (\<lambda>k. left s (snap_hkey k)) (op_key x \<mapsto> lifetime d)"
    if "apply_op (snapshot_store_of (repo d ord)) x s = (s', None)" for s x s'
    using that by (cases x) (auto simp: snapshot_store_of_def SetCluster_def SetHost_def SetInfraEnv_def
        fun_eq_iff snap_hkey_inj simp flip: snap_hkey.simps dest!: hset_left)
  show "snap_view hash (r_pass R t s) k = (case left s (snap_hkey k) of
      Some n \<Rightarrow> if n \<le> t then Map.empty else snap_view hash s k | None \<Rightarrow> snap_view hash s k)" for t s k
    by (auto simp: snap_view_def [abs_def] pass_hash split: option.split)
qed (rule pass_left)

lemma nothing_left:
  assumes "\<forall>k f. hash s k f = None"
  shows "\<forall>k. left s (snap_hkey k) = None \<and> snap_view hash s k = Map.empty" "snap_ok hash s"
proof -
  have "left s k = None" for k using left_exists [of s k] assms by (cases "left s k") (auto simp: fun_eq_iff)
  then show "\<forall>k. left s (snap_hkey k) = None \<and> snap_view hash s k = Map.empty"
    using assms by (simp add: snap_view_def fun_eq_iff)
qed (use assms in \<open>simp add: snap_ok_def\<close>)

lemmas history_hosts = snaps.hosts_after
lemmas history_view = snaps.view_after

text \<open>The text in the hash is that of the state; \<^verbatim>\<open>GetCluster\<close> gives it when redis answers.\<close>

lemma hash_of_view:
  assumes "snap_ok hash s"
  shows "hash s (snap_hkey k) f = map_option (\<lambda>m. jprint (JObj m)) (snap_view hash s k f)"
proof (cases "hash s (snap_hkey k) f")
  case (Some t)
  then have "state_text t" using assms by (simp add: snap_ok_def)
  then obtain m where "wf_obj m" "t = jprint (JObj m)" unfolding state_text_def by blast
  with Some show ?thesis by (simp add: snap_view_def Unmarshal_map_jprint del: jprint.simps)
qed (simp add: snap_view_def)

lemma GetCluster_view:
  assumes "snap_ok hash s"
  shows "GetCluster (repo d ord) s c =
    (if r_hget R s getClustersHKey c = None then (Some [], False) else (snap_view hash s Clusters c, False))"
proof (cases "r_hget R s getClustersHKey c")
  case (Some t)
  then have h: "hash s (snap_hkey Clusters) c = Some t" using hget_hash by simp
  then have "state_text t" using assms by (auto simp: snap_ok_def simp del: snap_hkey.simps)
  then obtain m where "Unmarshal_map (Some []) t = (Some m, False)" by (rule state_text_map)
  with h Some show ?thesis by (simp add: GetCluster_def NewSnapshotRepository_def snap_view_def)
qed (simp add: GetCluster_def NewSnapshotRepository_def)

end

lemma redis_repositoryI:
  "redis_expiry R hash left \<Longrightarrow> 0 < d \<Longrightarrow> range_ok ord \<Longrightarrow> redis_repository R hash left d ord"
  by (simp add: redis_repository_def redis_repository_axioms_def)

interpretation mem_repo_kept: redis_repository mem_redis mem_hash mem_left "720 * 3600 * 10 ^ 9" "\<lambda>ks. ks"
  by (rule redis_repositoryI) (simp_all add: mem_expiry.redis_expiry_axioms range_ok_id)

section \<open>Results\<close>

text \<open>
  C6. The repository implements a map from identifiers to states that live for the configured
  time after the last write under their key: after any sequence of successful \<^verbatim>\<open>SetCluster\<close>,
  \<^verbatim>\<open>SetHost\<close> and \<^verbatim>\<open>SetInfraEnv\<close> and of waiting, on an empty redis, \<^verbatim>\<open>GetHosts\<close> lists every
  host of the cluster that has not expired once, with its last state, and no other; or it
  returns the error of redis and nothing.
\<close>

theorem GetHosts_history:
  assumes "redis_expiry R hash left" "0 < d" "range_ok ord" "\<forall>k f. hash s k f = None" "list_all event_writes hs"
    "run_history (snapshot_store_of (NewSnapshotRepository R d ord)) (r_pass R) hs s = Some s'"
  shows "lists_states (last_state (lifetime d) hs (Hosts_of c)) (GetHosts (NewSnapshotRepository R d ord) s' c)"
proof -
  note r = redis_repositoryI [OF assms(1-3)]
  from redis_repository.history_hosts(1) [OF r redis_repository.nothing_left(2,1) [OF r assms(4)] assms(5,6)]
  show ?thesis by (simp add: snapshot_store_of_def)
qed

section \<open>No cluster is forgotten while there are any\<close>

text \<open>
  Looking back as in \<open>state_since\<close>, there was a write under the key in every period of \<open>life\<close>.
\<close>

fun kept_alive :: "nat \<Rightarrow> snap_key \<Rightarrow> nat \<Rightarrow> snap_event list \<Rightarrow> bool" where
  "kept_alive life k g [] = (g < life)"
| "kept_alive life k g (Wait t # xs) = kept_alive life k (g + t) xs"
| "kept_alive life k g (Write x # xs) =
     (if op_key x \<noteq> k then kept_alive life k g xs else g < life \<and> kept_alive life k 0 xs)"

lemma state_since_kept:
  "\<forall>y. Write y \<in> set ys \<longrightarrow> (op_key y, op_field y) \<noteq> (op_key x, op_field x) \<Longrightarrow>
     state_since life (ys @ Write x # xs) g (op_key x) (op_field x) =
       (if kept_alive life (op_key x) g ys then Some (op_state x) else None)"
proof (induction life "op_key x" g ys rule: kept_alive.induct)
  case (3 life g y ys)
  then show ?case by (auto split: if_splits)
qed auto

text \<open>
  C14. All clusters share one hash, and the state of any cluster renews the time all of them
  have left. So, after the last write of the state of a cluster, redis still has that state
  exactly when in every period of the configured time since then, up to now, the state of some
  cluster was stored, and otherwise it has none; \<^verbatim>\<open>GetCluster\<close> returns what redis has, or an empty
  state when redis does not answer.
\<close>

theorem cluster_states_kept:
  assumes "redis_expiry R hash left" "0 < d" "range_ok ord" "\<forall>k f. hash s k f = None"
    "ev_payload e = JObj m" "\<forall>e'. Write (Set_cluster c e') \<notin> set ys"
    "hs = xs @ Write (Set_cluster c e) # ys" "list_all event_writes hs"
    "run_history (snapshot_store_of (NewSnapshotRepository R d ord)) (r_pass R) hs s = Some s'"
  shows "hash s' getClustersHKey c =
      (if kept_alive (lifetime d) Clusters 0 (rev ys) then Some (jprint (JObj m)) else None) \<and>
    GetCluster (NewSnapshotRepository R d ord) s' c =
      (if r_hget R s' getClustersHKey c = None then (Some [], False) else (Some m, False))"
proof -
  note r = redis_repositoryI [OF assms(1-3)]
  note v = redis_repository.history_view [OF r redis_repository.nothing_left(2,1) [OF r assms(4)] assms(8,9)]
  have "\<forall>y. Write y \<in> set (rev ys) \<longrightarrow> (op_key y, op_field y) \<noteq> (op_key (Set_cluster c e), op_field (Set_cluster c e))"
  proof (intro allI impI)
    fix y
    assume "Write y \<in> set (rev ys)"
    with assms(6) show "(op_key y, op_field y) \<noteq> (op_key (Set_cluster c e), op_field (Set_cluster c e))"
      by (cases y) auto
  qed
  from state_since_kept [OF this, of "lifetime d" "rev xs" 0] assms(5)
  have "snap_view hash s' Clusters c = (if kept_alive (lifetime d) Clusters 0 (rev ys) then Some m else None)"
    by (simp add: v(2) last_state_def assms(7))
  then have h: "hash s' getClustersHKey c =
      (if kept_alive (lifetime d) Clusters 0 (rev ys) then Some (jprint (JObj m)) else None)"
    and g: "snap_view hash s' Clusters c = None \<or> snap_view hash s' Clusters c = Some m"
    using redis_repository.hash_of_view [OF r v(1), of Clusters c] by auto
  have "hash s' getClustersHKey c \<noteq> None" if "r_hget R s' getClustersHKey c \<noteq> None"
    using redis_hashes.hget_hash [OF redis_expiry.axioms(1) [OF assms(1)]] that by fastforce
  then have "snap_view hash s' Clusters c = Some m" if "r_hget R s' getClustersHKey c \<noteq> None"
    using g redis_repository.hash_of_view [OF r v(1), of Clusters c] that by auto
  with redis_repository.GetCluster_view [OF r v(1), of c] h show ?thesis by simp
qed

section \<open>The results at a concrete history\<close>

definition sample_state :: "string \<Rightarrow> event" where
  "sample_state x = \<lparr> ev_name = ''HostState'', ev_payload = JObj [(''id'', JStr x)], ev_metadata = None \<rparr>"

text \<open>
  With a life of fifteen seconds: the host of the one cluster is forgotten, while the hosts of
  the other, and a cluster, are kept for twenty.
\<close>

definition sample_history :: "snap_event list" where
  "sample_history = [Write (Set_host ''d'' ''h'' (sample_state ''h'')), Write (Set_host ''c'' ''g'' (sample_state ''g'')),
     Wait (10 ^ 10), Write (Set_host ''c'' ''h'' (sample_state ''h'')), Wait (10 ^ 10)]"

definition cluster_history :: "snap_event list" where
  "cluster_history = [Write (Set_cluster ''c'' (sample_state ''c'')), Wait (10 ^ 10),
     Write (Set_cluster ''d'' (sample_state ''d'')), Wait (10 ^ 10)]"

abbreviation short_repository :: "mem_store snapshot_repository" where
  "short_repository \<equiv> NewSnapshotRepository mem_redis (15 * 10 ^ 9) (\<lambda>ks. ks)"

lemma mem_apply_op:
  assumes "op_ok x"
  obtains s' where "apply_op (snapshot_store_of (NewSnapshotRepository mem_redis d ord)) x s = (s', None)"
proof -
  have "json_Marshal (ev_payload (op_event x)) \<noteq> None"
    using assms by (auto simp: op_ok_def wf_obj_def Marshal_jwf split: json.splits)
  then have "snd (apply_op (snapshot_store_of (NewSnapshotRepository mem_redis d ord)) x s) = None"
    by (cases x) (auto simp: snapshot_store_of_def SetCluster_def SetHost_def SetInfraEnv_def hset_def
        NewSnapshotRepository_def mem_redis_def)
  then show thesis using that by (metis prod.collapse)
qed

lemma mem_history:
  "list_all event_writes hs \<Longrightarrow>
     \<exists>s'. run_history (snapshot_store_of (NewSnapshotRepository mem_redis d ord)) later hs s = Some s'"
proof (induction hs arbitrary: s)
  case (Cons h hs)
  show ?case
  proof (cases h)
    case (Write x)
    with Cons.prems obtain s1 where "apply_op (snapshot_store_of (NewSnapshotRepository mem_redis d ord)) x s = (s1, None)"
      by (auto elim: mem_apply_op)
    with Write Cons show ?thesis by simp
  qed (use Cons in simp)
qed simp

lemma sample_states_ok: "wf_obj [(''id'', JStr ''c'')] \<and> wf_obj [(''id'', JStr ''d'')] \<and>
    wf_obj [(''id'', JStr ''g'')] \<and> wf_obj [(''id'', JStr ''h'')]"
  by code_simp

lemma sample_histories_ok: "list_all event_writes sample_history" "list_all event_writes cluster_history"
  using sample_states_ok by (simp_all add: sample_history_def cluster_history_def sample_state_def op_ok_def)

lemma short_life: "lifetime 15000000000 = 15000000000"
  by (simp add: lifetime_def formatSec_def)

lemma sample_last:
  "last_state (lifetime (15 * 10 ^ 9)) sample_history (Hosts_of ''c'') ''g'' = Some [(''id'', JStr ''g'')]"
  "last_state (lifetime (15 * 10 ^ 9)) sample_history (Hosts_of ''d'') ''h'' = None"
  "last_state (lifetime (15 * 10 ^ 9)) cluster_history Clusters ''c'' = Some [(''id'', JStr ''c'')]"
  by (simp_all add: short_life last_state_def sample_history_def cluster_history_def sample_state_def)

interpretation short: redis_repository mem_redis mem_hash mem_left "15 * 10 ^ 9" "\<lambda>ks. ks"
  by (rule redis_repositoryI) (simp_all add: mem_expiry.redis_expiry_axioms range_ok_id)

theorem GetHosts_history_witness:
  "\<exists>s'. run_history (snapshot_store_of short_repository) (r_pass mem_redis) sample_history mem_empty = Some s' \<and>
     lists_states (last_state (lifetime (15 * 10 ^ 9)) sample_history (Hosts_of ''c'')) (GetHosts short_repository s' ''c'') \<and>
     last_state (lifetime (15 * 10 ^ 9)) sample_history (Hosts_of ''c'') ''g'' = Some [(''id'', JStr ''g'')] \<and>
     last_state (lifetime (15 * 10 ^ 9)) sample_history (Hosts_of ''d'') ''h'' = None"
proof -
  obtain s' where s': "run_history (snapshot_store_of short_repository) (r_pass mem_redis) sample_history mem_empty = Some s'"
    using mem_history [OF sample_histories_ok(1)] by blast
  from GetHosts_history [OF mem_expiry.redis_expiry_axioms _ range_ok_id mem_nothing sample_histories_ok(1) s'] s'
  show ?thesis using sample_last by auto
qed

theorem cluster_states_kept_witness:
  "\<exists>s'. run_history (snapshot_store_of short_repository) (r_pass mem_redis) cluster_history mem_empty = Some s' \<and>
     GetCluster short_repository s' ''c'' = (Some [(''id'', JStr ''c'')], False)"
proof -
  let ?ys = "[Wait (10 ^ 10), Write (Set_cluster ''d'' (sample_state ''d'')), Wait (10 ^ 10)]"
  obtain s' where s': "run_history (snapshot_store_of short_repository) (r_pass mem_redis) cluster_history mem_empty = Some s'"
    using mem_history [OF sample_histories_ok(2)] by blast
  have k: "kept_alive (lifetime (15 * 10 ^ 9)) Clusters 0 (rev ?ys)" by (simp add: short_life)
  have "mem_hash s' getClustersHKey ''c'' = (if kept_alive (lifetime (15 * 10 ^ 9)) Clusters 0 (rev ?ys)
      then Some (jprint (JObj [(''id'', JStr ''c'')])) else None) \<and>
    GetCluster short_repository s' ''c'' =
      (if r_hget mem_redis s' getClustersHKey ''c'' = None then (Some [], False) else (Some [(''id'', JStr ''c'')], False))"
    by (rule cluster_states_kept [where e = "sample_state ''c''" and xs = "[]" and ys = ?ys,
          OF mem_expiry.redis_expiry_axioms _ range_ok_id mem_nothing _ _ _ sample_histories_ok(2) s'])
      (simp_all add: cluster_history_def sample_state_def)
  with k have "mem_hash s' getClustersHKey ''c'' \<noteq> None"
    "GetCluster short_repository s' ''c'' =
      (if r_hget mem_redis s' getClustersHKey ''c'' = None then (Some [], False) else (Some [(''id'', JStr ''c'')], False))"
    by (simp_all del: jprint.simps)
  then have "GetCluster short_repository s' ''c'' = (Some [(''id'', JStr ''c'')], False)"
    by (simp add: mem_redis_def mem_hash_def)
  with s' show ?thesis by blast
qed

end
