(* ===== verification/FileTree.thy ===== *)
theory FileTree
  imports Prelude
begin

text \<open>
  What the on-prem extractor uses of packages \<^verbatim>\<open>os\<close> and \<^verbatim>\<open>path/filepath\<close>: a tree of
  directories and files, absolute paths as lists of segments, \<^verbatim>\<open>filepath.Join\<close>,
  \<^verbatim>\<open>os.MkdirAll\<close>, \<^verbatim>\<open>os.OpenFile\<close> for writing, reading a file, \<^verbatim>\<open>os.RemoveAll\<close>, and
  \<^verbatim>\<open>filepath.Glob\<close> for patterns with one star. Permissions and symbolic links are left out.
\<close>

type_synonym path = "string list"

datatype node = Dir_node | File_node string

text \<open>An association list; the root exists.\<close>

type_synonym tree = "(path \<times> node) list"

definition tree_node :: "tree \<Rightarrow> path \<Rightarrow> node option" where
  "tree_node t p = (if p = [] then Some Dir_node else map_of t p)"

definition tree_put :: "path \<Rightarrow> node \<Rightarrow> tree \<Rightarrow> tree" where
  "tree_put p n t = (p, n) # filter (\<lambda>q. fst q \<noteq> p) t"

lemma map_of_filter_other: "q \<noteq> p \<Longrightarrow> map_of (filter (\<lambda>r. fst r \<noteq> p) t) q = map_of t q"
  by (induction t) auto

lemma tree_node_put [simp]:
  "p \<noteq> [] \<Longrightarrow> tree_node (tree_put p n t) q = (if q = p then Some n else tree_node t q)"
  by (simp add: tree_node_def tree_put_def map_of_filter_other)

section \<open>Paths\<close>

text \<open>
  \<^verbatim>\<open>filepath.Join(dir, name)\<close> for a clean absolute \<open>dir\<close>: empty segments and \<^verbatim>\<open>.\<close> are
  dropped, \<^verbatim>\<open>..\<close> goes up, and stays at the root.
\<close>

fun clean_segs :: "path \<Rightarrow> string list \<Rightarrow> path" where
  "clean_segs acc [] = acc"
| "clean_segs acc (s # ss) =
     (if s = [] \<or> s = ''.'' then clean_segs acc ss
      else if s = ''..'' then clean_segs (butlast acc) ss
      else clean_segs (acc @ [s]) ss)"

definition join_path :: "path \<Rightarrow> string \<Rightarrow> path" where
  "join_path dir name = clean_segs dir (strings_Split name ''/'')"

section \<open>Directories and files\<close>

definition is_file :: "tree \<Rightarrow> path \<Rightarrow> bool" where
  "is_file t p = (case tree_node t p of Some (File_node c) \<Rightarrow> True | _ \<Rightarrow> False)"

text \<open>The path and its parents become directories; an error when one of them is a file.\<close>

definition mkdir_all :: "tree \<Rightarrow> path \<Rightarrow> tree option" where
  "mkdir_all t p =
     (let ps = map (\<lambda>k. take k p) [1..<Suc (length p)]
      in if list_ex (is_file t) ps then None
         else Some (foldl (\<lambda>acc q. tree_put q Dir_node acc) t ps))"

text \<open>Create or truncate: the parent has to be a directory, the path must not be one.\<close>

definition open_trunc :: "tree \<Rightarrow> path \<Rightarrow> tree option" where
  "open_trunc t p =
     (if p = [] \<or> tree_node t p = Some Dir_node \<or> tree_node t (butlast p) \<noteq> Some Dir_node then None
      else Some (tree_put p (File_node []) t))"

text \<open>\<^verbatim>\<open>os.Open\<close> and \<^verbatim>\<open>io.ReadAll\<close> whose error is dropped: a directory reads as empty.\<close>

definition read_path :: "tree \<Rightarrow> path \<Rightarrow> string option" where
  "read_path t p =
     (case tree_node t p of
        None \<Rightarrow> None
      | Some Dir_node \<Rightarrow> Some []
      | Some (File_node c) \<Rightarrow> Some c)"

text \<open>\<^verbatim>\<open>os.RemoveAll\<close>: the path and all that is below it.\<close>

definition remove_all :: "path \<Rightarrow> tree \<Rightarrow> tree" where
  "remove_all p t = filter (\<lambda>q. take (length p) (fst q) \<noteq> p) t"

lemma map_of_filter_key: "map_of (filter (\<lambda>q. P (fst q)) t) x = (if P x then map_of t x else None)"
  by (induction t) auto

lemma tree_node_remove_all:
  "x \<noteq> [] \<Longrightarrow> tree_node (remove_all p t) x = (if take (length p) x = p then None else tree_node t x)"
  using map_of_filter_key [of "\<lambda>k. take (length p) k \<noteq> p" t x] by (simp add: tree_node_def remove_all_def)

text \<open>
  \<open>glob_star t dir rest\<close>: the paths that match \<open>dir/*/rest\<close>, in the order of the names
  that stand for the star.
\<close>

definition children :: "tree \<Rightarrow> path \<Rightarrow> string list" where
  "children t dir = sort (remdups (map (\<lambda>q. last (fst q))
     (filter (\<lambda>q. fst q \<noteq> [] \<and> butlast (fst q) = dir) t)))"

definition glob_star :: "tree \<Rightarrow> path \<Rightarrow> path \<Rightarrow> path list" where
  "glob_star t dir rest = filter (\<lambda>p. tree_node t p \<noteq> None) (map (\<lambda>s. dir @ [s] @ rest) (children t dir))"

end
