(* ===== verification/Stream.thy ===== *)
theory Stream
  imports EventJson
begin

text \<open>
  Package \<^verbatim>\<open>pkg/stream\<close> apart from the consuming loop: kafka messages, the connection
  settings of reader and writer, \<^verbatim>\<open>KafkaWriter\<close> and \<^verbatim>\<open>NotificationStream\<close>. The producer of
  kafka-go and the construction of a SCRAM mechanism are parameters.
\<close>

record kafka_msg =
  km_key :: string
  km_value :: string
  km_headers :: "(string \<times> string) list"
  km_offset :: nat

section \<open>reader.go and writer.go: the connection\<close>

record kafka_config =
  kc_bootstrap_server :: string
  kc_client_id :: string
  kc_client_secret :: string
  kc_sasl_mechanism :: string
  kc_topic :: string
  kc_group_id :: string
  kc_destination_topic :: string

datatype mechanism = Plain string string | Scram_SHA512 string string

datatype mechanism_error = Mechanism_not_implemented string | Scram_failed

text \<open>\<open>scram u p\<close>: whether \<^verbatim>\<open>scram.Mechanism\<close> accepts the user and the password.\<close>

type_synonym scram_check = "string \<Rightarrow> string \<Rightarrow> bool"

definition getMechanism :: "scram_check \<Rightarrow> kafka_config \<Rightarrow> mechanism_error + mechanism" where
  "getMechanism scram c =
     (if kc_sasl_mechanism c = ''PLAIN'' then Inr (Plain (kc_client_id c) (kc_client_secret c))
      else if kc_sasl_mechanism c = ''SCRAM'' then
        (if scram (kc_client_id c) (kc_client_secret c)
         then Inr (Scram_SHA512 (kc_client_id c) (kc_client_secret c)) else Inl Scram_failed)
      else Inl (Mechanism_not_implemented (kc_sasl_mechanism c)))"

text \<open>What is given to kafka-go; TLS is on exactly when there is a mechanism.\<close>

record reader_config =
  rc_brokers :: "string list"
  rc_topic :: string
  rc_min_bytes :: nat
  rc_max_bytes :: nat
  rc_group_id :: string
  rc_commit_interval_s :: nat
  rc_dialer :: "mechanism option"

definition NewKafkaReader :: "scram_check \<Rightarrow> kafka_config \<Rightarrow> mechanism_error + reader_config" where
  "NewKafkaReader scram c =
     (let config = \<lparr> rc_brokers = strings_Split (kc_bootstrap_server c) '','', rc_topic = kc_topic c,
            rc_min_bytes = 10000, rc_max_bytes = 10000000, rc_group_id = kc_group_id c,
            rc_commit_interval_s = 10, rc_dialer = None \<rparr>
      in if kc_client_id c \<noteq> [] \<and> kc_client_secret c \<noteq> []
         then (case getMechanism scram c of
                 Inl err \<Rightarrow> Inl err
               | Inr m \<Rightarrow> Inr (config \<lparr> rc_dialer := Some m \<rparr>))
         else Inr config)"

record writer_config =
  wc_brokers :: "string list"
  wc_topic :: string
  wc_async :: bool
  wc_write_timeout_s :: nat
  wc_transport :: "mechanism option"

definition newProducer :: "scram_check \<Rightarrow> kafka_config \<Rightarrow> mechanism_error + writer_config" where
  "newProducer scram c =
     (case getMechanism scram c of
        Inl err \<Rightarrow> Inl err
      | Inr m \<Rightarrow> Inr \<lparr> wc_brokers = strings_Split (kc_bootstrap_server c) '','',
          wc_topic = kc_destination_topic c, wc_async = False, wc_write_timeout_s = 5,
          wc_transport = Some m \<rparr>)"

section \<open>writer.go\<close>

text \<open>
  \<^verbatim>\<open>Producer.WriteMessages\<close> over a state \<open>'w\<close>; a flag is True for an error. \<^verbatim>\<open>Write\<close> takes
  the JSON value of its argument.
\<close>

type_synonym 'w producer = "'w \<Rightarrow> string \<Rightarrow> string \<Rightarrow> 'w \<times> bool"

definition KafkaWriter_Write :: "'w producer \<Rightarrow> 'w \<Rightarrow> string \<Rightarrow> json \<Rightarrow> 'w \<times> bool" where
  "KafkaWriter_Write producer w key val =
     (case json_Marshal val of
        None \<Rightarrow> (w, True)
      | Some encodedValue \<Rightarrow> producer w key encodedValue)"

text \<open>
  The interfaces \<^verbatim>\<open>Producer\<close> and \<^verbatim>\<open>EventStreamWriter\<close>, and \<^verbatim>\<open>KafkaWriter\<close>, which makes one of
  the other.
\<close>

record 'w kafka_producer =
  kp_WriteMessages :: "'w producer"
  kp_Close :: "'w \<Rightarrow> 'w"

record 'w stream_writer =
  sw_Write :: "'w \<Rightarrow> string \<Rightarrow> json \<Rightarrow> 'w \<times> bool"
  sw_Close :: "'w \<Rightarrow> 'w"

definition KafkaWriter_Close :: "'w kafka_producer \<Rightarrow> 'w \<Rightarrow> 'w" where
  "KafkaWriter_Close p w = kp_Close p w"

definition KafkaWriter :: "'w kafka_producer \<Rightarrow> 'w stream_writer" where
  "KafkaWriter p = \<lparr> sw_Write = KafkaWriter_Write (kp_WriteMessages p), sw_Close = KafkaWriter_Close p \<rparr>"

text \<open>The JSON value of a \<^verbatim>\<open>types.Event\<close>.\<close>

definition event_json :: "event \<Rightarrow> json" where
  "event_json e = JObj [(''name'', JStr (ev_name e)), (''payload'', ev_payload e),
     (''metadata'', opt_json JObj (ev_metadata e))]"

section \<open>notification.go\<close>

record notifiable =
  nt_cluster_id :: "string option"
  nt_type :: string
  nt_payload :: json

definition envelope_json :: "string \<Rightarrow> json \<Rightarrow> json \<Rightarrow> json" where
  "envelope_json name payload meta = JObj [(''Name'', JStr name), (''Payload'', payload), (''Metadata'', meta)]"

datatype notify_error = Nil_notifiable | Write_failed

text \<open>The writer of the stream may be nil.\<close>

record 'w notification_stream =
  ns_metadata :: json
  ns_writer :: "'w stream_writer option"

definition NewNotificationStream :: "'w stream_writer option \<Rightarrow> json \<Rightarrow> 'w notification_stream" where
  "NewNotificationStream wr metadata = \<lparr> ns_metadata = metadata, ns_writer = wr \<rparr>"

text \<open>
  What the interface \<^verbatim>\<open>Notifiable\<close> holds: nothing or a nil pointer, a pointer, or the value of
  a struct itself, for which \<^verbatim>\<open>reflect.Value.IsNil\<close> panics.
\<close>

datatype notifiable_value = Nil_value | Pointer notifiable | Struct_value notifiable

definition Notify :: "'w notification_stream \<Rightarrow> 'w \<Rightarrow> notifiable_value \<Rightarrow> ('w \<times> notify_error option) go" where
  "Notify s w n =
     (case ns_writer s of
        None \<Rightarrow> Return (w, None)
      | Some wr \<Rightarrow>
          (case n of
             Nil_value \<Rightarrow> Return (w, Some Nil_notifiable)
           | Struct_value x \<Rightarrow> Panic
           | Pointer x \<Rightarrow>
               (case sw_Write wr w (case nt_cluster_id x of None \<Rightarrow> [] | Some c \<Rightarrow> c)
                       (envelope_json (nt_type x) (nt_payload x) (ns_metadata s)) of
                  (w', True) \<Rightarrow> Return (w', Some Write_failed)
                | (w', False) \<Rightarrow> Return (w', None))))"

definition NotificationStream_Close :: "'w notification_stream \<Rightarrow> 'w \<Rightarrow> 'w" where
  "NotificationStream_Close s w = (case ns_writer s of None \<Rightarrow> w | Some wr \<Rightarrow> sw_Close wr w)"

end
