(* ===== verification/EventExtractor.thy ===== *)
theory EventExtractor
  imports FileTree Stream Decoding
begin

text \<open>
  \<^verbatim>\<open>internal/onprem/event_extractor.go\<close>: an archive is unpacked into a temporary
  directory, and the JSON files found there become events. \<^verbatim>\<open>archive/tar\<close> and
  \<^verbatim>\<open>compress/gzip\<close> are a parameter that gives the entries in the bytes of a file, up to
  the end or an error, and None when there is no gzip header.
\<close>

section \<open>Unpacking\<close>

text \<open>An entry: its name, whether it is a directory, and the bytes that can be copied.\<close>

record tar_entry =
  te_name :: string
  te_dir :: bool
  te_body :: string

text \<open>
  An entry for a directory goes on to the creation of a file of the same name, which
  fails; every failure is only logged, and the next entry follows.
\<close>

definition readTarLine :: "path \<Rightarrow> tree \<Rightarrow> tar_entry \<Rightarrow> tree" where
  "readTarLine tmpdir t header =
     (let p = join_path tmpdir (te_name header);
          create = (\<lambda>t1.
            case mkdir_all t1 (butlast p) of
              None \<Rightarrow> t1
            | Some t2 \<Rightarrow>
                (case open_trunc t2 p of
                   None \<Rightarrow> t2
                 | Some t3 \<Rightarrow> tree_put p (File_node (te_body header)) t3))
      in if te_dir header then (case mkdir_all t p of None \<Rightarrow> t | Some t1 \<Rightarrow> create t1) else create t)"

type_synonym tar_reader = "string \<Rightarrow> tar_entry list option"

definition archive_entries :: "tar_reader \<Rightarrow> tree \<Rightarrow> path \<Rightarrow> tar_entry list" where
  "archive_entries tar t filename =
     (case read_path t filename of
        None \<Rightarrow> []
      | Some gzipfile \<Rightarrow> (case tar gzipfile of None \<Rightarrow> [] | Some es \<Rightarrow> es))"

definition untarFile :: "tar_reader \<Rightarrow> path \<Rightarrow> tree \<Rightarrow> path \<Rightarrow> tree" where
  "untarFile tar filename t tmpdir = foldl (readTarLine tmpdir) t (archive_entries tar t filename)"

section \<open>Events from files\<close>

record event_type_match =
  em_glob :: path
  em_event_name :: string
  em_cluster_id_key :: string

record event_envelope =
  env_key :: string
  env_event :: event

text \<open>The paths stand for the patterns \<^verbatim>\<open>/*/events/hosts.json\<close> and so on.\<close>

definition event_type_matches :: "event_type_match list" where
  "event_type_matches =
     [\<lparr> em_glob = [''events'', ''hosts.json''], em_event_name = ''HostState'', em_cluster_id_key = ''cluster_id'' \<rparr>,
      \<lparr> em_glob = [''events'', ''cluster.json''], em_event_name = ''ClusterState'', em_cluster_id_key = ''id'' \<rparr>,
      \<lparr> em_glob = [''events'', ''infraenv.json''], em_event_name = ''InfraEnv'', em_cluster_id_key = ''cluster_id'' \<rparr>,
      \<lparr> em_glob = [''events.json''], em_event_name = ''Event'', em_cluster_id_key = ''cluster_id'' \<rparr>]"

text \<open>The versions of the first file; what was decoded before an error is kept.\<close>

definition getVersionsFromFile :: "tree \<Rightarrow> path \<Rightarrow> string gomap option \<times> bool" where
  "getVersionsFromFile t tmpdir =
     (case glob_star t tmpdir [''versions.json''] of
        [] \<Rightarrow> (Some [], True)
      | f # fs \<Rightarrow>
          (case read_path t f of
             None \<Rightarrow> (Some [], True)
           | Some byteValue \<Rightarrow>
               (case json_parse byteValue of
                  None \<Rightarrow> (Some [], True)
                | Some v \<Rightarrow> decode_map_of decode_string [] (Some []) v)))"

definition versions_json :: "string gomap option \<Rightarrow> json" where
  "versions_json versions = opt_json (\<lambda>m. JObj (map (\<lambda>(k, v). (k, JStr v)) m)) versions"

definition getMetadata :: "string gomap option \<Rightarrow> jobject" where
  "getMetadata versions = [(''versions'', JObj [(''versions'', versions_json versions)])]"

definition onprem_resource :: "event_type_match \<Rightarrow> jobject \<Rightarrow> jobject" where
  "onprem_resource m resource =
     (if em_event_name m = ''ClusterState'' then mdel ''hosts'' (mput ''onprem'' (JBool True) resource) else resource)"

text \<open>The loop returns at the first resource without a cluster identifier of type string.\<close>

fun transformResourcesToEvents ::
  "event_type_match \<Rightarrow> string gomap option \<Rightarrow> jobject option list \<Rightarrow> event_envelope list" where
  "transformResourcesToEvents m versions [] = []"
| "transformResourcesToEvents m versions (resource # resources) =
     (case resource of
        None \<Rightarrow> []
      | Some r \<Rightarrow>
          (case mget r (em_cluster_id_key m) of
             Some (JStr cID) \<Rightarrow>
               \<lparr> env_key = cID,
                 env_event = \<lparr> ev_name = em_event_name m, ev_payload = JObj (onprem_resource m r),
                   ev_metadata = Some (getMetadata versions) \<rparr> \<rparr>
               # transformResourcesToEvents m versions resources
           | _ \<Rightarrow> []))"

text \<open>A list of objects, or one object.\<close>

definition getResourcesFromFile :: "tree \<Rightarrow> path \<Rightarrow> jobject option list \<times> bool" where
  "getResourcesFromFile t filename =
     (case read_path t filename of
        None \<Rightarrow> ([], True)
      | Some byteValue \<Rightarrow>
          (case json_parse byteValue of
             None \<Rightarrow> ([], True)
           | Some v \<Rightarrow>
               (case decode_maps [] v of
                  (resources, False) \<Rightarrow> (resources, False)
                | (resources, True) \<Rightarrow>
                    (case decode_map (Some []) v of
                       (resource, True) \<Rightarrow> ([], True)
                     | (resource, False) \<Rightarrow> (resources @ [resource], False)))))"

definition extractEventsForEventType ::
  "tree \<Rightarrow> path \<Rightarrow> string gomap option \<Rightarrow> event_type_match \<Rightarrow> event_envelope list" where
  "extractEventsForEventType t tmpdir versions m =
     concat (map (\<lambda>jFile. transformResourcesToEvents m versions (fst (getResourcesFromFile t jFile)))
       (glob_star t tmpdir (em_glob m)))"

definition extractEvents :: "tree \<Rightarrow> path \<Rightarrow> event_envelope list" where
  "extractEvents t tmpdir =
     concat (map (extractEventsForEventType t tmpdir (fst (getVersionsFromFile t tmpdir))) event_type_matches)"

text \<open>
  \<^verbatim>\<open>ExtractEvents\<close> sends the events to a channel with room for \<open>cap\<close> of them, and returns
  the channel only afterwards: with more events than that it waits for ever. \<open>tmp\<close> is the
  directory that \<^verbatim>\<open>os.MkdirTemp\<close> makes, None when it cannot; it is removed at the return.
\<close>

datatype extraction = Extracted "event_envelope list" | Extract_failed | Blocked

definition ExtractEvents :: "tar_reader \<Rightarrow> nat \<Rightarrow> path option \<Rightarrow> tree \<Rightarrow> path \<Rightarrow> tree \<times> extraction" where
  "ExtractEvents tar cap tmp t tarFilename =
     (case tmp of
        None \<Rightarrow> (t, Extract_failed)
      | Some tmpdir \<Rightarrow>
          let t1 = untarFile tar tarFilename (tree_put tmpdir Dir_node t) tmpdir;
              events = extractEvents t1 tmpdir
          in if length events \<le> cap then (remove_all tmpdir t1, Extracted events) else (t1, Blocked))"

section \<open>What unpacking touches\<close>

lemma clean_segs_down:
  "''..'' \<notin> set ss \<Longrightarrow> clean_segs acc ss = acc @ filter (\<lambda>s. s \<noteq> [] \<and> s \<noteq> ''.'') ss"
  by (induction acc ss rule: clean_segs.induct) auto

lemma foldl_put_dirs:
  "\<forall>q\<in>set ps. q \<noteq> [] \<Longrightarrow>
     tree_node (foldl (\<lambda>acc q. tree_put q Dir_node acc) t ps) x = (if x \<in> set ps then Some Dir_node else tree_node t x)"
  by (induction ps arbitrary: t) auto

lemma mkdir_all_node:
  assumes "mkdir_all t p = Some t'"
  shows "tree_node t' x = (if \<exists>k. 1 \<le> k \<and> k \<le> length p \<and> x = take k p then Some Dir_node else tree_node t x)"
proof -
  let ?ps = "map (\<lambda>k. take k p) [1..<Suc (length p)]"
  have "\<forall>q\<in>set ?ps. q \<noteq> []" by auto
  from foldl_put_dirs [OF this, of t x]
  have f: "tree_node (foldl (\<lambda>acc q. tree_put q Dir_node acc) t ?ps) x =
    (if x \<in> set ?ps then Some Dir_node else tree_node t x)" .
  have m: "x \<in> set ?ps \<longleftrightarrow> (\<exists>k. 1 \<le> k \<and> k \<le> length p \<and> x = take k p)"
    by (auto simp: image_iff less_Suc_eq_le simp del: upt_Suc)
  have "t' = foldl (\<lambda>acc q. tree_put q Dir_node acc) t ?ps"
    using assms by (simp add: mkdir_all_def Let_def del: upt_Suc split: if_splits)
  then show ?thesis using f m by simp
qed

lemma open_trunc_node: "open_trunc t p = Some t' \<Longrightarrow> tree_node t' x = (if x = p then Some (File_node []) else tree_node t x)"
  by (auto simp: open_trunc_def split: if_splits)

text \<open>All parents of \<open>dir\<close> and \<open>dir\<close> itself are directories.\<close>

definition dir_exists :: "tree \<Rightarrow> path \<Rightarrow> bool" where
  "dir_exists t dir = (\<forall>k\<le>length dir. tree_node t (take k dir) = Some Dir_node)"

definition below :: "path \<Rightarrow> path \<Rightarrow> bool" where
  "below dir x = (\<exists>r. r \<noteq> [] \<and> x = dir @ r)"

lemma prefix_is_dir:
  assumes "dir_exists t dir" "\<not> below dir x" "k \<le> length (dir @ r)" "x = take k (dir @ r)"
  shows "tree_node t x = Some Dir_node"
proof -
  have "k \<le> length dir"
  proof (rule ccontr)
    assume "\<not> k \<le> length dir"
    then have "take k (dir @ r) = dir @ take (k - length dir) r" "take (k - length dir) r \<noteq> []"
      using assms(3) by auto
    then have "below dir x" unfolding below_def using assms(4) by (intro exI [of _ "take (k - length dir) r"]) simp
    with assms(2) show False ..
  qed
  then show ?thesis using assms(1,4) by (simp add: dir_exists_def)
qed

lemma mkdir_all_outside:
  assumes "dir_exists t dir" "\<not> below dir x" "mkdir_all u q = Some t'" "q = take j (dir @ r)" "tree_node u x = tree_node t x"
  shows "tree_node t' x = tree_node t x"
proof (cases "\<exists>k. 1 \<le> k \<and> k \<le> length q \<and> x = take k q")
  case True
  then obtain k where "1 \<le> k" "k \<le> length q" "x = take k q" by blast
  then have "tree_node t x = Some Dir_node"
    using assms(4) prefix_is_dir [OF assms(1,2), of "min k j" r] by (auto simp: min_def split: if_splits)
  then show ?thesis using mkdir_all_node [OF assms(3)] True by simp
next
  case False
  then show ?thesis using mkdir_all_node [OF assms(3), of x] assms(5) by (simp only: if_False)
qed

lemma create_outside:
  assumes d: "dir_exists t dir" "\<not> below dir x" and t1: "tree_node t1 x = tree_node t x"
  shows "tree_node (case mkdir_all t1 (butlast (dir @ r)) of None \<Rightarrow> t1
      | Some t2 \<Rightarrow> (case open_trunc t2 (dir @ r) of None \<Rightarrow> t2
          | Some t3 \<Rightarrow> tree_put (dir @ r) (File_node body) t3)) x = tree_node t x"
proof (cases "mkdir_all t1 (butlast (dir @ r))")
  case (Some t2)
  have b: "butlast (dir @ r) = take (length (dir @ r) - 1) (dir @ r)" by (simp add: butlast_conv_take)
  have t2: "tree_node t2 x = tree_node t x" by (rule mkdir_all_outside [OF d Some b t1])
  show ?thesis
  proof (cases "open_trunc t2 (dir @ r)")
    case (Some t3)
    then have o: "dir @ r \<noteq> []" "tree_node t2 (dir @ r) \<noteq> Some Dir_node" by (auto simp: open_trunc_def split: if_splits)
    have "x \<noteq> dir @ r" using prefix_is_dir [OF d, of "length (dir @ r)" r] o(2) t2 by auto
    then show ?thesis using o(1) \<open>mkdir_all t1 _ = _\<close> Some t2 open_trunc_node [OF Some, of x] by simp
  qed (use Some t2 in simp)
qed (use t1 in simp)

lemma readTarLine_outside:
  assumes d: "dir_exists t dir" and n: "''..'' \<notin> set (strings_Split (te_name e) ''/'')" and x: "\<not> below dir x"
  shows "tree_node (readTarLine dir t e) x = tree_node t x"
proof -
  obtain r where p: "join_path dir (te_name e) = dir @ r"
    using clean_segs_down [OF n] by (simp add: join_path_def)
  note create = create_outside [OF d x]
  show ?thesis
  proof (cases "te_dir e")
    case False
    then show ?thesis using create [of t] by (simp add: readTarLine_def p Let_def)
  next
    case True
    show ?thesis
    proof (cases "mkdir_all t (dir @ r)")
      case None
      then show ?thesis using True by (simp add: readTarLine_def p Let_def)
    next
      case (Some t1)
      have "tree_node t1 x = tree_node t x" by (rule mkdir_all_outside [OF d x Some _ refl, of "length (dir @ r)" r]) simp
      then show ?thesis using True Some create [of t1] by (simp add: readTarLine_def p Let_def)
    qed
  qed
qed

lemma below_prefix: "\<not> below dir (take k dir)"
proof
  assume "below dir (take k dir)"
  then obtain r where "r \<noteq> []" "take k dir = dir @ r" by (auto simp: below_def)
  then have "length (take k dir) = length dir + length r" "0 < length r" by simp_all
  moreover have "length (take k dir) \<le> length dir" by simp
  ultimately show False by linarith
qed

lemma readTarLine_keeps_dir:
  "dir_exists t dir \<Longrightarrow> ''..'' \<notin> set (strings_Split (te_name e) ''/'') \<Longrightarrow> dir_exists (readTarLine dir t e) dir"
  using readTarLine_outside [OF _ _ below_prefix] by (simp add: dir_exists_def)

definition plain_names :: "tar_entry list \<Rightarrow> bool" where
  "plain_names es = list_all (\<lambda>e. ''..'' \<notin> set (strings_Split (te_name e) ''/'')) es"

lemma untar_outside:
  "dir_exists t dir \<Longrightarrow> plain_names es \<Longrightarrow> \<not> below dir x \<Longrightarrow>
     tree_node (foldl (readTarLine dir) t es) x = tree_node t x"
proof (induction es arbitrary: t)
  case (Cons e es)
  then show ?case
    using readTarLine_outside [of t dir e x] readTarLine_keeps_dir [of t dir e] by (simp add: plain_names_def)
qed simp

section \<open>What is extracted\<close>

lemma resources_wf: "list_all (pred_option wf_obj) (fst (getResourcesFromFile t f))"
proof -
  have "list_all (pred_option wf_obj) (fst (decode_maps [] v))" "pred_option wf_obj (fst (decode_map (Some []) v))"
    if "json_parse s = Some v" for s v
    using json_parse_raw [OF that] by (simp_all add: decoded_maps_wf decoded_map_wf)
  then show ?thesis
    by (fastforce simp: getResourcesFromFile_def split: option.split prod.split bool.split)
qed

lemma versions_wf: "pred_option wf_strings (fst (getVersionsFromFile t dir))"
  by (auto simp: getVersionsFromFile_def wf_strings_def [of "[]"] decode_strings_wf json_parse_raw
      split: list.split option.split)

lemma metadata_wf: "pred_option wf_strings v \<Longrightarrow> wf_obj (getMetadata v)"
  by (cases v)
    (auto simp: getMetadata_def versions_json_def opt_json_def wf_obj_def jwf_def wf_strings_def msorted_map_snd
      byte_def msorted_Cons)

definition has_cluster_id :: "event_type_match \<Rightarrow> jobject option \<Rightarrow> bool" where
  "has_cluster_id m resource =
     (case resource of
        None \<Rightarrow> False
      | Some r \<Rightarrow> (case mget r (em_cluster_id_key m) of Some (JStr c) \<Rightarrow> True | _ \<Rightarrow> False))"

definition resource_envelope :: "event_type_match \<Rightarrow> string gomap option \<Rightarrow> jobject \<Rightarrow> event_envelope" where
  "resource_envelope m versions r =
     \<lparr> env_key = (case mget r (em_cluster_id_key m) of Some (JStr c) \<Rightarrow> c | _ \<Rightarrow> []),
       env_event = \<lparr> ev_name = em_event_name m, ev_payload = JObj (onprem_resource m r),
         ev_metadata = Some (getMetadata versions) \<rparr> \<rparr>"

lemma transform_takeWhile:
  "transformResourcesToEvents m versions rs =
     map (\<lambda>r. resource_envelope m versions (the r)) (takeWhile (has_cluster_id m) rs)"
  by (induction rs)
    (auto simp: has_cluster_id_def resource_envelope_def split: option.split json.split)

lemma transform_envelope:
  assumes "env \<in> set (transformResourcesToEvents m versions rs)"
  obtains r where "Some r \<in> set rs" "has_cluster_id m (Some r)" "env = resource_envelope m versions r"
proof -
  obtain x where x: "x \<in> set (takeWhile (has_cluster_id m) rs)" "env = resource_envelope m versions (the x)"
    using assms by (auto simp: transform_takeWhile)
  then have h: "has_cluster_id m x" "x \<in> set rs" by (auto dest: set_takeWhileD)
  then obtain r where "x = Some r" by (cases x) (auto simp: has_cluster_id_def)
  with x h show thesis using that by auto
qed

lemma onprem_resource_wf: "wf_obj r \<Longrightarrow> wf_obj (onprem_resource m r)"
  by (auto simp: onprem_resource_def jwf_def byte_def intro!: wf_obj_mdel wf_obj_mput)

lemma onprem_resource_get:
  "wf_obj r \<Longrightarrow> k \<noteq> ''onprem'' \<Longrightarrow> k \<noteq> ''hosts'' \<Longrightarrow> mget (onprem_resource m r) k = mget r k"
  by (simp add: onprem_resource_def wf_obj_def jwf_def gomap_simps)

text \<open>An envelope as it is extracted: the event is well-formed and names its cluster.\<close>

definition envelope_ok :: "event_envelope \<Rightarrow> bool" where
  "envelope_ok env =
     (\<exists>m\<in>set event_type_matches. \<exists>p meta. ev_name (env_event env) = em_event_name m \<and>
        ev_payload (env_event env) = JObj p \<and> wf_obj p \<and> mget p (em_cluster_id_key m) = Some (JStr (env_key env)) \<and>
        ev_metadata (env_event env) = Some meta \<and> wf_obj meta \<and>
        (em_event_name m = ''ClusterState'' \<longrightarrow> mget p ''onprem'' = Some (JBool True) \<and> mget p ''hosts'' = None))"

lemma extracted_envelope_ok:
  assumes "env \<in> set (extractEvents t dir)"
  shows "envelope_ok env"
proof -
  obtain m f where m: "m \<in> set event_type_matches"
    and e: "env \<in> set (transformResourcesToEvents m (fst (getVersionsFromFile t dir)) (fst (getResourcesFromFile t f)))"
    using assms by (auto simp: extractEvents_def extractEventsForEventType_def)
  obtain r where r: "Some r \<in> set (fst (getResourcesFromFile t f))" "has_cluster_id m (Some r)"
    "env = resource_envelope m (fst (getVersionsFromFile t dir)) r"
    using transform_envelope [OF e] .
  have wf: "wf_obj r" using resources_wf [of t f] r(1) by (auto simp: list_all_iff)
  have k: "em_cluster_id_key m \<noteq> ''onprem''" "em_cluster_id_key m \<noteq> ''hosts''"
    using m by (auto simp: event_type_matches_def)
  obtain c where c: "mget r (em_cluster_id_key m) = Some (JStr c)"
    using r(2) by (auto simp: has_cluster_id_def split: option.splits json.splits)
  have "mget (onprem_resource m r) ''onprem'' = Some (JBool True) \<and> mget (onprem_resource m r) ''hosts'' = None"
    if "em_event_name m = ''ClusterState''"
    using that wf by (simp add: onprem_resource_def wf_obj_def jwf_def gomap_simps)
  moreover have "mget (onprem_resource m r) (em_cluster_id_key m) = Some (JStr c)"
    using onprem_resource_get [OF wf k, of m] c by simp
  ultimately show ?thesis
    using m onprem_resource_wf [OF wf] metadata_wf [OF versions_wf] c
    unfolding envelope_ok_def by (intro bexI [OF _ m]) (simp add: r(3) resource_envelope_def)
qed

section \<open>Results\<close>

text \<open>
  Unpacking an archive changes nothing outside the temporary directory, as long as no
  name of an entry has a segment \<^verbatim>\<open>..\<close>.
\<close>

lemma untarFile_contained:
  assumes "dir_exists t tmpdir" "plain_names (archive_entries tar t filename)" "\<not> below tmpdir x"
  shows "tree_node (untarFile tar filename t tmpdir) x = tree_node t x"
  unfolding untarFile_def by (rule untar_outside [OF assms])

text \<open>
  C29. When \<^verbatim>\<open>ExtractEvents\<close> returns, all files are as they were before, the temporary
  directory included, under the same condition on the names.
\<close>

theorem ExtractEvents_cleans_up:
  assumes "ExtractEvents tar cap (Some dir) t filename = (t', Extracted events)"
    "\<forall>x. take (length dir) x = dir \<longrightarrow> tree_node t x = None" "dir_exists t (butlast dir)"
    "tree_node t filename \<noteq> None" "plain_names (archive_entries tar t filename)"
  shows "tree_node t' = tree_node t"
proof
  fix x
  let ?t1 = "tree_put dir Dir_node t"
  let ?u = "untarFile tar filename ?t1 dir"
  have n: "tree_node t dir = None" using assms(2) by simp
  then have d: "dir \<noteq> []" "filename \<noteq> dir" using assms(4) by (auto simp: tree_node_def)
  have ex: "dir_exists ?t1 dir"
    unfolding dir_exists_def
  proof (intro allI impI)
    fix k assume "k \<le> length dir"
    show "tree_node ?t1 (take k dir) = Some Dir_node"
    proof (cases "k = length dir")
      case False
      then have "k \<le> length (butlast dir)" "take k dir = take k (butlast dir)"
        using \<open>k \<le> length dir\<close> by (simp_all add: take_butlast)
      then show ?thesis using assms(3) n d by (simp add: dir_exists_def)
    qed (use d in simp)
  qed
  have a: "archive_entries tar ?t1 filename = archive_entries tar t filename"
    using d by (simp add: archive_entries_def read_path_def)
  have t': "t' = remove_all dir ?u" using assms(1) by (simp add: ExtractEvents_def Let_def split: if_splits)
  show "tree_node t' x = tree_node t x"
  proof (cases "x = [] \<or> take (length dir) x = dir")
    case True
    then show ?thesis using assms(2) d by (cases "x = []") (simp_all add: t' tree_node_remove_all, simp add: tree_node_def)
  next
    case False
    then have "\<not> below dir x" "x \<noteq> dir" by (auto simp: below_def)
    then have "tree_node ?u x = tree_node ?t1 x"
      unfolding untarFile_def a by (intro untar_outside [OF ex assms(5)])
    then show ?thesis using False \<open>x \<noteq> dir\<close> d by (simp add: t' tree_node_remove_all)
  qed
qed

text \<open>
  C37. With a segment \<^verbatim>\<open>..\<close> in a name it does not hold: an archive can overwrite any file that the
  process can write, here a file in another directory of the root.
\<close>

theorem untarFile_escapes:
  assumes "tree_node t [''etc''] = Some Dir_node" "tree_node t [''etc'', ''passwd''] = Some (File_node old)"
    "tmpdir = [''tmp'', d]"
    "archive_entries tar t filename = [\<lparr> te_name = ''../../etc/passwd'', te_dir = False, te_body = new \<rparr>]"
  shows "tree_node (untarFile tar filename t tmpdir) [''etc'', ''passwd''] = Some (File_node new)"
proof -
  have "strings_Split ''../../etc/passwd'' ''/'' = [''..'', ''..'', ''etc'', ''passwd'']" by code_simp
  then have p: "join_path tmpdir ''../../etc/passwd'' = [''etc'', ''passwd'']"
    by (simp add: join_path_def assms(3))
  have "\<not> is_file t [''etc'']" using assms(1) by (simp add: is_file_def)
  then obtain t2 where t2: "mkdir_all t [''etc''] = Some t2" by (simp add: mkdir_all_def)
  have n: "tree_node t2 [''etc''] = Some Dir_node" "tree_node t2 [''etc'', ''passwd''] = Some (File_node old)"
    using mkdir_all_node [OF t2, of "[''etc'', ''passwd'']"] mkdir_all_node [OF t2, of "[''etc'']"] assms(1,2)
    by (auto simp: take_Cons')
  then obtain t3 where "open_trunc t2 [''etc'', ''passwd''] = Some t3" by (simp add: open_trunc_def)
  then show ?thesis by (simp add: untarFile_def readTarLine_def p t2 Let_def assms(4))
qed

text \<open>
  A file of resources gives an event for each resource up to the first one that has
  no identifier of its cluster, or one that is no string; the rest of the file is lost.
\<close>

lemma resources_until_first_bad:
  "transformResourcesToEvents m versions rs =
     map (\<lambda>r. resource_envelope m versions (the r)) (takeWhile (has_cluster_id m) rs)"
  by (rule transform_takeWhile)

text \<open>
  The events of an archive come in an order that suits the projection: all states of
  hosts, clusters and infra-envs before the first cluster event.
\<close>

lemma states_before_events:
  "\<exists>xs ys. extractEvents t dir = xs @ ys \<and>
     list_all (\<lambda>env. ev_name (env_event env) \<in> {''HostState'', ''ClusterState'', ''InfraEnv''}) xs \<and>
     list_all (\<lambda>env. ev_name (env_event env) = ''Event'') ys"
proof -
  let ?x = "extractEventsForEventType t dir (fst (getVersionsFromFile t dir))"
  have n: "\<forall>env\<in>set (?x m). ev_name (env_event env) = em_event_name m" for m
    by (auto simp: extractEventsForEventType_def resource_envelope_def elim!: transform_envelope)
  have "extractEvents t dir = (?x (event_type_matches ! 0) @ ?x (event_type_matches ! 1) @ ?x (event_type_matches ! 2))
      @ ?x (event_type_matches ! 3)"
    by (simp add: extractEvents_def event_type_matches_def numeral_3_eq_3 numeral_2_eq_2)
  moreover have "\<forall>env\<in>set (?x (event_type_matches ! 0) @ ?x (event_type_matches ! 1) @ ?x (event_type_matches ! 2)).
      ev_name (env_event env) \<in> {''HostState'', ''ClusterState'', ''InfraEnv''}"
    using n [of "event_type_matches ! 0"] n [of "event_type_matches ! 1"] n [of "event_type_matches ! 2"]
    by (auto simp: event_type_matches_def numeral_2_eq_2)
  moreover have "\<forall>env\<in>set (?x (event_type_matches ! 3)). ev_name (env_event env) = ''Event''"
    using n [of "event_type_matches ! 3"] by (simp add: event_type_matches_def numeral_3_eq_3)
  ultimately show ?thesis unfolding list_all_iff by blast
qed

text \<open>
  C28. Every extracted event is well-formed, has its cluster's identifier as key and in the
  payload, and a cluster state is marked \<^verbatim>\<open>onprem\<close> and has no hosts.
\<close>

theorem extracted_events_ok:
  "list_all envelope_ok (extractEvents t dir)"
  by (simp add: list_all_iff extracted_envelope_ok)

lemma length_concat_member: "x \<in> set xs \<Longrightarrow> length (g x) \<le> length (concat (map g xs))"
  by (induction xs) auto

text \<open>
  C38. \<^verbatim>\<open>ExtractEvents\<close> never returns for an archive with more hosts of clusters than the
  channel has room, since nobody reads the channel before it returns.
\<close>

theorem ExtractEvents_blocks:
  assumes "u = untarFile tar filename (tree_put dir Dir_node t) dir"
    "f \<in> set (glob_star u dir [''events'', ''hosts.json''])"
    "read_path u f = Some (jprint (JArr (map JObj rs)))"
    "list_all (\<lambda>r. wf_obj r \<and> (\<exists>c. mget r ''cluster_id'' = Some (JStr c))) rs" "cap < length rs"
  shows "ExtractEvents tar cap (Some dir) t filename = (u, Blocked)"
proof -
  let ?t = u and ?m = "event_type_matches ! 0"
  let ?v = "fst (getVersionsFromFile ?t dir)"
  have "jok (JArr (map JObj rs))" using assms(4) by (auto simp: list_all_iff wf_obj_def jwf_def)
  then have p: "json_parse (jprint (JArr (map JObj rs))) = Some (JArr (map JObj rs))" by (rule json_parse_jprint)
  have "decode_maps [] (JArr (map JObj rs)) = (map Some rs, False)"
    using assms(4) by (auto simp: decode_maps_def decode_map_id list_all_length list_ex_iff intro!: nth_equalityI)
  with p assms(3) have "fst (getResourcesFromFile ?t f) = map Some rs" by (simp add: getResourcesFromFile_def)
  moreover have "takeWhile (has_cluster_id ?m) (map Some rs) = map Some rs"
    using assms(4) by (intro takeWhile_eq_all_conv [THEN iffD2])
      (auto simp: has_cluster_id_def event_type_matches_def list_all_iff)
  ultimately have n: "length (transformResourcesToEvents ?m ?v (fst (getResourcesFromFile ?t f))) = length rs"
    by (simp only: transform_takeWhile length_map)
  have "?m \<in> set event_type_matches" "em_glob ?m = [''events'', ''hosts.json'']"
    by (simp_all add: event_type_matches_def)
  then have "length rs \<le> length (extractEventsForEventType ?t dir ?v ?m)"
    using n length_concat_member [OF assms(2), of "\<lambda>f. transformResourcesToEvents ?m ?v (fst (getResourcesFromFile ?t f))"]
    by (simp add: extractEventsForEventType_def)
  moreover have "length (extractEventsForEventType ?t dir ?v ?m) \<le> length (extractEvents ?t dir)"
    by (simp add: extractEvents_def event_type_matches_def)
  ultimately show ?thesis using assms(1,5) by (simp add: ExtractEvents_def Let_def)
qed

section \<open>The results at a concrete archive\<close>

definition sample_tree :: tree where
  "sample_tree = [([''tmp'', ''a''], File_node ''archive''), ([''tmp''], Dir_node), ([''tmp'', ''b''], File_node ''evil''),
     ([''etc''], Dir_node), ([''etc'', ''passwd''], File_node ''root'')]"

definition sample_hosts_json :: jobject where
  "sample_hosts_json = [(''cluster_id'', JStr ''c''), (''id'', JStr ''h'')]"

definition sample_entries :: "tar_entry list" where
  "sample_entries = [\<lparr> te_name = ''c/events/'', te_dir = True, te_body = [] \<rparr>,
     \<lparr> te_name = ''c/events/hosts.json'', te_dir = False, te_body = jprint (JArr (map JObj [sample_hosts_json])) \<rparr>]"

definition sample_tar :: tar_reader where
  "sample_tar b =
     (if b = ''archive'' then Some sample_entries
      else if b = ''evil'' then Some [\<lparr> te_name = ''../../etc/passwd'', te_dir = False, te_body = ''evil'' \<rparr>]
      else None)"

abbreviation sample_temp :: tree where
  "sample_temp \<equiv> tree_put [''tmp'', ''u''] Dir_node sample_tree"

lemma sample_archive: "archive_entries sample_tar sample_tree [''tmp'', ''a''] = sample_entries"
  by (simp add: archive_entries_def read_path_def sample_tree_def tree_node_def sample_tar_def)

lemma sample_archive_temp: "archive_entries sample_tar sample_temp [''tmp'', ''a''] = sample_entries"
  using sample_archive by (simp add: archive_entries_def read_path_def)

lemma sample_plain: "plain_names sample_entries"
proof -
  have "''..'' \<notin> set (strings_Split ''c/events/'' ''/'')" "''..'' \<notin> set (strings_Split ''c/events/hosts.json'' ''/'')"
    by code_simp+
  then show ?thesis by (simp add: plain_names_def sample_entries_def)
qed

theorem untarFile_escapes_witness:
  "tree_node (untarFile sample_tar [''tmp'', ''b''] sample_temp [''tmp'', ''u'']) [''etc'', ''passwd''] =
     Some (File_node ''evil'')"
  by (rule untarFile_escapes)
    (simp_all add: sample_tree_def tree_node_def archive_entries_def read_path_def sample_tar_def tree_put_def)

definition sample_file :: path where
  "sample_file = [''tmp'', ''u'', ''c'', ''events'', ''hosts.json'']"

lemma sample_join:
  "join_path [''tmp'', ''u''] ''c/events/'' = [''tmp'', ''u'', ''c'', ''events'']"
  "join_path [''tmp'', ''u''] ''c/events/hosts.json'' = sample_file"
proof -
  have "strings_Split ''c/events/'' ''/'' = [''c'', ''events'', []]"
    "strings_Split ''c/events/hosts.json'' ''/'' = [''c'', ''events'', ''hosts.json'']" by code_simp+
  then show "join_path [''tmp'', ''u''] ''c/events/'' = [''tmp'', ''u'', ''c'', ''events'']"
    "join_path [''tmp'', ''u''] ''c/events/hosts.json'' = sample_file"
    by (simp_all add: join_path_def sample_file_def)
qed

definition sample_unpacked :: tree where
  "sample_unpacked =
     [(sample_file, File_node (jprint (JArr (map JObj [sample_hosts_json])))),
      ([''tmp'', ''u'', ''c'', ''events''], Dir_node), ([''tmp'', ''u'', ''c''], Dir_node), ([''tmp'', ''u''], Dir_node),
      ([''tmp''], Dir_node), ([''tmp'', ''a''], File_node ''archive''), ([''tmp'', ''b''], File_node ''evil''),
      ([''etc''], Dir_node), ([''etc'', ''passwd''], File_node ''root'')]"

lemma sample_unpack: "untarFile sample_tar [''tmp'', ''a''] sample_temp [''tmp'', ''u''] = sample_unpacked"
  by (simp add: untarFile_def sample_archive_temp)
    (simp add: readTarLine_def sample_entries_def sample_join Let_def mkdir_all_def is_file_def
      tree_node_def tree_put_def open_trunc_def sample_tree_def sample_file_def upt_conv_Cons sample_unpacked_def
      del: jprint.simps)

lemma sample_found: "sample_file \<in> set (glob_star sample_unpacked [''tmp'', ''u''] [''events'', ''hosts.json''])"
proof -
  have "children sample_unpacked [''tmp'', ''u''] = [''c'']"
    by (simp add: sample_unpacked_def children_def sample_file_def)
  then show ?thesis by (simp add: glob_star_def sample_unpacked_def tree_node_def sample_file_def)
qed

theorem ExtractEvents_blocks_witness:
  "ExtractEvents sample_tar 0 (Some [''tmp'', ''u'']) sample_tree [''tmp'', ''a''] = (sample_unpacked, Blocked)"
proof (rule ExtractEvents_blocks [OF sample_unpack [symmetric] sample_found])
  show "read_path sample_unpacked sample_file = Some (jprint (JArr (map JObj [sample_hosts_json])))"
    by (simp add: read_path_def sample_unpacked_def tree_node_def del: jprint.simps) (simp add: sample_file_def)
  have "wf_obj sample_hosts_json" by code_simp
  then show "list_all (\<lambda>r. wf_obj r \<and> (\<exists>c. mget r ''cluster_id'' = Some (JStr c))) [sample_hosts_json]"
    by (simp add: sample_hosts_json_def)
  show "0 < length [sample_hosts_json]" by simp
qed

theorem ExtractEvents_cleans_up_witness:
  "\<exists>cap t' events. ExtractEvents sample_tar cap (Some [''tmp'', ''u'']) sample_tree [''tmp'', ''a''] =
     (t', Extracted events) \<and> tree_node t' = tree_node sample_tree"
proof -
  let ?dir = "[''tmp'', ''u'']"
  let ?events = "extractEvents sample_unpacked ?dir"
  have e: "ExtractEvents sample_tar (length ?events) (Some ?dir) sample_tree [''tmp'', ''a''] =
      (remove_all ?dir sample_unpacked, Extracted ?events)"
    by (simp add: ExtractEvents_def sample_unpack Let_def)
  have "\<forall>x. take (length ?dir) x = ?dir \<longrightarrow> tree_node sample_tree x = None"
    by (auto simp: sample_tree_def tree_node_def)
  moreover have "dir_exists sample_tree (butlast ?dir)"
    by (auto simp: dir_exists_def sample_tree_def tree_node_def take_Cons')
  moreover have "tree_node sample_tree [''tmp'', ''a''] \<noteq> None" by (simp add: sample_tree_def tree_node_def)
  ultimately show ?thesis
    using ExtractEvents_cleans_up [OF e] sample_archive sample_plain e by (metis (no_types))
qed

end
