(* ===== verification/Hydrator.thy ===== *)
theory Hydrator
  imports EventExtractor "HOL-Library.Sublist"
begin

text \<open>
  \<^verbatim>\<open>internal/onprem/hydrate.go\<close> and \<^verbatim>\<open>downloader.go\<close>: messages with the address of an
  archive are queued, downloaded, unpacked and written as events to another topic. The
  listener and its goroutines are a step relation over two bounded channels and a list
  of running goroutines; every interleaving is a sequence of steps.
\<close>

section \<open>downloader.go\<close>

text \<open>
  The path of a parsed address, None when it cannot be parsed; the body of the answer
  and whether copying it failed, None when there is no answer.
\<close>

record download_env =
  dn_url_path :: "string \<Rightarrow> string option"
  dn_http_get :: "string \<Rightarrow> (string \<times> bool) option"

definition download_filename :: "path \<Rightarrow> string \<Rightarrow> path" where
  "download_filename downloadDir url_path = join_path downloadDir (last (strings_Split url_path ''/''))"

definition DownloadFile :: "download_env \<Rightarrow> path \<Rightarrow> tree \<Rightarrow> string \<Rightarrow> tree \<times> path option" where
  "DownloadFile env downloadDir t rawFileURL =
     (case dn_url_path env rawFileURL of
        None \<Rightarrow> (t, None)
      | Some p \<Rightarrow>
          let filename = download_filename downloadDir p in
          (case dn_http_get env rawFileURL of
             None \<Rightarrow> (t, None)
           | Some (body, copy_err) \<Rightarrow>
               (case open_trunc t filename of
                  None \<Rightarrow> (t, None)
                | Some t1 \<Rightarrow> (tree_put filename (File_node body) t1, if copy_err then None else Some filename))))"

lemma split_char_none: "ch \<notin> set n \<Longrightarrow> split_from [ch] acc n = [rev acc @ n]"
  by (induction n arbitrary: acc) (auto simp: split_from.simps [of "[ch]" _ "_ # _"])

lemma last_split_char: "ch \<notin> set n \<Longrightarrow> last (split_from [ch] acc (p @ ch # n)) = n"
proof (induction p arbitrary: acc)
  case Nil
  then show ?case by (simp add: split_from.simps [of "[ch]" _ "_ # _"] split_char_none)
next
  case (Cons x p)
  have "split_from [ch] a s \<noteq> []" for a s by (subst split_from.simps) simp
  then show ?case
    using Cons.IH [of "[]"] Cons.IH [of "x # acc"] Cons.prems
    by (cases "ch = x") (auto simp: split_from.simps [of "[_]" _ "_ # _"])
qed

lemma download_filename_last:
  "CHR ''/'' \<notin> set n \<Longrightarrow> download_filename dir (p @ ''/'' @ n) = join_path dir n"
  by (simp add: download_filename_def strings_Split_def last_split_char)

section \<open>hydrate.go: one message\<close>

definition shouldProcess :: "kafka_msg \<Rightarrow> bool" where
  "shouldProcess msg = list_ex (\<lambda>(k, v). k = ''service'' \<and> v = ''assisted-installer'') (km_headers msg)"

record onprem_payload =
  op_url :: string
  op_request_id :: string

definition payload_fields :: "string list" where
  "payload_fields = [''url'', ''request_id'']"

definition decode_onprem_payload :: "json \<Rightarrow> onprem_payload \<times> bool" where
  "decode_onprem_payload t =
     (case t of
        JNull \<Rightarrow> (\<lparr> op_url = [], op_request_id = [] \<rparr>, False)
      | JObj kvs \<Rightarrow>
          (let u = decode_field decode_string [] (field_members payload_fields ''url'' kvs);
               r = decode_field decode_string [] (field_members payload_fields ''request_id'' kvs)
           in (\<lparr> op_url = fst u, op_request_id = fst r \<rparr>, snd u \<or> snd r))
      | _ \<Rightarrow> (\<lparr> op_url = [], op_request_id = [] \<rparr>, True))"

text \<open>\<^verbatim>\<open>ProcessMessage\<close> always returns nil; what it sends, if anything.\<close>

datatype onprem_action = Send_ack | Give_up | Send_download string

definition OnPrem_ProcessMessage :: "kafka_msg \<Rightarrow> onprem_action" where
  "OnPrem_ProcessMessage msg =
     (if \<not> shouldProcess msg then Send_ack
      else case json_parse (km_value msg) of
        None \<Rightarrow> Give_up
      | Some t \<Rightarrow>
          (case decode_onprem_payload t of
             (payload, True) \<Rightarrow> Give_up
           | (payload, False) \<Rightarrow> Send_download (op_url payload)))"

section \<open>hydrate.go: the listener and its goroutines\<close>

text \<open>
  A goroutine: it downloads, waits to send the file name, extracts, has events left to
  write, or hangs in \<^verbatim>\<open>ExtractEvents\<close>.
\<close>

datatype goroutine =
    Downloading string kafka_msg
  | Sending_file path kafka_msg
  | Extracting path kafka_msg
  | Notifying "event_envelope list" kafka_msg
  | Hanging kafka_msg

fun goroutine_msg :: "goroutine \<Rightarrow> kafka_msg" where
  "goroutine_msg (Downloading u m) = m"
| "goroutine_msg (Sending_file f m) = m"
| "goroutine_msg (Extracting f m) = m"
| "goroutine_msg (Notifying es m) = m"
| "goroutine_msg (Hanging m) = m"

text \<open>
  \<open>hy_taken\<close>, \<open>hy_extracted\<close>, \<open>hy_sent\<close> and \<open>hy_dropped\<close> record the messages taken, for which
  message \<^verbatim>\<open>ExtractEvents\<close> was called on which file and what it returned, the events handed to the
  writer, and the messages nothing is done for any more.
\<close>

record hydrator =
  hy_tree :: tree
  hy_download_channel :: "(string \<times> kafka_msg) list"
  hy_untar_channel :: "(path \<times> kafka_msg) list"
  hy_goroutines :: "goroutine list"
  hy_listening :: bool
  hy_done :: bool
  hy_acks :: "kafka_msg list"
  hy_taken :: "kafka_msg list"
  hy_extracted :: "(kafka_msg \<times> path \<times> event_envelope list) list"
  hy_sent :: "(kafka_msg \<times> event_envelope) list"
  hy_dropped :: "kafka_msg list"

record hydrator_config =
  hc_env :: download_env
  hc_tar :: tar_reader
  hc_download_dir :: path
  hc_download_size :: nat
  hc_untar_size :: nat
  hc_event_size :: nat

definition hydrator_start :: "tree \<Rightarrow> hydrator" where
  "hydrator_start t = \<lparr> hy_tree = t, hy_download_channel = [], hy_untar_channel = [], hy_goroutines = [],
     hy_listening = True, hy_done = False, hy_acks = [], hy_taken = [], hy_extracted = [], hy_sent = [],
     hy_dropped = [] \<rparr>"

text \<open>The directory \<^verbatim>\<open>os.MkdirTemp\<close> makes is a new one.\<close>

definition new_dir :: "tree \<Rightarrow> path option \<Rightarrow> bool" where
  "new_dir t tmp = (case tmp of None \<Rightarrow> True | Some dir \<Rightarrow> tree_node t dir = None)"

text \<open>
  A send waits until there is room in its channel, or, when nothing is queued, until the
  listener takes the value from its hand, which is the only way when the channel has no room at
  all (rules \<open>take_url_handed\<close> and \<open>send_file_handed\<close>); the channel \<open>done\<close> has room for one.
  \<^verbatim>\<open>Close\<close> removes the directory of the downloads, whatever is still running. After its
  \<open>take\<close> rules a message is with the hydrator, which the reader called.
\<close>

inductive hydrator_step :: "hydrator_config \<Rightarrow> hydrator \<Rightarrow> hydrator \<Rightarrow> bool" for c :: hydrator_config where
  take_other: "OnPrem_ProcessMessage msg = Send_ack \<Longrightarrow>
    hydrator_step c s (s \<lparr> hy_taken := hy_taken s @ [msg], hy_acks := hy_acks s @ [msg] \<rparr>)"
| take_bad: "OnPrem_ProcessMessage msg = Give_up \<Longrightarrow>
    hydrator_step c s (s \<lparr> hy_taken := hy_taken s @ [msg], hy_dropped := hy_dropped s @ [msg] \<rparr>)"
| take_url: "OnPrem_ProcessMessage msg = Send_download url \<Longrightarrow>
    length (hy_download_channel s) < hc_download_size c \<Longrightarrow>
    hydrator_step c s (s \<lparr> hy_taken := hy_taken s @ [msg],
      hy_download_channel := hy_download_channel s @ [(url, msg)] \<rparr>)"
| take_url_handed: "OnPrem_ProcessMessage msg = Send_download url \<Longrightarrow>
    hy_listening s \<Longrightarrow> hy_download_channel s = [] \<Longrightarrow>
    hydrator_step c s (s \<lparr> hy_taken := hy_taken s @ [msg], hy_goroutines := hy_goroutines s @ [Downloading url msg] \<rparr>)"
| listen_download: "hy_listening s \<Longrightarrow> hy_download_channel s = (url, msg) # q \<Longrightarrow>
    hydrator_step c s (s \<lparr> hy_download_channel := q,
      hy_goroutines := hy_goroutines s @ [Downloading url msg] \<rparr>)"
| listen_untar: "hy_listening s \<Longrightarrow> hy_untar_channel s = (file, msg) # q \<Longrightarrow>
    hydrator_step c s (s \<lparr> hy_untar_channel := q,
      hy_goroutines := hy_goroutines s @ [Extracting file msg] \<rparr>)"
| listen_done: "hy_listening s \<Longrightarrow> hy_done s \<Longrightarrow>
    hydrator_step c s (s \<lparr> hy_listening := False, hy_done := False \<rparr>)"
| close: "\<not> hy_done s \<Longrightarrow>
    hydrator_step c s (s \<lparr> hy_done := True, hy_tree := remove_all (hc_download_dir c) (hy_tree s) \<rparr>)"
| download_ok: "hy_goroutines s = xs @ Downloading url msg # ys \<Longrightarrow>
    DownloadFile (hc_env c) (hc_download_dir c) (hy_tree s) url = (t, Some file) \<Longrightarrow>
    hydrator_step c s (s \<lparr> hy_tree := t, hy_goroutines := xs @ Sending_file file msg # ys \<rparr>)"
| download_failed: "hy_goroutines s = xs @ Downloading url msg # ys \<Longrightarrow>
    DownloadFile (hc_env c) (hc_download_dir c) (hy_tree s) url = (t, None) \<Longrightarrow>
    hydrator_step c s (s \<lparr> hy_tree := t, hy_goroutines := xs @ ys, hy_dropped := hy_dropped s @ [msg] \<rparr>)"
| send_file: "hy_goroutines s = xs @ Sending_file file msg # ys \<Longrightarrow>
    length (hy_untar_channel s) < hc_untar_size c \<Longrightarrow>
    hydrator_step c s (s \<lparr> hy_untar_channel := hy_untar_channel s @ [(file, msg)], hy_goroutines := xs @ ys \<rparr>)"
| send_file_handed: "hy_goroutines s = xs @ Sending_file file msg # ys \<Longrightarrow>
    hy_listening s \<Longrightarrow> hy_untar_channel s = [] \<Longrightarrow>
    hydrator_step c s (s \<lparr> hy_goroutines := xs @ ys @ [Extracting file msg] \<rparr>)"
| extract_ok: "hy_goroutines s = xs @ Extracting file msg # ys \<Longrightarrow>
    new_dir (hy_tree s) tmp \<Longrightarrow>
    ExtractEvents (hc_tar c) (hc_event_size c) tmp (hy_tree s) file = (t, Extracted events) \<Longrightarrow>
    hydrator_step c s (s \<lparr> hy_tree := t, hy_goroutines := xs @ Notifying events msg # ys,
      hy_extracted := hy_extracted s @ [(msg, file, events)] \<rparr>)"
| extract_failed: "hy_goroutines s = xs @ Extracting file msg # ys \<Longrightarrow>
    new_dir (hy_tree s) tmp \<Longrightarrow>
    ExtractEvents (hc_tar c) (hc_event_size c) tmp (hy_tree s) file = (t, Extract_failed) \<Longrightarrow>
    hydrator_step c s (s \<lparr> hy_tree := t, hy_goroutines := xs @ ys, hy_dropped := hy_dropped s @ [msg] \<rparr>)"
| extract_blocked: "hy_goroutines s = xs @ Extracting file msg # ys \<Longrightarrow>
    new_dir (hy_tree s) tmp \<Longrightarrow>
    ExtractEvents (hc_tar c) (hc_event_size c) tmp (hy_tree s) file = (t, Blocked) \<Longrightarrow>
    hydrator_step c s (s \<lparr> hy_tree := t, hy_goroutines := xs @ Hanging msg # ys \<rparr>)"
| notify: "hy_goroutines s = xs @ Notifying (e # es) msg # ys \<Longrightarrow>
    hydrator_step c s (s \<lparr> hy_sent := hy_sent s @ [(msg, e)], hy_goroutines := xs @ Notifying es msg # ys \<rparr>)"
| ack: "hy_goroutines s = xs @ Notifying [] msg # ys \<Longrightarrow>
    hydrator_step c s (s \<lparr> hy_acks := hy_acks s @ [msg], hy_goroutines := xs @ ys \<rparr>)"

inductive hydrator_reachable :: "hydrator_config \<Rightarrow> tree \<Rightarrow> hydrator \<Rightarrow> bool" for c t where
  start: "hydrator_reachable c t (hydrator_start t)"
| step: "hydrator_reachable c t s \<Longrightarrow> hydrator_step c s s' \<Longrightarrow> hydrator_reachable c t s'"

text \<open>
  Whose step it is: the reader's, which hands over a message, that of the signal handler,
  which closes the hydrator, or one of its own.
\<close>

definition takes :: "hydrator_config \<Rightarrow> kafka_msg \<Rightarrow> hydrator \<Rightarrow> hydrator \<Rightarrow> bool" where
  "takes c msg h h' = (hydrator_step c h h' \<and> hy_taken h' = hy_taken h @ [msg])"

definition closes :: "hydrator_config \<Rightarrow> hydrator \<Rightarrow> hydrator \<Rightarrow> bool" where
  "closes c h h' = (hydrator_step c h h' \<and> \<not> hy_done h \<and> hy_done h')"

definition works :: "hydrator_config \<Rightarrow> hydrator \<Rightarrow> hydrator \<Rightarrow> bool" where
  "works c h h' = (hydrator_step c h h' \<and> hy_taken h' = hy_taken h \<and> (hy_done h' \<longrightarrow> hy_done h))"

lemma step_kinds:
  assumes "hydrator_step c h h'"
  shows "(\<exists>msg. takes c msg h h') \<or> closes c h h' \<or> works c h h'"
proof -
  have "(\<exists>msg. hy_taken h' = hy_taken h @ [msg]) \<or> \<not> hy_done h \<and> hy_done h' \<or>
      hy_taken h' = hy_taken h \<and> (hy_done h' \<longrightarrow> hy_done h)"
    using assms by cases simp_all
  with assms show ?thesis by (auto simp: takes_def closes_def works_def)
qed

lemma works_reachable: "(works c)\<^sup>*\<^sup>* s s' \<Longrightarrow> hydrator_reachable c t s \<Longrightarrow> hydrator_reachable c t s'"
  by (induction rule: rtranclp_induct) (auto simp: works_def intro: hydrator_reachable.step)

section \<open>Invariants\<close>

text \<open>The messages that are somewhere between the topic and their acknowledgement.\<close>

definition in_flight :: "hydrator \<Rightarrow> kafka_msg list" where
  "in_flight s = map snd (hy_download_channel s) @ map snd (hy_untar_channel s) @ map goroutine_msg (hy_goroutines s)"

definition accounted :: "hydrator \<Rightarrow> bool" where
  "accounted s = (mset (hy_taken s) = mset (hy_acks s) + mset (hy_dropped s) + mset (in_flight s))"

lemma step_accounted: "hydrator_step c s s' \<Longrightarrow> accounted s \<Longrightarrow> accounted s'"
  by (induction rule: hydrator_step.induct) (simp_all add: accounted_def in_flight_def)

lemma reachable_accounted: "hydrator_reachable c t s \<Longrightarrow> accounted s"
  by (induction rule: hydrator_reachable.induct)
    (simp_all add: step_accounted, simp add: accounted_def in_flight_def hydrator_start_def)

text \<open>The channels keep to their sizes.\<close>

definition channels_bounded :: "hydrator_config \<Rightarrow> hydrator \<Rightarrow> bool" where
  "channels_bounded c s =
     (length (hy_download_channel s) \<le> hc_download_size c \<and> length (hy_untar_channel s) \<le> hc_untar_size c)"

lemma step_bounded: "hydrator_step c s s' \<Longrightarrow> channels_bounded c s \<Longrightarrow> channels_bounded c s'"
  by (induction rule: hydrator_step.induct) (simp_all add: channels_bounded_def)

text \<open>The address in a message and the file its archive is downloaded to go with it.\<close>

definition message_file :: "hydrator_config \<Rightarrow> kafka_msg \<Rightarrow> path option" where
  "message_file c msg =
     (case OnPrem_ProcessMessage msg of
        Send_download url \<Rightarrow> map_option (download_filename (hc_download_dir c)) (dn_url_path (hc_env c) url)
      | _ \<Rightarrow> None)"

fun goroutine_ok :: "hydrator_config \<Rightarrow> goroutine \<Rightarrow> bool" where
  "goroutine_ok c (Downloading url msg) = (OnPrem_ProcessMessage msg = Send_download url)"
| "goroutine_ok c (Sending_file f msg) = (message_file c msg = Some f)"
| "goroutine_ok c (Extracting f msg) = (message_file c msg = Some f)"
| "goroutine_ok c g = True"

definition files_inv :: "hydrator_config \<Rightarrow> hydrator \<Rightarrow> bool" where
  "files_inv c s =
     (list_all (\<lambda>(url, msg). OnPrem_ProcessMessage msg = Send_download url) (hy_download_channel s) \<and>
      list_all (\<lambda>(f, msg). message_file c msg = Some f) (hy_untar_channel s) \<and>
      list_all (goroutine_ok c) (hy_goroutines s))"

lemma DownloadFile_name:
  "DownloadFile env dir t url = (t', Some f) \<Longrightarrow> map_option (download_filename dir) (dn_url_path env url) = Some f"
  by (auto simp: DownloadFile_def Let_def split: option.splits if_splits)

lemma step_files: "hydrator_step c s s' \<Longrightarrow> files_inv c s \<Longrightarrow> files_inv c s'"
proof (induction rule: hydrator_step.induct)
  case (download_ok s xs url msg ys t fl)
  then show ?case using DownloadFile_name [OF download_ok(2)] by (simp add: files_inv_def message_file_def)
qed (simp_all add: files_inv_def)

lemma reachable_files: "hydrator_reachable c t s \<Longrightarrow> files_inv c s"
  by (induction rule: hydrator_reachable.induct)
    (simp_all add: step_files, simp add: files_inv_def hydrator_start_def)

text \<open>
  The file its archive is downloaded to was extracted for a message, and all that this gave but
  the events \<open>es\<close> was written for it since, in the same order.
\<close>

definition all_sent :: "hydrator_config \<Rightarrow> hydrator \<Rightarrow> kafka_msg \<Rightarrow> event_envelope list \<Rightarrow> bool" where
  "all_sent c s msg es =
     (\<exists>f pre. message_file c msg = Some f \<and> (msg, f, pre @ es) \<in> set (hy_extracted s) \<and>
        subseq (map (Pair msg) pre) (hy_sent s))"

definition sent_inv :: "hydrator_config \<Rightarrow> hydrator \<Rightarrow> bool" where
  "sent_inv c s =
     ((\<forall>es msg. Notifying es msg \<in> set (hy_goroutines s) \<longrightarrow> all_sent c s msg es) \<and>
      (\<forall>msg\<in>set (hy_acks s). shouldProcess msg \<longrightarrow> all_sent c s msg []))"

lemma subseq_more: "subseq xs ys \<Longrightarrow> subseq xs (ys @ zs)"
  by (metis list_emb_append2 list_emb_Nil append_Nil2 list_emb_append_mono)

lemma all_sent_mono:
  "all_sent c s msg es \<Longrightarrow> set (hy_extracted s) \<subseteq> set (hy_extracted s') \<Longrightarrow> \<exists>zs. hy_sent s' = hy_sent s @ zs \<Longrightarrow>
     all_sent c s' msg es"
  unfolding all_sent_def by (elim exE conjE) (auto intro!: exI subseq_more)

lemma all_sent_next:
  assumes "all_sent c s msg (e # es)" "hy_extracted s' = hy_extracted s" "hy_sent s' = hy_sent s @ [(msg, e)]"
  shows "all_sent c s' msg es"
proof -
  obtain f pre where pre: "message_file c msg = Some f" "(msg, f, pre @ e # es) \<in> set (hy_extracted s)"
    "subseq (map (Pair msg) pre) (hy_sent s)"
    using assms(1) by (auto simp: all_sent_def)
  have "subseq (map (Pair msg) pre @ [(msg, e)]) (hy_sent s @ [(msg, e)])"
    using pre(3) by (simp add: list_emb_append_mono)
  with pre(1,2) assms(2,3) show ?thesis unfolding all_sent_def by (intro exI [of _ f] exI [of _ "pre @ [e]"]) simp
qed

lemma Send_ack_other: "OnPrem_ProcessMessage msg = Send_ack \<longleftrightarrow> \<not> shouldProcess msg"
  by (simp add: OnPrem_ProcessMessage_def split: option.split prod.split bool.split)

lemma step_sent: "hydrator_step c s s' \<Longrightarrow> files_inv c s \<Longrightarrow> sent_inv c s \<Longrightarrow> sent_inv c s'"
proof (induction rule: hydrator_step.induct)
  case (take_other msg s)
  then show ?case by (auto simp: sent_inv_def Send_ack_other all_sent_def)
next
  case (extract_ok s xs fl msg ys tmp t events)
  let ?s = "s \<lparr> hy_tree := t, hy_goroutines := xs @ Notifying events msg # ys,
    hy_extracted := hy_extracted s @ [(msg, fl, events)] \<rparr>"
  have "message_file c msg = Some fl" using extract_ok(1,4) by (simp add: files_inv_def)
  then have "all_sent c ?s msg events" unfolding all_sent_def by (intro exI [of _ fl] exI [of _ "[]"]) simp
  moreover have "all_sent c ?s m es" if "all_sent c s m es" for m es by (rule all_sent_mono [OF that]) auto
  ultimately show ?case using extract_ok(1,5) by (auto simp: sent_inv_def)
next
  case (notify s xs e es msg ys)
  let ?s = "s \<lparr> hy_sent := hy_sent s @ [(msg, e)], hy_goroutines := xs @ Notifying es msg # ys \<rparr>"
  have "all_sent c ?s m fs" if "all_sent c s m fs" for m fs by (rule all_sent_mono [OF that]) auto
  moreover have "all_sent c ?s msg es" by (rule all_sent_next [of c s]) (use notify in \<open>auto simp: sent_inv_def\<close>)
  ultimately show ?case using notify by (auto simp: sent_inv_def)
next
  case (ack s xs msg ys)
  then show ?case by (auto simp: sent_inv_def all_sent_def)
qed (auto simp: sent_inv_def all_sent_def)

lemma reachable_sent: "hydrator_reachable c t s \<Longrightarrow> sent_inv c s"
proof (induction rule: hydrator_reachable.induct)
  case (step s s')
  then show ?case using step_sent reachable_files by blast
qed (simp add: sent_inv_def hydrator_start_def)

lemma reachable_bounded: "hydrator_reachable c t s \<Longrightarrow> channels_bounded c s"
  by (induction rule: hydrator_reachable.induct)
    (simp_all add: step_bounded, simp add: channels_bounded_def hydrator_start_def)

section \<open>Results\<close>

text \<open>
  A message with an archive is acknowledged only after the file its archive is downloaded to
  was extracted for it, and every event that this gave was handed to the writer for it.
\<close>

lemma hydrator_ack_after_events:
  assumes "hydrator_reachable c t s" "msg \<in> set (hy_acks s)" "shouldProcess msg"
  shows "\<exists>f events. message_file c msg = Some f \<and> (msg, f, events) \<in> set (hy_extracted s) \<and>
    subseq (map (Pair msg) events) (hy_sent s)"
  using reachable_sent [OF assms(1)] assms(2,3) by (auto simp: sent_inv_def all_sent_def)

text \<open>The channels never hold more than they have room for.\<close>

lemma hydrator_channels_bounded:
  assumes "hydrator_reachable c t s"
  shows "length (hy_download_channel s) \<le> hc_download_size c \<and> length (hy_untar_channel s) \<le> hc_untar_size c"
  using reachable_bounded [OF assms] by (simp add: channels_bounded_def)

text \<open>They can be full: nothing forces the listener to take a message from its channel.\<close>

lemma download_channel_fills:
  assumes "OnPrem_ProcessMessage msg = Send_download url"
  shows "\<exists>s. hydrator_reachable c t s \<and> length (hy_download_channel s) = hc_download_size c"
proof -
  have "\<exists>s. hydrator_reachable c t s \<and> length (hy_download_channel s) = n" if "n \<le> hc_download_size c" for n
    using that
  proof (induction n)
    case 0
    have "hy_download_channel (hydrator_start t) = []" by (simp add: hydrator_start_def)
    then show ?case by (intro exI [of _ "hydrator_start t"]) (simp add: hydrator_reachable.start)
  next
    case (Suc n)
    then obtain s where s: "hydrator_reachable c t s" "length (hy_download_channel s) = n" by auto
    have "hydrator_step c s (s \<lparr> hy_taken := hy_taken s @ [msg],
        hy_download_channel := hy_download_channel s @ [(url, msg)] \<rparr>)"
      by (rule take_url [OF assms]) (use s(2) Suc.prems in simp)
    from hydrator_reachable.step [OF s(1) this] s(2) show ?case by fastforce
  qed
  then show ?thesis by simp
qed

text \<open>
  A message that cannot be decoded, or whose archive cannot be downloaded, is given up
  without acknowledgement: after any further steps it is not among the acknowledged
  messages, unless the same message was taken more than once.
\<close>

lemma hydrator_dropped_not_acked:
  assumes "hydrator_reachable c t s" "msg \<in> set (hy_dropped s)" "count (mset (hy_taken s)) msg \<le> 1"
  shows "msg \<notin> set (hy_acks s)"
proof
  assume "msg \<in> set (hy_acks s)"
  then have "1 \<le> count (mset (hy_acks s)) msg" "1 \<le> count (mset (hy_dropped s)) msg"
    using assms(2) by (simp_all add: Suc_le_eq count_greater_zero_iff)
  moreover have "count (mset (hy_taken s)) msg = count (mset (hy_acks s)) msg + count (mset (hy_dropped s)) msg
      + count (mset (in_flight s)) msg"
    using reachable_accounted [OF assms(1)] by (simp add: accounted_def)
  ultimately show False using assms(3) by linarith
qed

text \<open>
  The file of a download depends only on the last segment of the address' path: two
  addresses with the same last segment share the file, and the second download replaces
  what the first one wrote.
\<close>

lemma downloads_collide:
  assumes "dn_url_path env u1 = Some (p1 @ ''/'' @ n)" "dn_url_path env u2 = Some (p2 @ ''/'' @ n)"
    "CHR ''/'' \<notin> set n" "dn_http_get env u2 = Some (body2, False)"
    "DownloadFile env dir t u1 = (t1, Some f)" "tree_node t1 (butlast f) = Some Dir_node"
  shows "\<exists>t2. DownloadFile env dir t1 u2 = (t2, Some f) \<and> read_path t2 f = Some body2"
proof -
  let ?f = "join_path dir n"
  have f: "download_filename dir (p1 @ ''/'' @ n) = ?f" "download_filename dir (p2 @ ''/'' @ n) = ?f"
    by (simp_all add: download_filename_last [OF assms(3), simplified])
  obtain body1 e t0 where g: "f = ?f" "open_trunc t ?f = Some t0" "t1 = tree_put ?f (File_node body1) t0"
    using assms(1,5) f(1) by (auto simp: DownloadFile_def Let_def split: option.splits prod.splits if_splits)
  then have ne: "?f \<noteq> []" by (auto simp: open_trunc_def split: if_splits)
  then have "tree_node t1 ?f = Some (File_node body1)" using g(3) by simp
  then obtain t2 where t2: "open_trunc t1 ?f = Some t2"
    using ne assms(6) g(1) by (auto simp: open_trunc_def)
  then have "DownloadFile env dir t1 u2 = (tree_put ?f (File_node body2) t2, Some ?f)"
    using assms(2,4) f(2) by (simp add: DownloadFile_def Let_def)
  then show ?thesis using g(1) ne by (auto simp: read_path_def)
qed

section \<open>The results at a concrete run\<close>

definition sample_config :: hydrator_config where
  "sample_config = \<lparr> hc_env = \<lparr> dn_url_path = Some, dn_http_get = (\<lambda>u. if u = ''/bad'' then None else Some (u, False)) \<rparr>,
     hc_tar = (\<lambda>b. None), hc_download_dir = [''tmp''], hc_download_size = 1, hc_untar_size = 1, hc_event_size = 1 \<rparr>"

definition other_msg :: kafka_msg where
  "other_msg = \<lparr> km_key = [], km_value = [], km_headers = [], km_offset = 0 \<rparr>"

definition archive_msg :: "string \<Rightarrow> kafka_msg" where
  "archive_msg u = \<lparr> km_key = [], km_value = jprint (JObj [(''url'', JStr u)]),
     km_headers = [(''service'', ''assisted-installer'')], km_offset = 1 \<rparr>"

lemma archive_msg_action: "valid_utf8 u \<Longrightarrow> OnPrem_ProcessMessage (archive_msg u) = Send_download u"
  using json_parse_jprint [of "JObj [(''url'', JStr u)]"]
  by (simp add: OnPrem_ProcessMessage_def archive_msg_def shouldProcess_def decode_onprem_payload_def
      field_members_def field_of_def payload_fields_def decode_field_def decode_string_def byte_def
      del: jprint.simps)

lemma other_msg_action: "OnPrem_ProcessMessage other_msg = Send_ack"
  by (simp add: OnPrem_ProcessMessage_def other_msg_def shouldProcess_def)

end
