(* ===== verification/EventRepository.thy ===== *)
theory EventRepository
  imports Stream
begin

text \<open>
  \<^verbatim>\<open>internal/repository/opensearch\<close>: \<^verbatim>\<open>EnrichedEventRepository\<close>, which hands enriched events
  to the bulk indexer and acknowledges their messages when they are indexed, and
  \<^verbatim>\<open>ProjectionConfigRepository\<close>. The bulk indexer and the client of opensearch-go are
  parameters; \<^verbatim>\<open>time.Parse\<close> is modelled as far as the name of the index needs it.
\<close>

section \<open>time.Parse(time.RFC3339, s)\<close>

text \<open>\<^verbatim>\<open>getnum\<close> of package \<^verbatim>\<open>time\<close>: two digits, or one unless the field is fixed.\<close>

fun getnum :: "bool \<Rightarrow> string \<Rightarrow> (nat \<times> string) option" where
  "getnum fixed [] = None"
| "getnum fixed (c # s) =
     (if \<not> is_digit c then None
      else if s \<noteq> [] \<and> is_digit (hd s) then Some (10 * char_digit c + char_digit (hd s), tl s)
      else if fixed then None
      else Some (char_digit c, s))"

definition getnum_upto :: "bool \<Rightarrow> nat \<Rightarrow> nat \<Rightarrow> string \<Rightarrow> (nat \<times> string) option" where
  "getnum_upto fixed lo hi s =
     (case getnum fixed s of
        None \<Rightarrow> None
      | Some (n, r) \<Rightarrow> if lo \<le> n \<and> n \<le> hi then Some (n, r) else None)"

definition skip_char :: "char \<Rightarrow> string \<Rightarrow> string option" where
  "skip_char c s = (if starts_with [c] s then Some (tl s) else None)"

definition get_year :: "string \<Rightarrow> (nat \<times> string) option" where
  "get_year s =
     (if 4 \<le> length s \<and> list_all is_digit (take 4 s) then Some (text_nat (take 4 s), drop 4 s) else None)"

text \<open>A fraction of a second may follow the seconds, after a point or a comma.\<close>

definition skip_fraction :: "string \<Rightarrow> string" where
  "skip_fraction s =
     (if 2 \<le> length s \<and> (hd s = CHR ''.'' \<or> hd s = CHR '','') \<and> is_digit (s ! 1)
      then dropWhile is_digit (tl s) else s)"

text \<open>\<^verbatim>\<open>Z\<close> or an offset with sign; the package puts no bound on the numbers of the offset.\<close>

definition get_zone :: "string \<Rightarrow> string option" where
  "get_zone s =
     (if starts_with ''Z'' s then Some (tl s)
      else if length s < 6 \<or> s ! 3 \<noteq> CHR '':'' then None
      else if hd s \<noteq> CHR ''+'' \<and> hd s \<noteq> CHR ''-'' then None
      else if list_all is_digit [s ! 1, s ! 2, s ! 4, s ! 5] then Some (drop 6 s) else None)"

definition leap_year :: "nat \<Rightarrow> bool" where
  "leap_year y = (y mod 4 = 0 \<and> (y mod 100 \<noteq> 0 \<or> y mod 400 = 0))"

definition days_in :: "nat \<Rightarrow> nat \<Rightarrow> nat" where
  "days_in y m = (if m = 2 then (if leap_year y then 29 else 28) else if m \<in> {4, 6, 9, 11} then 30 else 31)"

text \<open>
  The year and the month of the result in its own offset, which are those of the text;
  None for an error.
\<close>

definition parse_rfc3339 :: "string \<Rightarrow> (nat \<times> nat) option" where
  "parse_rfc3339 s =
     Option.bind (get_year s) (\<lambda>(year, s).
     Option.bind (skip_char CHR ''-'' s) (\<lambda>s.
     Option.bind (getnum_upto True 1 12 s) (\<lambda>(month, s).
     Option.bind (skip_char CHR ''-'' s) (\<lambda>s.
     Option.bind (getnum True s) (\<lambda>(day, s).
     Option.bind (skip_char CHR ''T'' s) (\<lambda>s.
     Option.bind (getnum_upto False 0 23 s) (\<lambda>(hour, s).
     Option.bind (skip_char CHR '':'' s) (\<lambda>s.
     Option.bind (getnum_upto True 0 59 s) (\<lambda>(minute, s).
     Option.bind (skip_char CHR '':'' s) (\<lambda>s.
     Option.bind (getnum_upto True 0 59 s) (\<lambda>(sec, s).
     Option.bind (get_zone (skip_fraction s)) (\<lambda>s.
       if s = [] \<and> 1 \<le> day \<and> day \<le> days_in year month then Some (year, month) else None))))))))))))"

section \<open>enriched_event_repository.go\<close>

record bulk_item =
  bi_index :: string
  bi_document_id :: string
  bi_action :: string
  bi_body :: string
  bi_msg :: kafka_msg

text \<open>\<^verbatim>\<open>BulkIndexer.Add\<close> over a state \<open>'b\<close>; the flag is True for an error.\<close>

type_synonym 'b bulk_add = "'b \<Rightarrow> bulk_item \<Rightarrow> 'b \<times> bool"

definition two_digits :: "nat \<Rightarrow> string" where
  "two_digits n = (if n < 10 then ''0'' @ nat_text n else nat_text n)"

text \<open>The error of \<^verbatim>\<open>time.Parse\<close> is dropped, and the zero time is in January of year 1.\<close>

definition getIndexName :: "string \<Rightarrow> enriched_event \<Rightarrow> string" where
  "getIndexName indexPrefix event =
     (case (case parse_rfc3339 (ee_event_time event) of Some t \<Rightarrow> t | None \<Rightarrow> (1, 1)) of
        (year, month) \<Rightarrow>
          indexPrefix @ nat_text year @ ''-'' @ two_digits month @
          (if mget (case ee_cluster event of Some c \<Rightarrow> c | None \<Rightarrow> []) ''onprem'' \<noteq> None then ''-onprem'' else []))"

text \<open>\<^verbatim>\<open>Store\<close>: the state of the indexer afterwards and whether an error was returned.\<close>

definition Store :: "'b bulk_add \<Rightarrow> string \<Rightarrow> 'b \<Rightarrow> enriched_event \<Rightarrow> kafka_msg \<Rightarrow> 'b \<times> bool" where
  "Store add indexPrefix b enrichedEvent msg =
     (case json_Marshal (enriched_json enrichedEvent) of
        None \<Rightarrow> (b, True)
      | Some jsonEvent \<Rightarrow>
          add b \<lparr> bi_index = getIndexName indexPrefix enrichedEvent, bi_document_id = ee_id enrichedEvent,
            bi_action = ''index'', bi_body = jsonEvent, bi_msg = msg \<rparr>)"

text \<open>The two callbacks of an item, on the messages sent to the ack channel so far.\<close>

definition OnSuccess :: "bulk_item \<Rightarrow> kafka_msg list \<Rightarrow> kafka_msg list" where
  "OnSuccess item acks = acks @ [bi_msg item]"

definition OnFailure :: "bulk_item \<Rightarrow> kafka_msg list \<Rightarrow> kafka_msg list" where
  "OnFailure item acks = acks"

section \<open>projection_config_repository.go\<close>

record projection_config =
  pc_mode :: string

definition ProjectionModeOnline :: string where
  "ProjectionModeOnline = ''online''"

definition ProjectionModeOffline :: string where
  "ProjectionModeOffline = ''offline''"

text \<open>A response of the client: the status and the text of its body.\<close>

record os_response =
  os_status :: int
  os_body :: string

text \<open>\<^verbatim>\<open>json.Decoder.Decode\<close>: the first value of the body; what follows is not read.\<close>

definition decode_first :: "string \<Rightarrow> json option" where
  "decode_first s = map_option fst (parse_value (2 * length s + 1) s)"

definition decode_config :: "string \<Rightarrow> json \<Rightarrow> string \<times> bool" where
  "decode_config mode t =
     (case t of
        JNull \<Rightarrow> (mode, False)
      | JObj kvs \<Rightarrow> decode_field decode_string mode (field_members [''Mode''] ''Mode'' kvs)
      | _ \<Rightarrow> (mode, True))"

definition raw_fields :: "string list" where
  "raw_fields = [''_source'', ''_index'', ''_id'']"

text \<open>\<^verbatim>\<open>OpensearchRawConfigDocument\<close>: source, index and id.\<close>

definition decode_raw_config :: "json \<Rightarrow> (projection_config \<times> string \<times> string) \<times> bool" where
  "decode_raw_config t =
     (case t of
        JNull \<Rightarrow> ((\<lparr> pc_mode = [] \<rparr>, [], []), False)
      | JObj kvs \<Rightarrow>
          (let src = decode_field decode_config [] (field_members raw_fields ''_source'' kvs);
               ix = decode_field decode_string [] (field_members raw_fields ''_index'' kvs);
               i = decode_field decode_string [] (field_members raw_fields ''_id'' kvs)
           in ((\<lparr> pc_mode = fst src \<rparr>, fst ix, fst i), snd src \<or> snd ix \<or> snd i))
      | _ \<Rightarrow> ((\<lparr> pc_mode = [] \<rparr>, [], []), True))"

text \<open>\<open>res\<close> is what the client returned: a response unless nil, and whether an error.\<close>

definition ProjectionConfig_Get :: "os_response option \<times> bool \<Rightarrow> projection_config" where
  "ProjectionConfig_Get res =
     (let defaultConfig = \<lparr> pc_mode = ProjectionModeOnline \<rparr>
      in case res of
           (Some r, False) \<Rightarrow>
             if \<not> 299 < os_status r \<and> os_status r < 400
             then (case decode_first (os_body r) of
                     None \<Rightarrow> defaultConfig
                   | Some t \<Rightarrow>
                       (case decode_raw_config t of
                          (doc, True) \<Rightarrow> defaultConfig
                        | (doc, False) \<Rightarrow> \<lparr> pc_mode = pc_mode (fst doc) \<rparr>))
             else defaultConfig
         | _ \<Rightarrow> defaultConfig)"

section \<open>Texts of times\<close>

definition four_digits :: "nat \<Rightarrow> string" where
  "four_digits n = map digit_char [n div 1000, n div 100 mod 10, n div 10 mod 10, n mod 10]"

text \<open>An offset: \<^verbatim>\<open>Z\<close>, or a sign with hours and minutes.\<close>

datatype zone = Utc | Offset bool nat nat

fun zone_text :: "zone \<Rightarrow> string" where
  "zone_text Utc = ''Z''"
| "zone_text (Offset neg h m) = (if neg then ''-'' else ''+'') @ two_digits h @ '':'' @ two_digits m"

fun zone_ok :: "zone \<Rightarrow> bool" where
  "zone_ok Utc = True"
| "zone_ok (Offset neg h m) = (h < 24 \<and> m < 60)"

text \<open>A time with fraction \<open>ds\<close>, absent when there are no digits.\<close>

record rfc3339_time =
  t_year :: nat
  t_month :: nat
  t_day :: nat
  t_hour :: nat
  t_minute :: nat
  t_second :: nat
  t_fraction :: string
  t_zone :: zone

definition time_ok :: "rfc3339_time \<Rightarrow> bool" where
  "time_ok t = (t_year t < 10000 \<and> 1 \<le> t_month t \<and> t_month t \<le> 12 \<and>
     1 \<le> t_day t \<and> t_day t \<le> days_in (t_year t) (t_month t) \<and>
     t_hour t < 24 \<and> t_minute t < 60 \<and> t_second t < 60 \<and> list_all is_digit (t_fraction t) \<and> zone_ok (t_zone t))"

definition time_text :: "rfc3339_time \<Rightarrow> string" where
  "time_text t = four_digits (t_year t) @ ''-'' @ two_digits (t_month t) @ ''-'' @ two_digits (t_day t) @ ''T'' @
     two_digits (t_hour t) @ '':'' @ two_digits (t_minute t) @ '':'' @ two_digits (t_second t) @
     (if t_fraction t = [] then [] else ''.'' @ t_fraction t) @ zone_text (t_zone t)"

lemma two_digits_chars: "n < 100 \<Longrightarrow> two_digits n = [digit_char (n div 10), digit_char (n mod 10)]"
proof -
  assume n: "n < 100"
  have 0: "digit_char 0 = CHR ''0''" by code_simp
  show ?thesis
  proof (cases "n < 10")
    case True
    then show ?thesis by (simp add: two_digits_def nat_text_def digits.simps [of n] 0)
  next
    case False
    with n have "n div 10 < 10" by simp
    with False show ?thesis
      by (simp add: two_digits_def nat_text_def digits.simps [of n] digits.simps [of "n div 10"])
  qed
qed

lemma getnum_two: "n < 100 \<Longrightarrow> getnum fixed (two_digits n @ r) = Some (n, r)"
  by (simp add: two_digits_chars is_digit_char digit_char_digit)

lemma getnum_upto_two: "n < 100 \<Longrightarrow> lo \<le> n \<Longrightarrow> n \<le> hi \<Longrightarrow> getnum_upto fixed lo hi (two_digits n @ r) = Some (n, r)"
  by (simp add: getnum_upto_def getnum_two)

lemma skip_char_Cons [simp]: "skip_char c (c # s) = Some s"
  by (simp add: skip_char_def)

lemma text_nat_four:
  "a < 10 \<Longrightarrow> b < 10 \<Longrightarrow> c < 10 \<Longrightarrow> d < 10 \<Longrightarrow>
     text_nat (map digit_char [a, b, c, d]) = 1000 * a + 100 * b + 10 * c + d"
  by (simp add: text_nat_def digit_char_digit undigits_def)

lemma four_sum:
  "10 * a + p = y \<Longrightarrow> 10 * b + q = a \<Longrightarrow> 10 * c + r = b \<Longrightarrow> 1000 * c + 100 * r + 10 * q + p = (y :: nat)"
  by linarith

lemma get_year_four:
  assumes "y < 10000"
  shows "get_year (four_digits y @ r) = Some (y, r)"
proof -
  have d: "y div 1000 < 10" using assms by simp
  have "y div 1000 = y div 10 div 10 div 10" "y div 100 = y div 10 div 10"
    by (simp_all add: div_mult2_eq [symmetric])
  then have "1000 * (y div 1000) + 100 * (y div 100 mod 10) + 10 * (y div 10 mod 10) + y mod 10 = y"
    using four_sum [OF mult_div_mod_eq mult_div_mod_eq mult_div_mod_eq] by simp
  with d have t: "text_nat (four_digits y) = y"
    unfolding four_digits_def by (subst text_nat_four) simp_all
  have "take 4 (four_digits y @ r) = four_digits y" "drop 4 (four_digits y @ r) = r" "4 \<le> length (four_digits y @ r)"
    "list_all is_digit (four_digits y)"
    using d by (simp_all add: four_digits_def is_digit_char)
  with t show ?thesis by (simp add: get_year_def)
qed

lemma zone_head: "zone_text z \<noteq> [] \<and> \<not> is_digit (hd (zone_text z)) \<and>
    hd (zone_text z) \<noteq> CHR ''.'' \<and> hd (zone_text z) \<noteq> CHR '',''"
  by (cases z) (auto simp: is_digit_def)

lemma dropWhile_digits: "list_all is_digit ds \<Longrightarrow> u \<noteq> [] \<Longrightarrow> \<not> is_digit (hd u) \<Longrightarrow> dropWhile is_digit (ds @ u) = u"
  by (induction ds) (auto simp: neq_Nil_conv)

lemma skip_fraction_text:
  assumes "list_all is_digit ds"
  shows "skip_fraction ((if ds = [] then [] else ''.'' @ ds) @ zone_text z) = zone_text z"
proof (cases ds)
  case Nil
  then show ?thesis using zone_head [of z] by (simp add: skip_fraction_def)
next
  case (Cons d ds')
  then show ?thesis
    using assms zone_head [of z] dropWhile_digits [of ds "zone_text z"] by (simp add: skip_fraction_def)
qed

lemma get_zone_text: "zone_ok z \<Longrightarrow> get_zone (zone_text z) = Some []"
  by (cases z) (auto simp: get_zone_def two_digits_chars intro!: is_digit_char)

lemma days_in_bound: "days_in y m < 100"
  by (simp add: days_in_def)

lemma parse_time_text:
  assumes "time_ok t"
  shows "parse_rfc3339 (time_text t) = Some (t_year t, t_month t)"
proof -
  have d: "t_day t < 100" "1 \<le> t_day t" "t_day t \<le> days_in (t_year t) (t_month t)"
    and z: "list_all is_digit (t_fraction t)" "zone_ok (t_zone t)"
    using assms days_in_bound [of "t_year t" "t_month t"] by (simp_all add: time_ok_def)
  have y: "get_year (four_digits (t_year t) @ r) = Some (t_year t, r)" for r
    using assms by (simp add: time_ok_def get_year_four)
  have n: "getnum_upto True 1 12 (two_digits (t_month t) @ r) = Some (t_month t, r)"
    "getnum True (two_digits (t_day t) @ r) = Some (t_day t, r)"
    "getnum_upto False 0 23 (two_digits (t_hour t) @ r) = Some (t_hour t, r)"
    "getnum_upto True 0 59 (two_digits (t_minute t) @ r) = Some (t_minute t, r)"
    "getnum_upto True 0 59 (two_digits (t_second t) @ r) = Some (t_second t, r)" for r
    using assms d by (simp_all add: time_ok_def getnum_upto_two getnum_two)
  show ?thesis
    by (simp only: parse_rfc3339_def time_text_def y n skip_char_Cons append_Cons append_Nil
        Option.bind.simps prod.case skip_fraction_text [OF z(1), simplified append_Cons append_Nil]
        get_zone_text [OF z(2)] d simp_thms if_True)
qed

section \<open>Results\<close>

text \<open>
  C34. The index of an event: for every event time in the form of RFC 3339, with a
  fraction and an offset or without, an event goes to the index of its own year and
  month, with \<^verbatim>\<open>-onprem\<close> after it exactly when the cluster has the key \<^verbatim>\<open>onprem\<close>.
\<close>

theorem getIndexName_rfc3339:
  assumes "time_ok t" "ee_event_time e = time_text t"
  shows "getIndexName indexPrefix e =
    indexPrefix @ nat_text (t_year t) @ ''-'' @ two_digits (t_month t) @
    (if \<exists>c v. ee_cluster e = Some c \<and> mget c ''onprem'' = Some v then ''-onprem'' else [])"
  using parse_time_text [OF assms(1)] assms(2)
  by (auto simp: getIndexName_def split: option.split)

theorem getIndexName_rfc3339_witness:
  "getIndexName ''events-'' (zero_enriched \<lparr> ee_event_time := ''2024-02-29T23:59:59.123+02:00'',
     ee_cluster := Some [(''onprem'', JBool True)] \<rparr>) = ''events-2024-02-onprem''"
proof -
  define t where "t = \<lparr> t_year = 2024, t_month = 2, t_day = 29, t_hour = 23, t_minute = 59, t_second = 59,
    t_fraction = ''123'', t_zone = Offset False 2 0 \<rparr>"
  have dg: "digit_char 0 = CHR ''0''" "digit_char (Suc 0) = CHR ''1''" "digit_char 2 = CHR ''2''" "digit_char 4 = CHR ''4''"
    "digit_char 3 = CHR ''3''" "digit_char 5 = CHR ''5''" "digit_char 9 = CHR ''9''" by code_simp+
  have ok: "time_ok t" by (simp add: t_def time_ok_def days_in_def leap_year_def is_digit_def)
  have y: "nat_text 2024 = ''2024''" by (simp add: nat_text_def digits.simps dg)
  have two: "two_digits 2 = ''02''" "two_digits 29 = ''29''" "two_digits 23 = ''23''" "two_digits 59 = ''59''"
    "two_digits 0 = ''00''" by (simp_all add: two_digits_chars dg)
  have tx: "time_text t = ''2024-02-29T23:59:59.123+02:00''"
    by (simp add: t_def time_text_def four_digits_def dg two)
  show ?thesis
    using getIndexName_rfc3339 [OF ok, of "zero_enriched \<lparr> ee_event_time := ''2024-02-29T23:59:59.123+02:00'',
      ee_cluster := Some [(''onprem'', JBool True)] \<rparr>" "''events-''"] tx y two
    by (simp add: t_def)
qed

text \<open>
  An event whose time cannot be parsed, the empty text for instance, goes to the
  index of January of the year 1.
\<close>

lemma getIndexName_unparsable:
  assumes "parse_rfc3339 (ee_event_time e) = None"
  shows "\<exists>suffix. suffix \<in> {[], ''-onprem''} \<and> getIndexName indexPrefix e = indexPrefix @ ''1-01'' @ suffix"
proof -
  have "nat_text 1 = ''1''" "two_digits 1 = ''01''" by code_simp+
  then show ?thesis using assms by (simp add: getIndexName_def)
qed

lemma decode_first_print:
  "jok v \<Longrightarrow> number_stop rest \<Longrightarrow> decode_first (jprint v @ rest) = Some v"
  by (simp add: decode_first_def parse_print)

lemma decode_raw_doc:
  "decode_raw_config (JObj [(''_index'', JStr ix), (''_id'', JStr i), (''_source'', JObj [(''Mode'', JStr mode)])]) =
     ((\<lparr> pc_mode = mode \<rparr>, ix, i), False)"
  by (simp add: decode_raw_config_def field_members_def raw_fields_def field_of_def decode_field_def
      decode_string_def decode_config_def)

text \<open>
  \<^verbatim>\<open>Get\<close> gives the mode of the stored document, whatever follows it in the body, and
  the mode online when there is no response, an error, or a status above 299.
\<close>

lemma ProjectionConfig_Get_mode:
  assumes "valid_utf8 ix" "valid_utf8 i" "valid_utf8 mode" "number_stop rest"
  shows "ProjectionConfig_Get (Some \<lparr> os_status = 200, os_body = jprint (JObj [(''_index'', JStr ix), (''_id'', JStr i),
      (''_source'', JObj [(''Mode'', JStr mode)])]) @ rest \<rparr>, False) = \<lparr> pc_mode = mode \<rparr> \<and>
    (err \<or> res = None \<or> 299 < os_status (the res) \<longrightarrow> ProjectionConfig_Get (res, err) = \<lparr> pc_mode = ''online'' \<rparr>)"
proof -
  have "jok (JObj [(''_index'', JStr ix), (''_id'', JStr i), (''_source'', JObj [(''Mode'', JStr mode)])])"
    using assms(1-3) by (simp add: byte_def)
  from decode_first_print [OF this assms(4)] show ?thesis
    by (cases err; cases res) (auto simp: ProjectionConfig_Get_def ProjectionModeOnline_def decode_raw_doc Let_def
        simp del: jprint.simps split: option.split prod.split)
qed

end
