(* ===== verification/Projection.thy ===== *)
theory Projection
  imports SnapshotRepository EventRepository Enricher
begin

text \<open>
  \<^verbatim>\<open>internal/projection/enriched_event_projection.go\<close>: what the consumer does with one
  message. The enricher, the snapshot repository and the event repository stand behind
  interfaces in the code, and are fields of the record \<open>projection\<close> here; the messages
  sent to the ack channel are kept in the order they are sent.
\<close>

section \<open>The code\<close>

datatype projection_error =
    Unknown_event string json
  | Process_failed process_error
  | Snapshot_failed snapshot_error
  | Store_failed

text \<open>\<open>p_later\<close> is no part of the code, but what becomes of the stored snapshots in time.\<close>

record ('s, 'b) projection =
  p_enrich :: "event \<Rightarrow> jobject option \<Rightarrow> jobject option list \<Rightarrow> jobject option list \<Rightarrow> enriched_event go"
  p_snapshots :: "'s snapshot_store"
  p_store :: "'b \<Rightarrow> enriched_event \<Rightarrow> kafka_msg \<Rightarrow> 'b \<times> bool"
  p_excluded :: "string list"
  p_later :: "nat \<Rightarrow> 's \<Rightarrow> 's"

record ('s, 'b) proj_state =
  ps_snap :: 's
  ps_bulk :: 'b
  ps_acks :: "kafka_msg list"

type_synonym ('s, 'b) proj_result = "('s, 'b) proj_state \<times> projection_error option"

definition NewEnrichedEventsProjection ::
  "process_env \<Rightarrow> 's snapshot_repository \<Rightarrow> 'b bulk_add \<Rightarrow> string \<Rightarrow> string list \<Rightarrow> ('s, 'b) projection" where
  "NewEnrichedEventsProjection env snapshotRepo add indexPrefix excludedUserNames =
     \<lparr> p_enrich = GetEnrichedEvent env NewEventEnricher, p_snapshots = snapshot_store_of snapshotRepo,
       p_store = Store add indexPrefix, p_excluded = excludedUserNames,
       p_later = r_pass (sr_redis snapshotRepo) \<rparr>"

definition getEventFromMessage :: "kafka_msg \<Rightarrow> event option" where
  "getEventFromMessage msg =
     (case json_parse (km_value msg) of
        None \<Rightarrow> None
      | Some t \<Rightarrow> (case decode_event zero_event t of (e, True) \<Rightarrow> None | (e, False) \<Rightarrow> Some e))"

definition ackMsg :: "kafka_msg \<Rightarrow> ('s, 'b) proj_state \<Rightarrow> ('s, 'b) proj_state" where
  "ackMsg msg st = st \<lparr> ps_acks := ps_acks st @ [msg] \<rparr>"

definition skipEvent :: "string list \<Rightarrow> jobject option \<Rightarrow> bool" where
  "skipEvent excludedUserNames cluster =
     (case mget (case cluster of Some c \<Rightarrow> c | None \<Rightarrow> []) ''user_name'' of
        Some (JStr nameStr) \<Rightarrow> nameStr \<in> set excludedUserNames
      | _ \<Rightarrow> False)"

text \<open>The errors of the getters are only logged.\<close>

definition ProcessClusterEvent ::
  "('s, 'b) projection \<Rightarrow> ('s, 'b) proj_state \<Rightarrow> event \<Rightarrow> kafka_msg \<Rightarrow> ('s, 'b) proj_result go" where
  "ProcessClusterEvent p st event msg =
     (case GetValueFromPayload ''cluster_id'' (ev_payload event) of
        Inl err \<Rightarrow> Return (st, Some (Process_failed err))
      | Inr clusterID \<Rightarrow>
          let cluster = fst (ss_GetCluster (p_snapshots p) (ps_snap st) clusterID) in
          if skipEvent (p_excluded p) cluster then Return (st, None)
          else
            let hosts = fst (ss_GetHosts (p_snapshots p) (ps_snap st) clusterID);
                infraEnvs = fst (ss_GetInfraEnvs (p_snapshots p) (ps_snap st) clusterID)
            in go_bind (p_enrich p event cluster hosts infraEnvs)
                 (\<lambda>enrichedEvent.
                    case p_store p (ps_bulk st) enrichedEvent msg of
                      (b, err) \<Rightarrow> Return (st \<lparr> ps_bulk := b \<rparr>, if err then Some Store_failed else None)))"

definition set_result ::
  "('s, 'b) proj_state \<Rightarrow> 's \<times> snapshot_error option \<Rightarrow> ('s, 'b) proj_result" where
  "set_result st res = (st \<lparr> ps_snap := fst res \<rparr>, map_option Snapshot_failed (snd res))"

definition ProcessClusterState ::
  "('s, 'b) projection \<Rightarrow> ('s, 'b) proj_state \<Rightarrow> event \<Rightarrow> ('s, 'b) proj_result" where
  "ProcessClusterState p st event =
     (case GetValueFromPayload ''id'' (ev_payload event) of
        Inl err \<Rightarrow> (st, Some (Process_failed err))
      | Inr clusterID \<Rightarrow>
          set_result st (ss_SetCluster (p_snapshots p) (ps_snap st) clusterID (Some event)))"

definition ProcessHostState ::
  "('s, 'b) projection \<Rightarrow> ('s, 'b) proj_state \<Rightarrow> event \<Rightarrow> ('s, 'b) proj_result" where
  "ProcessHostState p st event =
     (case GetValueFromPayload ''id'' (ev_payload event) of
        Inl err \<Rightarrow> (st, Some (Process_failed err))
      | Inr hostID \<Rightarrow>
          (case GetValueFromPayload ''cluster_id'' (ev_payload event) of
             Inl err \<Rightarrow> (st, Some (Process_failed err))
           | Inr clusterID \<Rightarrow>
               set_result st (ss_SetHost (p_snapshots p) (ps_snap st) clusterID hostID (Some event))))"

definition ProcessInfraEnvState ::
  "('s, 'b) projection \<Rightarrow> ('s, 'b) proj_state \<Rightarrow> event \<Rightarrow> ('s, 'b) proj_result" where
  "ProcessInfraEnvState p st event =
     (case GetValueFromPayload ''id'' (ev_payload event) of
        Inl err \<Rightarrow> (st, Some (Process_failed err))
      | Inr infraEnvID \<Rightarrow>
          (case GetValueFromPayload ''cluster_id'' (ev_payload event) of
             Inl err \<Rightarrow> (st, Some (Process_failed err))
           | Inr clusterID \<Rightarrow>
               set_result st (ss_SetInfraEnv (p_snapshots p) (ps_snap st) clusterID infraEnvID (Some event))))"

definition is_malformed :: "projection_error option \<Rightarrow> bool" where
  "is_malformed err = (case err of Some (Process_failed (MalformedEventError key payload)) \<Rightarrow> True | _ \<Rightarrow> False)"

text \<open>
  \<^verbatim>\<open>ProcessEvent\<close> after its switch: a state is acknowledged whatever the error, and a
  malformed event is acknowledged and its error dropped.
\<close>

definition finish_event ::
  "string \<Rightarrow> kafka_msg \<Rightarrow> ('s, 'b) proj_result \<Rightarrow> ('s, 'b) proj_result" where
  "finish_event name msg res =
     (let st = (if name \<noteq> ''Event'' then ackMsg msg (fst res) else fst res)
      in if is_malformed (snd res) then (ackMsg msg st, None) else (st, snd res))"

definition ProcessEvent ::
  "('s, 'b) projection \<Rightarrow> ('s, 'b) proj_state \<Rightarrow> event \<Rightarrow> kafka_msg \<Rightarrow> ('s, 'b) proj_result go" where
  "ProcessEvent p st event msg =
     (if ev_name event = ''Event'' then
        go_bind (ProcessClusterEvent p st event msg) (\<lambda>r. Return (finish_event ''Event'' msg r))
      else if ev_name event = ''ClusterState'' then
        Return (finish_event ''ClusterState'' msg (ProcessClusterState p st event))
      else if ev_name event = ''HostState'' then
        Return (finish_event ''HostState'' msg (ProcessHostState p st event))
      else if ev_name event = ''InfraEnv'' then
        Return (finish_event ''InfraEnv'' msg (ProcessInfraEnvState p st event))
      else Return (st, Some (Unknown_event (ev_name event) (ev_payload event))))"

definition ProcessMessage ::
  "('s, 'b) projection \<Rightarrow> ('s, 'b) proj_state \<Rightarrow> kafka_msg \<Rightarrow> ('s, 'b) proj_result go" where
  "ProcessMessage p st msg =
     (case getEventFromMessage msg of
        None \<Rightarrow> Return (ackMsg msg st, None)
      | Some event \<Rightarrow> ProcessEvent p st event msg)"

section \<open>Events as messages\<close>

definition wf_message_event :: "event \<Rightarrow> bool" where
  "wf_message_event e = (valid_utf8 (ev_name e) \<and> jwf (ev_payload e) \<and> pred_option wf_obj (ev_metadata e))"

lemma decode_any_jwf: "jwf v \<Longrightarrow> decode_any x v = (v, False)"
  using decoded_id [of v] by (cases v) (auto simp: decode_any_def jwf_def jok_jfinite)

lemma decode_metadata: "pred_option wf_obj m \<Longrightarrow> decode_map None (opt_json JObj m) = (m, False)"
  by (cases m) (simp_all add: opt_json_def decode_map_id, simp add: decode_map_def)

lemma decode_event_json: "wf_message_event e \<Longrightarrow> decode_event zero_event (event_json e) = (e, False)"
  by (simp add: event_json_def decode_event_def field_members_def field_of_def event_fields_def zero_event_def
      decode_field_def decode_string_def wf_message_event_def decode_any_jwf decode_metadata)

lemma jok_event_json: "wf_message_event e \<Longrightarrow> jok (event_json e)"
  by (cases "ev_metadata e")
    (auto simp: event_json_def wf_message_event_def jwf_def opt_json_def wf_obj_def byte_def)

lemma getEvent_event_json:
  "wf_message_event e \<Longrightarrow> km_value msg = jprint (event_json e) \<Longrightarrow> getEventFromMessage msg = Some e"
  by (simp add: getEventFromMessage_def json_parse_jprint jok_event_json decode_event_json)

text \<open>
  C16. What a \<^verbatim>\<open>KafkaWriter\<close> writes for an event is what the projection reads: the writer
  hands one message to the producer, and \<^verbatim>\<open>getEventFromMessage\<close> gives the event back from
  its value.
\<close>

theorem event_message_roundtrip:
  assumes "wf_message_event e"
  shows "\<exists>d. KafkaWriter_Write producer w key (event_json e) = producer w key d \<and>
    getEventFromMessage \<lparr> km_key = key, km_value = d, km_headers = hs, km_offset = n \<rparr> = Some e"
proof (intro exI conjI)
  have ok: "jok (event_json e)" by (rule jok_event_json [OF assms])
  show "KafkaWriter_Write producer w key (event_json e) = producer w key (jprint (event_json e))"
    by (simp add: KafkaWriter_Write_def json_Marshal_def jok_jfinite [OF ok])
  show "getEventFromMessage \<lparr> km_key = key, km_value = jprint (event_json e), km_headers = hs, km_offset = n \<rparr> = Some e"
    by (rule getEvent_event_json [OF assms]) simp
qed

definition sample_state_event :: event where
  "sample_state_event = \<lparr> ev_name = ''HostState'', ev_payload =
     JObj [(''cluster_id'', JStr ''c1''), (''id'', JStr ''h1'')], ev_metadata = None \<rparr>"

lemma sample_state_event_wf: "wf_message_event sample_state_event"
  by (simp add: wf_message_event_def sample_state_event_def) code_simp

theorem event_message_roundtrip_witness:
  "\<exists>d. KafkaWriter_Write (\<lambda>w k v. (w @ [(k, v)], False)) [] ''c1'' (event_json sample_state_event) = ([(''c1'', d)], False) \<and>
    getEventFromMessage \<lparr> km_key = ''c1'', km_value = d, km_headers = [], km_offset = 7 \<rparr> = Some sample_state_event"
  using event_message_roundtrip [OF sample_state_event_wf, of "\<lambda>w k v. (w @ [(k, v)], False)" "[]" "''c1''" "[]" 7]
  by simp

end
