(* ===== verification/ProjectionSpec.thy ===== *)
theory ProjectionSpec
  imports Projection
begin

text \<open>
  What one message does to the projection: which messages are acknowledged and how often,
  which errors stop the consumer, and how state messages act on the snapshots.
\<close>

section \<open>The operation of a state message\<close>

definition payload_value :: "string \<Rightarrow> event \<Rightarrow> string option" where
  "payload_value k e =
     (case ev_payload e of
        JObj m \<Rightarrow> (case mget m k of Some (JStr v) \<Rightarrow> Some v | _ \<Rightarrow> None)
      | _ \<Rightarrow> None)"

definition msg_op :: "event \<Rightarrow> snap_op option" where
  "msg_op e =
     (if ev_name e = ''ClusterState'' then map_option (\<lambda>c. Set_cluster c e) (payload_value ''id'' e)
      else case (payload_value ''id'' e, payload_value ''cluster_id'' e) of
        (Some i, Some c) \<Rightarrow>
          if ev_name e = ''HostState'' then Some (Set_host c i e)
          else if ev_name e = ''InfraEnv'' then Some (Set_infra_env c i e) else None
      | _ \<Rightarrow> None)"

definition state_names :: "string list" where
  "state_names = [''ClusterState'', ''HostState'', ''InfraEnv'']"

lemma GetValue_cases:
  "GetValueFromPayload k (ev_payload e) =
     (case payload_value k e of Some v \<Rightarrow> Inr v | None \<Rightarrow> Inl (MalformedEventError k (ev_payload e)))"
  by (simp add: GetValueFromPayload_def payload_value_def split: json.split option.split)

lemma ProcessEvent_state:
  assumes "ev_name e \<in> set state_names" "msg_op e = Some x"
  shows "ProcessEvent p st e msg = Return
    (st \<lparr> ps_snap := fst (apply_op (p_snapshots p) x (ps_snap st)), ps_acks := ps_acks st @ [msg] \<rparr>,
     map_option Snapshot_failed (snd (apply_op (p_snapshots p) x (ps_snap st))))"
proof -
  have fin: "finish_event n msg (set_result st r) =
      (st \<lparr> ps_snap := fst r, ps_acks := ps_acks st @ [msg] \<rparr>, map_option Snapshot_failed (snd r))"
    if "n \<noteq> ''Event''" for n and r :: "'a \<times> snapshot_error option"
    using that by (cases "snd r") (simp_all add: finish_event_def set_result_def is_malformed_def ackMsg_def)
  from assms show ?thesis
    by (auto simp: state_names_def msg_op_def ProcessEvent_def ProcessClusterState_def ProcessHostState_def
        ProcessInfraEnvState_def GetValue_cases fin split: option.splits if_splits)
qed

lemma ProcessEvent_malformed_state:
  assumes "ev_name e \<in> set state_names" "msg_op e = None"
  shows "ProcessEvent p st e msg = Return (st \<lparr> ps_acks := ps_acks st @ [msg, msg] \<rparr>, None)"
proof -
  have fin: "finish_event n msg (st, Some (Process_failed (MalformedEventError k pl))) =
      (st \<lparr> ps_acks := ps_acks st @ [msg, msg] \<rparr>, None)" if "n \<noteq> ''Event''" for n k pl
    using that by (simp add: finish_event_def is_malformed_def ackMsg_def)
  from assms show ?thesis
    by (auto simp: state_names_def msg_op_def ProcessEvent_def ProcessClusterState_def ProcessHostState_def
        ProcessInfraEnvState_def GetValue_cases fin split: option.splits)
qed

lemma finish_none: "finish_event ''Event'' msg (r, None) = (r, None)"
  by (simp add: finish_event_def is_malformed_def)

lemma finish_store: "finish_event ''Event'' msg (r, Some Store_failed) = (r, Some Store_failed)"
  by (simp add: finish_event_def is_malformed_def)

text \<open>What a cluster event is enriched with.\<close>

definition snapshot_of ::
  "('s, 'b) projection \<Rightarrow> ('s, 'b) proj_state \<Rightarrow> string \<Rightarrow> jobject option \<times> jobject option list \<times> jobject option list" where
  "snapshot_of p st c =
     (fst (ss_GetCluster (p_snapshots p) (ps_snap st) c), fst (ss_GetHosts (p_snapshots p) (ps_snap st) c),
      fst (ss_GetInfraEnvs (p_snapshots p) (ps_snap st) c))"

lemma ProcessEvent_cluster:
  assumes "ev_name e = ''Event''" "payload_value ''cluster_id'' e = Some c"
    "snapshot_of p st c = (cluster, hosts, infraEnvs)"
  shows "ProcessEvent p st e msg =
    (if skipEvent (p_excluded p) cluster then Return (st, None)
     else go_bind (p_enrich p e cluster hosts infraEnvs)
       (\<lambda>ee. Return (st \<lparr> ps_bulk := fst (p_store p (ps_bulk st) ee msg) \<rparr>,
          if snd (p_store p (ps_bulk st) ee msg) then Some Store_failed else None)))"
proof -
  show ?thesis
    using assms by (cases "p_enrich p e cluster hosts infraEnvs")
      (auto simp: ProcessEvent_def ProcessClusterEvent_def GetValue_cases snapshot_of_def finish_none finish_store
        split: prod.split)
qed

lemma ProcessEvent_malformed_cluster:
  "ev_name e = ''Event'' \<Longrightarrow> payload_value ''cluster_id'' e = None \<Longrightarrow>
     ProcessEvent p st e msg = Return (st \<lparr> ps_acks := ps_acks st @ [msg] \<rparr>, None)"
  by (simp add: ProcessEvent_def ProcessClusterEvent_def GetValue_cases finish_event_def is_malformed_def ackMsg_def)

lemma ProcessEvent_unknown:
  "ev_name e \<noteq> ''Event'' \<Longrightarrow> ev_name e \<notin> set state_names \<Longrightarrow>
     ProcessEvent p st e msg = Return (st, Some (Unknown_event (ev_name e) (ev_payload e)))"
  by (simp add: ProcessEvent_def state_names_def)

text \<open>The branches of \<^verbatim>\<open>ProcessMessage\<close>, for case analysis.\<close>

lemma message_cases:
  obtains (undecodable) "getEventFromMessage msg = None"
  | (state) e x where "getEventFromMessage msg = Some e" "ev_name e \<in> set state_names" "msg_op e = Some x"
  | (bad_state) e where "getEventFromMessage msg = Some e" "ev_name e \<in> set state_names" "msg_op e = None"
  | (cluster_event) e c where "getEventFromMessage msg = Some e" "ev_name e = ''Event''" "payload_value ''cluster_id'' e = Some c"
  | (bad_event) e where "getEventFromMessage msg = Some e" "ev_name e = ''Event''" "payload_value ''cluster_id'' e = None"
  | (unknown) e where "getEventFromMessage msg = Some e" "ev_name e \<noteq> ''Event''" "ev_name e \<notin> set state_names"
  by (metis option.exhaust)

section \<open>Results\<close>

text \<open>How often a message is acknowledged by the projection itself.\<close>

definition ack_times :: "kafka_msg \<Rightarrow> nat" where
  "ack_times msg =
     (case getEventFromMessage msg of
        None \<Rightarrow> 1
      | Some e \<Rightarrow>
          if ev_name e = ''Event'' then (if payload_value ''cluster_id'' e = None then 1 else 0)
          else if ev_name e \<in> set state_names then (if msg_op e = None then 2 else 1)
          else 0)"

lemma ProcessMessage_acks:
  assumes "ProcessMessage p st msg = Return (st', err)"
  shows "ps_acks st' = ps_acks st @ replicate (ack_times msg) msg"
proof (cases msg rule: message_cases)
  case undecodable
  then show ?thesis using assms by (auto simp: ProcessMessage_def ackMsg_def ack_times_def)
next
  case (state e x)
  then have "ev_name e \<noteq> ''Event''" by (auto simp: state_names_def)
  with state show ?thesis
    using assms ProcessEvent_state [OF state(2,3), of p st msg] by (auto simp: ProcessMessage_def ack_times_def)
next
  case (bad_state e)
  then have "ev_name e \<noteq> ''Event''" by (auto simp: state_names_def)
  with bad_state show ?thesis
    using assms ProcessEvent_malformed_state [OF bad_state(2,3), of p st msg]
    by (auto simp: ProcessMessage_def ack_times_def numeral_2_eq_2)
next
  case (cluster_event e c)
  obtain cluster hosts infraEnvs where s: "snapshot_of p st c = (cluster, hosts, infraEnvs)"
    by (cases "snapshot_of p st c") blast
  show ?thesis
    using assms cluster_event ProcessEvent_cluster [OF cluster_event(2,3) s, of msg]
    by (cases "p_enrich p e cluster hosts infraEnvs")
      (auto simp: ProcessMessage_def ack_times_def split: if_splits)
next
  case (bad_event e)
  then show ?thesis
    using assms ProcessEvent_malformed_cluster [OF bad_event(2,3), of p st msg] by (auto simp: ProcessMessage_def ack_times_def)
next
  case (unknown e)
  then show ?thesis
    using assms ProcessEvent_unknown [OF unknown(2,3), of p st msg] by (auto simp: ProcessMessage_def ack_times_def)
qed

text \<open>
  C15. Every message that \<^verbatim>\<open>ProcessMessage\<close> takes without panic is sent to the ack channel
  as often as \<open>ack_times\<close> says, which looks at the message alone: once when it is no
  event, once for a state, twice for a malformed state, once for a cluster event without
  cluster, and never for any other cluster event nor for an event of unknown name.
\<close>

theorem message_acknowledged:
  assumes "ProcessMessage p st msg = Return (st', err)"
  shows "ps_acks st' = ps_acks st @ replicate (ack_times msg) msg"
  by (rule ProcessMessage_acks [OF assms])

text \<open>
  C31. A malformed message (no JSON event, or no identifiers of type string in the payload)
  never stops the consumer and changes nothing but the acknowledgements.
\<close>

theorem malformed_discarded:
  assumes "getEventFromMessage msg = None \<or>
    (\<exists>e. getEventFromMessage msg = Some e \<and>
      (ev_name e = ''Event'' \<and> payload_value ''cluster_id'' e = None \<or>
       ev_name e \<in> set state_names \<and> msg_op e = None))"
  shows "ProcessMessage p st msg = Return (st \<lparr> ps_acks := ps_acks st @ replicate (ack_times msg) msg \<rparr>, None) \<and>
    ack_times msg \<in> {1, 2}"
  using assms ProcessEvent_malformed_cluster [of _ p st msg] ProcessEvent_malformed_state [of _ p st msg]
  by (auto simp: ProcessMessage_def ack_times_def ackMsg_def numeral_2_eq_2 state_names_def)

text \<open>
  C23. A state message with its identifiers is one operation on the snapshots; it is
  acknowledged once, and acknowledged also when the operation returns an error, which
  then is the error of \<^verbatim>\<open>ProcessMessage\<close>.
\<close>

theorem state_message_applied:
  assumes "getEventFromMessage msg = Some e" "ev_name e \<in> set state_names" "msg_op e = Some x"
    "apply_op (p_snapshots p) x (ps_snap st) = (s, err)"
  shows "ProcessMessage p st msg =
    Return (st \<lparr> ps_snap := s, ps_acks := ps_acks st @ [msg] \<rparr>, map_option Snapshot_failed err)"
  using ProcessEvent_state [OF assms(2,3), of p st msg] assms(1,4) by (simp add: ProcessMessage_def)

text \<open>
  C32. The errors that stop the consumer: an event of unknown name, a snapshot that could
  not be written, an enriched event that the bulk indexer did not take. An event of
  unknown name is never acknowledged, so that it is read again after a restart; a
  snapshot error comes after the acknowledgement.
\<close>

theorem processing_errors:
  assumes "ProcessMessage p st msg = Return (st', Some err)"
  shows "\<exists>e. getEventFromMessage msg = Some e \<and>
    (case err of
       Unknown_event n pl \<Rightarrow> n = ev_name e \<and> n \<noteq> ''Event'' \<and> n \<notin> set state_names \<and> st' = st
     | Snapshot_failed f \<Rightarrow> ev_name e \<in> set state_names \<and> ps_acks st' = ps_acks st @ [msg] \<and>
         (\<exists>x. msg_op e = Some x \<and> snd (apply_op (p_snapshots p) x (ps_snap st)) = Some f)
     | Store_failed \<Rightarrow> ev_name e = ''Event'' \<and> ps_acks st' = ps_acks st \<and> ps_snap st' = ps_snap st
     | Process_failed f \<Rightarrow> False)"
proof (cases msg rule: message_cases)
  case undecodable
  then show ?thesis using assms by (simp add: ProcessMessage_def)
next
  case (state e x)
  then show ?thesis
    using assms ProcessEvent_state [OF state(2,3), of p st msg] by (auto simp: ProcessMessage_def)
next
  case (bad_state e)
  then show ?thesis
    using assms ProcessEvent_malformed_state [OF bad_state(2,3), of p st msg] by (simp add: ProcessMessage_def)
next
  case (cluster_event e c)
  obtain cluster hosts infraEnvs where s: "snapshot_of p st c = (cluster, hosts, infraEnvs)"
    by (cases "snapshot_of p st c") blast
  show ?thesis
    using assms cluster_event ProcessEvent_cluster [OF cluster_event(2,3) s, of msg]
    by (cases "p_enrich p e cluster hosts infraEnvs") (auto simp: ProcessMessage_def split: if_splits)
next
  case (bad_event e)
  then show ?thesis
    using assms ProcessEvent_malformed_cluster [OF bad_event(2,3), of p st msg] by (simp add: ProcessMessage_def)
next
  case (unknown e)
  then show ?thesis
    using assms ProcessEvent_unknown [OF unknown(2,3), of p st msg] by (auto simp: ProcessMessage_def)
qed

text \<open>
  An event of a cluster whose \<^verbatim>\<open>user_name\<close> is excluded is dropped without a trace: it is
  neither stored nor acknowledged.
\<close>

lemma excluded_user_dropped:
  assumes "getEventFromMessage msg = Some e" "ev_name e = ''Event''" "payload_value ''cluster_id'' e = Some c"
    "ss_GetCluster (p_snapshots p) (ps_snap st) c = (Some cluster, err)"
    "mget cluster ''user_name'' = Some (JStr u)" "u \<in> set (p_excluded p)"
  shows "ProcessMessage p st msg = Return (st, None)"
proof -
  obtain hosts infraEnvs where s: "snapshot_of p st c = (Some cluster, hosts, infraEnvs)"
    using assms(4) by (simp add: snapshot_of_def)
  show ?thesis
    using ProcessEvent_cluster [OF assms(2,3) s, of msg] assms(1,5,6)
    by (simp add: ProcessMessage_def skipEvent_def)
qed

section \<open>The results at concrete messages\<close>

definition list_add :: "bulk_item list bulk_add" where
  "list_add b i = (b @ [i], False)"

definition sample_projection :: "(mem_store, bulk_item list) projection" where
  "sample_projection = NewEnrichedEventsProjection sample_env mem_repository list_add ''events-'' [''bob'']"

lemma sample_projection_simps [simp]:
  "p_snapshots sample_projection = snapshot_store_of mem_repository" "p_excluded sample_projection = [''bob'']"
  by (simp_all add: sample_projection_def NewEnrichedEventsProjection_def)

definition text_msg :: "event \<Rightarrow> kafka_msg" where
  "text_msg e = \<lparr> km_key = [], km_value = jprint (event_json e), km_headers = [], km_offset = 0 \<rparr>"

lemma get_text_msg: "wf_message_event e \<Longrightarrow> getEventFromMessage (text_msg e) = Some e"
  by (rule getEvent_event_json) (simp_all add: text_msg_def)

definition named_event :: "string \<Rightarrow> event" where
  "named_event n = \<lparr> ev_name = n, ev_payload = JObj [(''cluster_id'', JStr ''c'')], ev_metadata = None \<rparr>"

lemma named_event_wf: "wf_message_event (named_event ''HostState'')" "wf_message_event (named_event ''Event'')"
    "wf_message_event (named_event ''Other'')"
  by (simp add: wf_message_event_def named_event_def, code_simp)+

definition sample_start :: "(mem_store, bulk_item list) proj_state" where
  "sample_start = \<lparr> ps_snap = mem_empty, ps_bulk = [], ps_acks = [] \<rparr>"

lemma sample_bad_state:
  "ev_name (named_event ''HostState'') \<in> set state_names" "msg_op (named_event ''HostState'') = None"
  by (simp_all add: state_names_def named_event_def msg_op_def payload_value_def)

theorem malformed_discarded_witness:
  "ProcessMessage sample_projection sample_start (text_msg (named_event ''HostState'')) =
     Return (sample_start \<lparr> ps_acks := [text_msg (named_event ''HostState''), text_msg (named_event ''HostState'')] \<rparr>, None)"
  using malformed_discarded [of "text_msg (named_event ''HostState'')" sample_projection sample_start]
    get_text_msg [OF named_event_wf(1)] sample_bad_state
  by (simp add: ack_times_def sample_start_def named_event_def numeral_2_eq_2)

theorem message_acknowledged_witness:
  "\<exists>st' err. ProcessMessage sample_projection sample_start (text_msg (named_event ''Other'')) = Return (st', err) \<and>
     ps_acks st' = []"
proof -
  have r: "ProcessMessage sample_projection sample_start (text_msg (named_event ''Other'')) =
      Return (sample_start, Some (Unknown_event ''Other'' (JObj [(''cluster_id'', JStr ''c'')])))"
    using get_text_msg [OF named_event_wf(3)]
    by (simp add: ProcessMessage_def ProcessEvent_def named_event_def)
  have "ack_times (text_msg (named_event ''Other'')) = 0"
    using get_text_msg [OF named_event_wf(3)] by (simp add: ack_times_def named_event_def state_names_def)
  with message_acknowledged [OF r] r show ?thesis by (auto simp: sample_start_def)
qed

theorem processing_errors_witness:
  "\<exists>st' e. ProcessMessage sample_projection sample_start (text_msg (named_event ''Other'')) =
       Return (st', Some (Unknown_event ''Other'' (JObj [(''cluster_id'', JStr ''c'')]))) \<and>
     getEventFromMessage (text_msg (named_event ''Other'')) = Some e \<and> ev_name e = ''Other''"
proof -
  have r: "ProcessMessage sample_projection sample_start (text_msg (named_event ''Other'')) =
      Return (sample_start, Some (Unknown_event ''Other'' (JObj [(''cluster_id'', JStr ''c'')])))"
    using get_text_msg [OF named_event_wf(3)]
    by (simp add: ProcessMessage_def ProcessEvent_def named_event_def)
  from processing_errors [OF r] r show ?thesis by auto
qed

theorem state_message_applied_witness:
  "\<exists>s err. ProcessMessage sample_projection sample_start (text_msg sample_state_event) =
     Return (sample_start \<lparr> ps_snap := s, ps_acks := [text_msg sample_state_event] \<rparr>, err)"
proof -
  have n: "ev_name sample_state_event \<in> set state_names"
    and x: "msg_op sample_state_event = Some (Set_host ''c1'' ''h1'' sample_state_event)"
    by (simp_all add: sample_state_event_def state_names_def msg_op_def payload_value_def)
  obtain s err where "apply_op (p_snapshots sample_projection) (Set_host ''c1'' ''h1'' sample_state_event)
      (ps_snap sample_start) = (s, err)" by fastforce
  from state_message_applied [OF get_text_msg [OF sample_state_event_wf] n x this]
  show ?thesis by (auto simp: sample_start_def)
qed

end
