(* ===== verification/OnPremEvents.thy ===== *)
theory OnPremEvents
  imports Hydrator ProjectionSpec
begin

text \<open>
  The hydrator and the projection together: what the one writes to the topic the other
  reads back, and does not discard for want of a cluster.
\<close>

text \<open>All events that goroutines still have to write or have written are in order.\<close>

definition events_inv :: "hydrator \<Rightarrow> bool" where
  "events_inv s =
     ((\<forall>es msg. Notifying es msg \<in> set (hy_goroutines s) \<longrightarrow> list_all envelope_ok es) \<and>
      list_all (\<lambda>(msg, e). envelope_ok e) (hy_sent s))"

lemma extracted_ok: "ExtractEvents tar cap tmp t f = (t', Extracted events) \<Longrightarrow> list_all envelope_ok events"
  by (auto simp: ExtractEvents_def Let_def list_all_iff extracted_envelope_ok split: option.splits if_splits)

lemma step_events: "hydrator_step c s s' \<Longrightarrow> events_inv s \<Longrightarrow> events_inv s'"
proof (induction rule: hydrator_step.induct)
  case (extract_ok s xs fl msg ys tmp t events)
  then show ?case using extracted_ok [OF extract_ok(3)] by (auto simp: events_inv_def)
next
  case (notify s xs e es msg ys)
  then have "list_all envelope_ok (e # es)" by (fastforce simp: events_inv_def)
  with notify show ?case by (auto simp: events_inv_def)
qed (auto simp: events_inv_def)

lemma reachable_events: "hydrator_reachable c t s \<Longrightarrow> events_inv s"
  by (induction rule: hydrator_reachable.induct)
    (simp_all add: step_events, simp add: events_inv_def hydrator_start_def)

text \<open>The key in the payload under which the projection looks for the cluster.\<close>

definition cluster_key :: "string \<Rightarrow> string" where
  "cluster_key name = (if name = ''ClusterState'' then ''id'' else ''cluster_id'')"

lemma envelope_facts:
  assumes "envelope_ok env"
  shows "payload_value (cluster_key (ev_name (env_event env))) (env_event env) = Some (env_key env)"
    "wf_message_event (env_event env)" "ev_name (env_event env) \<in> set (''Event'' # state_names)"
proof -
  obtain em p meta where e: "em \<in> set event_type_matches" "ev_name (env_event env) = em_event_name em"
    "ev_payload (env_event env) = JObj p" "wf_obj p" "mget p (em_cluster_id_key em) = Some (JStr (env_key env))"
    "ev_metadata (env_event env) = Some meta" "wf_obj meta" using assms unfolding envelope_ok_def by blast
  have n: "valid_utf8 (em_event_name em)" "cluster_key (em_event_name em) = em_cluster_id_key em"
    using e(1) by (auto simp: event_type_matches_def cluster_key_def byte_def)
  show "wf_message_event (env_event env)" using e n by (simp add: wf_message_event_def wf_obj_def)
  show "payload_value (cluster_key (ev_name (env_event env))) (env_event env) = Some (env_key env)"
    using e n by (simp add: payload_value_def)
  show "ev_name (env_event env) \<in> set (''Event'' # state_names)"
    using e(1,2) by (auto simp: event_type_matches_def state_names_def)
qed

text \<open>
  C11. Whatever the hydrator hands to its writer, the writer encodes, and the projection reads
  the same event back from the message; its name is known to the projection, and it has
  the identifier of its cluster, which is also the key of the message. So an on-prem
  cluster event is never discarded as malformed.
\<close>

theorem hydrator_events_readable:
  assumes "hydrator_reachable c t s" "(src, env) \<in> set (hy_sent s)"
  shows "\<exists>d. KafkaWriter_Write producer w (env_key env) (event_json (env_event env)) = producer w (env_key env) d \<and>
    getEventFromMessage \<lparr> km_key = env_key env, km_value = d, km_headers = hs, km_offset = n \<rparr> = Some (env_event env) \<and>
    ev_name (env_event env) \<in> set (''Event'' # state_names) \<and>
    payload_value (cluster_key (ev_name (env_event env))) (env_event env) = Some (env_key env)"
proof -
  have "envelope_ok env" using reachable_events [OF assms(1)] assms(2) by (auto simp: events_inv_def list_all_iff)
  note r = envelope_facts [OF this]
  let ?v = "event_json (env_event env)"
  have "KafkaWriter_Write producer w (env_key env) ?v = producer w (env_key env) (jprint ?v)"
    using jok_event_json [OF r(2)] by (simp add: KafkaWriter_Write_def json_Marshal_def jok_jfinite)
  moreover have "getEventFromMessage \<lparr> km_key = env_key env, km_value = jprint ?v, km_headers = hs, km_offset = n \<rparr> =
      Some (env_event env)" by (rule getEvent_event_json [OF r(2)]) simp
  ultimately show ?thesis using r(1,3) by (intro exI [of _ "jprint ?v"] conjI)
qed

section \<open>The results at a concrete run\<close>

text \<open>The archive of \<open>sample_tree\<close>: one host.\<close>

definition tar_config :: hydrator_config where
  "tar_config = \<lparr> hc_env = \<lparr> dn_url_path = Some, dn_http_get = (\<lambda>u. Some (''archive'', False)) \<rparr>,
     hc_tar = sample_tar, hc_download_dir = [''tmp''], hc_download_size = 1, hc_untar_size = 1, hc_event_size = 9 \<rparr>"

definition sample_envelope :: event_envelope where
  "sample_envelope = \<lparr> env_key = ''c'', env_event = \<lparr> ev_name = ''HostState'', ev_payload = JObj sample_hosts_json,
     ev_metadata = Some (getMetadata (Some [])) \<rparr> \<rparr>"

lemma sample_events: "extractEvents sample_unpacked [''tmp'', ''u''] = [sample_envelope]"
proof -
  let ?u = sample_unpacked and ?dir = "[''tmp'', ''u'']"
  have ch: "children ?u ?dir = [''c'']"
    by (simp add: sample_unpacked_def children_def sample_file_def)
  have g: "glob_star ?u ?dir [''versions.json''] = []" "glob_star ?u ?dir [''events'', ''hosts.json''] = [sample_file]"
    "glob_star ?u ?dir [''events'', ''cluster.json''] = []" "glob_star ?u ?dir [''events'', ''infraenv.json''] = []"
    "glob_star ?u ?dir [''events.json''] = []"
    by (simp_all add: glob_star_def ch) (simp_all add: sample_unpacked_def tree_node_def sample_file_def)
  let ?v = "JArr (map JObj [sample_hosts_json])"
  have r: "read_path ?u sample_file = Some (jprint ?v)"
    by (simp add: read_path_def sample_unpacked_def tree_node_def del: jprint.simps) (simp add: sample_file_def)
  have w: "wf_obj sample_hosts_json" by code_simp
  then have "json_parse (jprint ?v) = Some ?v" by (intro json_parse_jprint) (simp add: wf_obj_def jwf_def)
  moreover have "decode_maps [] ?v = ([Some sample_hosts_json], False)"
    using w by (simp add: decode_maps_def decode_map_id)
  ultimately have "getResourcesFromFile ?u sample_file = ([Some sample_hosts_json], False)"
    by (simp add: getResourcesFromFile_def r del: jprint.simps)
  then show ?thesis
    by (simp add: extractEvents_def extractEventsForEventType_def event_type_matches_def getVersionsFromFile_def g
        sample_envelope_def) (simp add: sample_hosts_json_def onprem_resource_def)
qed

text \<open>The message is taken, its archive downloaded, unpacked and written, and the message acknowledged.\<close>

definition taken_run :: hydrator where
  "taken_run = (hydrator_start (tl sample_tree))
     \<lparr> hy_taken := [archive_msg ''/a''], hy_download_channel := [(''/a'', archive_msg ''/a'')] \<rparr>"

definition written_run :: hydrator where
  "written_run = taken_run \<lparr> hy_tree := remove_all [''tmp'', ''u''] sample_unpacked, hy_download_channel := [],
     hy_extracted := [(archive_msg ''/a'', [''tmp'', ''a''], [sample_envelope])],
     hy_sent := [(archive_msg ''/a'', sample_envelope)], hy_acks := [archive_msg ''/a''] \<rparr>"

lemma takes_archive: "takes tar_config (archive_msg ''/a'') (hydrator_start (tl sample_tree)) taken_run"
proof -
  have v: "valid_utf8 ''/a''" by code_simp
  have "hydrator_step tar_config (hydrator_start (tl sample_tree)) taken_run"
    using take_url [OF archive_msg_action [OF v], of "hydrator_start (tl sample_tree)" tar_config]
    by (simp add: taken_run_def hydrator_start_def tar_config_def)
  then show ?thesis by (simp add: takes_def taken_run_def hydrator_start_def)
qed

lemma works_written: "(works tar_config)\<^sup>*\<^sup>* taken_run written_run"
proof -
  let ?m = "archive_msg ''/a''" and ?f = "[''tmp'', ''a'']" and ?dir = "[''tmp'', ''u'']"
  define s2 where "s2 = taken_run \<lparr> hy_download_channel := [], hy_goroutines := [Downloading ''/a'' ?m] \<rparr>"
  define s3 where "s3 = s2 \<lparr> hy_tree := sample_tree, hy_goroutines := [Sending_file ?f ?m] \<rparr>"
  define s4 where "s4 = s3 \<lparr> hy_untar_channel := [(?f, ?m)], hy_goroutines := [] \<rparr>"
  define s5 where "s5 = s4 \<lparr> hy_untar_channel := [], hy_goroutines := [Extracting ?f ?m] \<rparr>"
  let ?t2 = "remove_all ?dir sample_unpacked"
  define s6 where "s6 = s5 \<lparr> hy_tree := ?t2, hy_goroutines := [Notifying [sample_envelope] ?m],
    hy_extracted := [(?m, ?f, [sample_envelope])] \<rparr>"
  define s7 where "s7 = s6 \<lparr> hy_sent := [(?m, sample_envelope)], hy_goroutines := [Notifying [] ?m] \<rparr>"
  note defs = taken_run_def s2_def s3_def s4_def s5_def s6_def s7_def written_run_def hydrator_start_def
  have j: "join_path [''tmp''] ''a'' = ?f" by code_simp
  have d: "DownloadFile (hc_env tar_config) [''tmp''] (tl sample_tree) ''/a'' = (sample_tree, Some ?f)"
    using download_filename_last [of "''a''" "[''tmp'']" "[]"] j
    by (simp add: DownloadFile_def tar_config_def open_trunc_def tree_node_def sample_tree_def tree_put_def Let_def)
  have x: "ExtractEvents sample_tar 9 (Some ?dir) sample_tree ?f = (?t2, Extracted [sample_envelope])"
    by (simp add: ExtractEvents_def sample_unpack sample_events Let_def)
  have n: "new_dir sample_tree (Some ?dir)" by (simp add: new_dir_def tree_node_def sample_tree_def)
  have "works tar_config taken_run s2"
    using listen_download [of taken_run "''/a''" ?m "[]" tar_config] by (simp add: works_def defs)
  moreover have "works tar_config s2 s3"
    using download_ok [of s2 "[]" "''/a''" ?m "[]" tar_config sample_tree ?f] d
    by (simp add: works_def defs tar_config_def)
  moreover have "works tar_config s3 s4"
    using send_file [of s3 "[]" ?f ?m "[]" tar_config] by (simp add: works_def defs tar_config_def)
  moreover have "works tar_config s4 s5"
    using listen_untar [of s4 ?f ?m "[]" tar_config] by (simp add: works_def defs)
  moreover have "works tar_config s5 s6"
    using extract_ok [of s5 "[]" ?f ?m "[]" "Some ?dir" tar_config ?t2 "[sample_envelope]"] x n
    by (simp add: works_def defs tar_config_def)
  moreover have "works tar_config s6 s7"
    using notify [of s6 "[]" sample_envelope "[]" ?m "[]" tar_config] by (simp add: works_def defs)
  moreover have "works tar_config s7 written_run"
    using ack [of s7 "[]" ?m "[]" tar_config] by (simp add: works_def defs)
  ultimately show ?thesis by (meson converse_rtranclp_into_rtranclp rtranclp.rtrancl_refl)
qed

theorem hydrator_events_readable_witness:
  "\<exists>d. hydrator_reachable tar_config (tl sample_tree) written_run \<and>
     (archive_msg ''/a'', sample_envelope) \<in> set (hy_sent written_run) \<and>
     getEventFromMessage \<lparr> km_key = ''c'', km_value = d, km_headers = [], km_offset = 0 \<rparr> = Some (env_event sample_envelope)"
proof -
  have "hydrator_reachable tar_config (tl sample_tree) taken_run"
    using takes_archive hydrator_reachable.start by (auto simp: takes_def intro: hydrator_reachable.step)
  then have r: "hydrator_reachable tar_config (tl sample_tree) written_run"
    by (rule works_reachable [OF works_written])
  have m: "(archive_msg ''/a'', sample_envelope) \<in> set (hy_sent written_run)" by (simp add: written_run_def)
  have k: "env_key sample_envelope = ''c''" by (simp add: sample_envelope_def)
  from hydrator_events_readable [OF r m, of "\<lambda>w k v. (w, False)" "()" "[]" 0] r m show ?thesis unfolding k by blast
qed

end
