(* ===== verification/BaseEvent.thy ===== *)
theory BaseEvent
  imports Decoding Secrets
begin

text \<open>
  \<^verbatim>\<open>GetBaseEnrichedEvent\<close> on states as the snapshot repository gives them: it never panics,
  embeds into every host its infra-env, and its event meets the conditions under which
  the results on \<^verbatim>\<open>getTransformedEvent\<close> hold.
\<close>

section \<open>Hosts with their infra-envs\<close>

definition host_state_ok :: "jobject \<Rightarrow> bool" where
  "host_state_ok m = (wf_obj m \<and> (case mget m ''infra_env'' of Some v \<Rightarrow> \<not> is_JStr v | None \<Rightarrow> True))"

definition infra_env_ok :: "jobject \<Rightarrow> bool" where
  "infra_env_ok m = (wf_obj m \<and> (\<exists>i. mget m ''id'' = Some (JStr i)))"

text \<open>The infra-env of a host is the last one with its \<^verbatim>\<open>infra_env_id\<close>.\<close>

definition infra_env_of :: "jobject list \<Rightarrow> jobject \<Rightarrow> jobject option" where
  "infra_env_of ies host =
     Option.bind (mget host ''infra_env_id'') (\<lambda>v. find (\<lambda>ie. mget ie ''id'' = Some v) (rev ies))"

definition embed_host :: "jobject list \<Rightarrow> jobject \<Rightarrow> jobject" where
  "embed_host ies host =
     (case infra_env_of ies host of Some ie \<Rightarrow> mput ''infra_env'' (JObj ie) host | None \<Rightarrow> host)"

lemma iface_eq_string: "iface_eq (JStr i) v = Return (JStr i = v)"
  by (cases v) (simp_all add: iface_eq_def)

lemma embed_infra_envs_last:
  assumes "list_all infra_env_ok ies" "wf_obj h"
  shows "embed_infra_envs (map Some ies) v h =
    Return (case find (\<lambda>ie. mget ie ''id'' = Some v) (rev ies) of
      Some ie \<Rightarrow> mput ''infra_env'' (JObj ie) h | None \<Rightarrow> h)"
  using assms
proof (induction ies rule: rev_induct)
  case Nil
  then show ?case by (simp add: embed_infra_envs_def)
next
  case (snoc ie ies)
  then obtain i where i: "mget ie ''id'' = Some (JStr i)" by (auto simp: infra_env_ok_def)
  have m: "msorted h" using snoc.prems(2) by (simp add: wf_obj_def jwf_def)
  have "mput k x (mput k y h) = mput k x h" for k x y
    by (rule msorted_eqI) (simp_all add: m msorted_mput gomap_simps)
  with snoc i show ?case
    by (auto simp: embed_infra_envs_def iface_eq_string opt_json_def split: option.splits)
qed

lemma find_member: "find P xs = Some x \<Longrightarrow> x \<in> set xs"
  by (induction xs) (auto split: if_splits)

lemma embed_host_ok:
  assumes "list_all infra_env_ok ies" "host_state_ok h"
  shows "host_state_ok (embed_host ies h)"
proof -
  have h: "wf_obj h" "msorted h" using assms(2) by (simp_all add: host_state_ok_def wf_obj_def jwf_def)
  show ?thesis
  proof (cases "infra_env_of ies h")
    case (Some ie)
    then have "wf_obj ie" using assms(1)
      by (auto simp: infra_env_of_def list_all_iff infra_env_ok_def dest!: find_member split: Option.bind_splits)
    then have "wf_obj (mput ''infra_env'' (JObj ie) h)"
      using h(1) by (intro wf_obj_mput) (simp_all add: byte_def wf_obj_def)
    with Some h show ?thesis by (simp add: embed_host_def host_state_ok_def gomap_simps)
  qed (use assms(2) in \<open>simp add: embed_host_def\<close>)
qed

lemma hosts_embed:
  assumes "list_all wf_obj hosts" "list_all infra_env_ok ies"
  shows "getHostsWithEmbeddedInfraEnv (map Some hosts) (map Some ies) = Return (map (\<lambda>h. Some (embed_host ies h)) hosts)"
  using assms(1)
proof (induction hosts)
  case (Cons h hosts)
  then show ?case
    using embed_infra_envs_last [OF assms(2), of h]
    by (cases "mget h ''infra_env_id''") (simp_all add: embed_host_def infra_env_of_def)
qed simp

section \<open>The base event\<close>

lemma payload_decoded:
  assumes "wf_obj m"
  shows "decode_payload ev (JObj m) = Some (fst (decode_enriched ev (JObj (mdel ''ID'' m))))"
proof -
  have ok: "jok (JObj (mdel ''ID'' m))" using wf_obj_mdel [OF assms] by (simp add: wf_obj_def jwf_def)
  then show ?thesis
    by (simp add: decode_payload_def json_Marshal_def jok_jfinite json_parse_jprint del: jprint.simps)
qed

lemma members_mdel: "field_members names n m = [] \<Longrightarrow> field_members names n (mdel k m) = []"
  by (auto simp: field_members_def mdel_def filter_empty_conv)

lemma wf_raw: "wf_obj m \<Longrightarrow> raw_json (JObj m)"
  by (rule json_parse_raw [OF json_parse_jprint]) (simp add: wf_obj_def jwf_def)

lemma wf_obj_inner: "wf_obj m \<Longrightarrow> mget m k = Some (JObj v) \<Longrightarrow> wf_obj v"
  using wf_obj_get unfolding wf_obj_def by blast

lemma wf_obj_string: "wf_obj m \<Longrightarrow> mget m k = Some (JStr v) \<Longrightarrow> valid_utf8 v"
  using wf_obj_get [of m k "JStr v"] by (simp add: jwf_def)

lemma props_wf: "pred_option wf_obj (getProps payload)"
  by (auto simp: getProps_def Unmarshal_map_wf split: json.split option.split)

lemma versions_facts:
  assumes "pred_option wf_obj meta"
  shows "pred_option wf_obj (getVersionsFromMetadata meta)" "pred_option valid_utf8 (getReleaseTagFromMetadata meta)"
proof -
  define m where "m = (case meta of Some m \<Rightarrow> m | None \<Rightarrow> [])"
  have m: "wf_obj m" using assms by (cases meta) (simp_all add: m_def)
  note inner = wf_obj_inner [OF m]
  show "pred_option wf_obj (getVersionsFromMetadata meta)"
    unfolding getVersionsFromMetadata_def m_def [symmetric]
    by (auto split: option.split json.split dest: inner wf_obj_inner)
  show "pred_option valid_utf8 (getReleaseTagFromMetadata meta)"
    unfolding getReleaseTagFromMetadata_def m_def [symmetric]
    by (auto split: option.split json.split dest: inner wf_obj_string)
qed

text \<open>The conditions: what the snapshots hold, and a payload without a hosts summary.\<close>

definition inputs_ok :: "event \<Rightarrow> jobject option \<Rightarrow> jobject option list \<Rightarrow> jobject option list \<Rightarrow> bool" where
  "inputs_ok e cluster hosts infraEnvs =
     (pred_option wf_obj (ev_metadata e) \<and>
      (\<exists>m. ev_payload e = JObj m \<and> wf_obj m \<and> field_members enriched_fields ''host_summary'' m = []) \<and>
      (\<exists>c. cluster = Some c \<and> wf_obj c) \<and>
      list_all (\<lambda>h. \<exists>m. h = Some m \<and> host_state_ok m) hosts \<and>
      list_all (\<lambda>ie. \<exists>m. ie = Some m \<and> infra_env_ok m) infraEnvs)"

definition uuid_ok :: "process_env \<Rightarrow> bool" where
  "uuid_ok env = (\<forall>ns d. valid_utf8 (pe_uuid_sha1 env ns d))"

lemma base_event:
  assumes "uuid_ok env" "inputs_ok e cluster hosts infraEnvs"
  obtains ee c hs ies where "GetBaseEnrichedEvent env e cluster hosts infraEnvs = Return ee" "wf_event ee"
    "cluster = Some c" "hosts = map Some hs" "infraEnvs = map Some ies" "list_all infra_env_ok ies"
    "list_all host_state_ok hs"
    "ee_cluster ee = Some (mput ''hosts'' (hosts_json (map (\<lambda>h. Some (embed_host ies h)) hs)) c)"
    "ee_infra_envs ee = infraEnvs"
proof -
  obtain m c where m: "ev_payload e = JObj m" "wf_obj m" "field_members enriched_fields ''host_summary'' m = []"
    and c: "cluster = Some c" "wf_obj c" using assms(2) by (auto simp: inputs_ok_def)
  define hs where "hs = map the hosts"
  define ies where "ies = map the infraEnvs"
  have hs: "hosts = map Some hs" "list_all host_state_ok hs" and ies: "infraEnvs = map Some ies" "list_all infra_env_ok ies"
    using assms(2) by (auto simp: inputs_ok_def hs_def ies_def list_all_iff intro!: nth_equalityI)
      (metis nth_mem option.sel)+
  let ?hosts = "map (\<lambda>h. Some (embed_host ies h)) hs"
  have emb: "getHostsWithEmbeddedInfraEnv hosts infraEnvs = Return ?hosts"
    unfolding hs(1) ies(1) by (rule hosts_embed [OF _ ies(2)]) (use hs(2) in \<open>simp add: list_all_iff host_state_ok_def\<close>)
  define ev0 where "ev0 = zero_enriched \<lparr> ee_properties := getProps (ev_payload e) \<rparr>"
  define ev1 where "ev1 = fst (decode_enriched ev0 (JObj (mdel ''ID'' m)))"
  have "wf_event ev0" by (simp add: ev0_def zero_enriched_def wf_event_def props_wf)
  then have ev1: "wf_event ev1"
    unfolding ev1_def using m
    by (intro decode_enriched_wf) (simp_all add: wf_raw wf_obj_mdel members_mdel del: raw_json_simps)
  define ee where "ee = ev1 \<lparr> ee_id := pe_uuid_sha1 env uuid_namespace (ee_message ev1 @ ee_event_time ev1),
      ee_versions := getVersionsFromMetadata (ev_metadata e), ee_release_tag := getReleaseTagFromMetadata (ev_metadata e),
      ee_cluster := Some (mput ''hosts'' (hosts_json ?hosts) c), ee_infra_envs := infraEnvs \<rparr>"
  have "GetBaseEnrichedEvent env e cluster hosts infraEnvs = Return ee"
    by (simp add: GetBaseEnrichedEvent_def m(1) payload_decoded [OF m(2)] emb c(1) Let_def ee_def ev1_def ev0_def
        del: go_bind_Return)
  moreover have "jwf (hosts_json ?hosts)"
  proof -
    have "wf_obj (embed_host ies h)" if "h \<in> set hs" for h
      using embed_host_ok [OF ies(2), of h] hs(2) that by (simp add: host_state_ok_def list_all_iff)
    then show ?thesis by (auto simp: hosts_json_def json_slice_def opt_json_def wf_obj_def)
  qed
  then have "wf_obj (mput ''hosts'' (hosts_json ?hosts) c)" by (intro wf_obj_mput c(2)) (simp_all add: byte_def)
  moreover have "pred_option wf_obj (getVersionsFromMetadata (ev_metadata e))"
    "pred_option valid_utf8 (getReleaseTagFromMetadata (ev_metadata e))"
    using versions_facts assms(2) by (simp_all add: inputs_ok_def)
  ultimately have "wf_event ee" "GetBaseEnrichedEvent env e cluster hosts infraEnvs = Return ee"
    using ev1 assms(1) ies by (simp_all add: wf_event_def ee_def uuid_ok_def list_all_iff infra_env_ok_def)
  then show thesis using that c(1) hs ies by (simp add: ee_def)
qed

lemma base_event_ok:
  assumes "uuid_ok env" "inputs_ok e cluster hosts infraEnvs"
  obtains ee where "GetBaseEnrichedEvent env e cluster hosts infraEnvs = Return ee" "event_ok ee"
    "host_len (event_value ee) \<le> length hosts"
proof -
  obtain ee c hs ies where b: "GetBaseEnrichedEvent env e cluster hosts infraEnvs = Return ee" "wf_event ee"
    "cluster = Some c" "hosts = map Some hs" "infraEnvs = map Some ies" "list_all infra_env_ok ies"
    "list_all host_state_ok hs"
    "ee_cluster ee = Some (mput ''hosts'' (hosts_json (map (\<lambda>h. Some (embed_host ies h)) hs)) c)"
    "ee_infra_envs ee = infraEnvs" by (rule base_event [OF assms])
  let ?v = "event_value ee" and ?hs = "map (\<lambda>h. JObj (embed_host ies h)) hs"
  let ?c = "mput ''hosts'' (json_slice ?hs) c"
  have cl: "ee_cluster ee = Some ?c" using b(8) by (simp add: hosts_json_def opt_json_def comp_def)
  have wfc: "wf_obj ?c" using b(2) cl by (simp add: wf_event_def)
  have ms: "msorted c" using assms(2) b(3) by (auto simp: inputs_ok_def wf_obj_def jwf_def)
  have jwf: "jwf ?v" unfolding event_value_def by (rule jwf_canon) (rule jok_enriched_json [OF b(2)])
  have c: "jget [''cluster''] ?v = Some (JObj ?c)"
    using wfc by (simp only: jget_event_value mget_enriched cl)
      (simp add: opt_json_def canon_id wf_obj_def jwf_def del: canon.simps)
  have h: "jget [''cluster'', ''hosts''] ?v = Some (json_slice ?hs)"
    using jget_append [of "[''cluster'']" "[''hosts'']" ?v] c ms by (simp add: gomap_simps)
  have i: "jget [''infra_envs''] ?v =
      (if ies = [] then None else Some (JArr (map (canon \<circ> JObj) ies)))"
    by (simp only: jget_event_value mget_enriched b(9)) (simp add: b(5) opt_json_def comp_def)
  have shp: "host_shape (JObj (embed_host ies x))" if "x \<in> set hs" for x
    using embed_host_ok [OF b(6), of x] b(7) that
    by (auto simp: host_shape_def host_state_ok_def list_all_iff split: option.split)
  have "shape ?v"
    using jwf c h i shp by (auto simp: shape_def list_node_def json_slice_def simp del: jget.simps)
  moreover have "host_len ?v \<le> length hosts"
    using h b(4) by (auto simp: host_len_def json_slice_def simp del: jget.simps)
  ultimately show thesis using that b(1,2) by (simp add: event_ok_def)
qed

section \<open>Results\<close>

text \<open>
  C12. Every host gets the last infra-env with its \<^verbatim>\<open>infra_env_id\<close> as \<^verbatim>\<open>infra_env\<close>, and is left
  as it is when it has none; nothing panics, although the loop compares interface values.
\<close>

theorem hosts_with_infra_envs:
  assumes "list_all wf_obj hosts" "list_all infra_env_ok ies"
  shows "getHostsWithEmbeddedInfraEnv (map Some hosts) (map Some ies) =
    Return (map (\<lambda>h. Some (case infra_env_of ies h of
      Some ie \<Rightarrow> mput ''infra_env'' (JObj ie) h | None \<Rightarrow> h)) hosts)"
  using hosts_embed [OF assms] by (simp add: embed_host_def)

definition sample_infra_env :: jobject where
  "sample_infra_env = [(''cpu_architecture'', JStr ''arm64''), (''id'', JStr ''e1'')]"

definition sample_lone_host :: jobject where
  "sample_lone_host = [(''id'', JStr ''h2''), (''infra_env_id'', JObj [])]"

definition sample_env_host :: jobject where
  "sample_env_host = [(''id'', JStr ''h1''), (''infra_env_id'', JStr ''e1'')]"

theorem hosts_with_infra_envs_witness:
  "getHostsWithEmbeddedInfraEnv [Some sample_env_host, Some sample_lone_host] [Some sample_infra_env] =
     Return [Some (mput ''infra_env'' (JObj sample_infra_env) sample_env_host), Some sample_lone_host]"
proof -
  have "list_all wf_obj [sample_env_host, sample_lone_host]" by code_simp
  moreover have "wf_obj sample_infra_env" by code_simp
  then have "list_all infra_env_ok [sample_infra_env]" by (simp add: infra_env_ok_def) (simp add: sample_infra_env_def)
  ultimately show ?thesis
    using hosts_with_infra_envs [of "[sample_env_host, sample_lone_host]" "[sample_infra_env]"]
    by (simp add: infra_env_of_def sample_env_host_def sample_lone_host_def sample_infra_env_def)
qed

end
