(* ===== verification/Consumer.thy ===== *)
theory Consumer
  imports ProjectionSpec
begin

text \<open>
  The consumer as a whole: \<^verbatim>\<open>Consume\<close> and \<^verbatim>\<open>listenForCommit\<close> of \<^verbatim>\<open>pkg/stream/reader.go\<close>
  around the projection, the ack channel between them, and the workers of the bulk indexer
  that call the callbacks of \<^verbatim>\<open>Store\<close>. The three run concurrently: a step relation lets
  them take turns in any order.
\<close>

section \<open>The bulk indexer\<close>

text \<open>
  \<^verbatim>\<open>Add\<close> queues the item or returns an error. The state is the list of queued items.
\<close>

locale bulk_indexer =
  fixes add :: "bulk_item list bulk_add"
  assumes add: "add b i = (b @ [i], False) \<or> add b i = (b, True)"
begin

lemma Store_cases:
  "Store add prefix b e msg = (b, True) \<or> (\<exists>i. Store add prefix b e msg = (b @ [i], False) \<and> bi_msg i = msg)"
  using add by (fastforce simp: Store_def split: option.split)

end

interpretation list_bulk: bulk_indexer list_add
  by unfold_locales (simp add: list_add_def)

text \<open>What the consumer needs of a projection: an item is queued with its message.\<close>

definition queues_items :: "('s, bulk_item list) projection \<Rightarrow> bool" where
  "queues_items p = (\<forall>b e msg. p_store p b e msg = (b, True) \<or>
     (\<exists>i. p_store p b e msg = (b @ [i], False) \<and> bi_msg i = msg))"

lemma queues_items_new:
  "bulk_indexer add \<Longrightarrow> queues_items (NewEnrichedEventsProjection env repo add prefix excluded)"
  by (simp add: queues_items_def NewEnrichedEventsProjection_def bulk_indexer.Store_cases)

section \<open>The steps\<close>

datatype consume_result = Quit | Fetch_failed | Process_stopped projection_error

text \<open>
  How the process can break: \<^verbatim>\<open>ProcessMessage\<close> panics, a channel is closed for the second
  time, or an item is sent to the queue of the bulk indexer after it was closed.
\<close>

datatype crash = Processing_panics | Closed_twice | Store_after_close

text \<open>
  \<^verbatim>\<open>Consume\<close> is at its select, waits in \<^verbatim>\<open>FetchMessage\<close>, sends what is left of the
  acknowledgements of a message, or has returned. The process has broken, or has ended with
  an exit code.
\<close>

datatype phase =
    Selecting
  | Fetching
  | Sending_acks "kafka_msg list" "projection_error option"
  | Returned consume_result
  | Crashed crash
  | Exited nat

fun running :: "phase \<Rightarrow> bool" where
  "running (Crashed x) = False"
| "running (Exited n) = False"
| "running ph = True"

text \<open>The goroutine \<^verbatim>\<open>gracefulShutdown\<close>: it waits for a signal, or is in one of the two \<^verbatim>\<open>Close\<close>.\<close>

datatype shutdown = Waiting | Closing_reader | Closing_projection

text \<open>
  \<^verbatim>\<open>main\<close> returns when \<^verbatim>\<open>Consume\<close> returned nil, and calls \<^verbatim>\<open>log.Fatal\<close> when it returned an
  error.
\<close>

fun exit_code :: "consume_result \<Rightarrow> nat" where
  "exit_code Quit = 0"
| "exit_code res = 1"

record 's reader =
  rd_quit :: bool
  rd_reader_closed :: bool
  rd_shutdown :: shutdown
  rd_bulk_closed :: bool
  rd_phase :: phase
  rd_next :: nat
  rd_snap :: 's
  rd_bulk :: "bulk_item list"
  rd_channel :: "kafka_msg list"
  rd_committed :: "kafka_msg list"
  rd_commit_failed :: "kafka_msg list"
  rd_indexed :: "bulk_item list"
  rd_index_failed :: "bulk_item list"
  rd_taken :: "kafka_msg list"

definition reader_start :: "'s \<Rightarrow> nat \<Rightarrow> 's reader" where
  "reader_start s n = \<lparr> rd_quit = False, rd_reader_closed = False, rd_shutdown = Waiting,
     rd_bulk_closed = False, rd_phase = Selecting, rd_next = n, rd_snap = s, rd_bulk = [], rd_channel = [], rd_committed = [], rd_commit_failed = [],
     rd_indexed = [], rd_index_failed = [], rd_taken = [] \<rparr>"

text \<open>The state in which \<^verbatim>\<open>ProcessMessage\<close> finds the projection; its sends come out as \<open>ps_acks\<close>.\<close>

definition projection_state :: "'s reader \<Rightarrow> ('s, bulk_item list) proj_state" where
  "projection_state r = \<lparr> ps_snap = rd_snap r, ps_bulk = rd_bulk r, ps_acks = [] \<rparr>"

text \<open>
  \<^verbatim>\<open>Close\<close> of the reader closes the channel \<^verbatim>\<open>quitChannel\<close>, which panics when it is closed
  already, and then calls \<^verbatim>\<open>Close\<close> of the reader of kafka-go (rule \<open>close_reader\<close> when that returns).
\<close>

definition KafkaReader_Close :: "'s reader \<Rightarrow> 's reader" where
  "KafkaReader_Close r =
     (if rd_quit r then r \<lparr> rd_phase := Crashed Closed_twice \<rparr>
      else r \<lparr> rd_quit := True, rd_shutdown := Closing_reader \<rparr>)"

text \<open>\<^verbatim>\<open>Close\<close> of the projection: the bulk indexer closes its queue and waits for the workers.\<close>

definition Projection_Close :: "'s reader \<Rightarrow> 's reader" where
  "Projection_Close r = r \<lparr> rd_bulk_closed := True, rd_shutdown := Closing_projection \<rparr>"

lemma Close_simps [simp]:
  "rd_bulk_closed (KafkaReader_Close r) = rd_bulk_closed r" "rd_reader_closed (KafkaReader_Close r) = rd_reader_closed r"
  "rd_quit (KafkaReader_Close r)"
  "rd_next (KafkaReader_Close r) = rd_next r" "rd_snap (KafkaReader_Close r) = rd_snap r"
  "rd_bulk (KafkaReader_Close r) = rd_bulk r" "rd_channel (KafkaReader_Close r) = rd_channel r"
  "rd_committed (KafkaReader_Close r) = rd_committed r" "rd_commit_failed (KafkaReader_Close r) = rd_commit_failed r"
  "rd_indexed (KafkaReader_Close r) = rd_indexed r" "rd_index_failed (KafkaReader_Close r) = rd_index_failed r"
  "rd_taken (KafkaReader_Close r) = rd_taken r"
  "rd_phase (KafkaReader_Close r) = (if rd_quit r then Crashed Closed_twice else rd_phase r)"
  by (simp_all add: KafkaReader_Close_def)

text \<open>
  \<open>topic n\<close> is the message at offset \<open>n\<close> of the partition, \<open>cap\<close> the room of the ack
  channel; a send waits until there is room. A signal first closes the reader, then the
  projection, whose bulk indexer closes its queue and waits for the workers; a message
  that is fetched meanwhile is still processed. The process ends with \<^verbatim>\<open>main\<close>, whatever
  the other goroutines are doing.

  \<open>rd_committed\<close> are the messages whose commit reaches the broker, \<open>rd_commit_failed\<close> the others
  that \<^verbatim>\<open>listenForCommit\<close> took from the channel. kafka-go sends what was passed to
  \<^verbatim>\<open>CommitMessages\<close> in intervals, for the last time while its \<^verbatim>\<open>Close\<close> waits for this; once \<^verbatim>\<open>Close\<close>
  has returned, \<^verbatim>\<open>CommitMessages\<close> returns \<^verbatim>\<open>io.ErrClosedPipe\<close> or leaves the message where nobody
  reads it, so no commit succeeds any more.
\<close>

inductive reader_step ::
  "('s, bulk_item list) projection \<Rightarrow> (nat \<Rightarrow> kafka_msg) \<Rightarrow> nat \<Rightarrow> 's reader \<Rightarrow> 's reader \<Rightarrow> bool"
  for p topic cap where
  signal: "running (rd_phase r) \<Longrightarrow> rd_shutdown r = Waiting \<Longrightarrow> reader_step p topic cap r (KafkaReader_Close r)"
| close_reader: "running (rd_phase r) \<Longrightarrow> rd_shutdown r = Closing_reader \<Longrightarrow> \<not> rd_reader_closed r \<Longrightarrow>
    reader_step p topic cap r (r \<lparr> rd_reader_closed := True \<rparr>)"
| close_projection: "running (rd_phase r) \<Longrightarrow> rd_shutdown r = Closing_reader \<Longrightarrow> rd_reader_closed r \<Longrightarrow>
    reader_step p topic cap r (Projection_Close r)"
| closed: "running (rd_phase r) \<Longrightarrow> rd_shutdown r = Closing_projection \<Longrightarrow> rd_bulk r = [] \<Longrightarrow>
    reader_step p topic cap r (r \<lparr> rd_shutdown := Waiting \<rparr>)"
| stop: "rd_phase r = Selecting \<Longrightarrow> rd_quit r \<Longrightarrow> reader_step p topic cap r (r \<lparr> rd_phase := Returned Quit \<rparr>)"
| select_default: "rd_phase r = Selecting \<Longrightarrow> \<not> rd_quit r \<Longrightarrow>
    reader_step p topic cap r (r \<lparr> rd_phase := Fetching \<rparr>)"
| fetch_failed: "rd_phase r = Fetching \<Longrightarrow>
    reader_step p topic cap r (r \<lparr> rd_phase := Returned Fetch_failed \<rparr>)"
| fetch: "rd_phase r = Fetching \<Longrightarrow>
    ProcessMessage p (projection_state r) (topic (rd_next r)) = Return (st, err) \<Longrightarrow>
    rd_bulk_closed r \<longrightarrow> ps_bulk st = rd_bulk r \<Longrightarrow>
    reader_step p topic cap r (r \<lparr> rd_phase := Sending_acks (ps_acks st) err, rd_next := Suc (rd_next r),
      rd_snap := ps_snap st, rd_bulk := ps_bulk st, rd_taken := rd_taken r @ [topic (rd_next r)] \<rparr>)"
| store_closed: "rd_phase r = Fetching \<Longrightarrow>
    ProcessMessage p (projection_state r) (topic (rd_next r)) = Return (st, err) \<Longrightarrow>
    rd_bulk_closed r \<Longrightarrow> ps_bulk st \<noteq> rd_bulk r \<Longrightarrow>
    reader_step p topic cap r (r \<lparr> rd_phase := Crashed Store_after_close \<rparr>)"
| crash: "rd_phase r = Fetching \<Longrightarrow>
    ProcessMessage p (projection_state r) (topic (rd_next r)) = Panic \<Longrightarrow>
    reader_step p topic cap r (r \<lparr> rd_phase := Crashed Processing_panics \<rparr>)"
| send_ack: "rd_phase r = Sending_acks (a # as) err \<Longrightarrow> length (rd_channel r) < cap \<Longrightarrow>
    reader_step p topic cap r (r \<lparr> rd_phase := Sending_acks as err, rd_channel := rd_channel r @ [a] \<rparr>)"
| message_done: "rd_phase r = Sending_acks [] None \<Longrightarrow> reader_step p topic cap r (r \<lparr> rd_phase := Selecting \<rparr>)"
| message_error: "rd_phase r = Sending_acks [] (Some err) \<Longrightarrow>
    reader_step p topic cap r (r \<lparr> rd_phase := Returned (Process_stopped err) \<rparr>)"
| main_ends: "rd_phase r = Returned res \<Longrightarrow>
    reader_step p topic cap r (r \<lparr> rd_phase := Exited (exit_code res) \<rparr>)"
| commit: "running (rd_phase r) \<Longrightarrow> \<not> rd_reader_closed r \<Longrightarrow> rd_channel r = m # ms \<Longrightarrow>
    reader_step p topic cap r (r \<lparr> rd_channel := ms, rd_committed := rd_committed r @ [m] \<rparr>)"
| commit_failed: "running (rd_phase r) \<Longrightarrow> rd_channel r = m # ms \<Longrightarrow>
    reader_step p topic cap r (r \<lparr> rd_channel := ms, rd_commit_failed := rd_commit_failed r @ [m] \<rparr>)"
| index_ok: "running (rd_phase r) \<Longrightarrow> rd_bulk r = xs @ i # ys \<Longrightarrow> length (rd_channel r) < cap \<Longrightarrow>
    reader_step p topic cap r (r \<lparr> rd_bulk := xs @ ys, rd_channel := OnSuccess i (rd_channel r),
      rd_indexed := rd_indexed r @ [i] \<rparr>)"
| index_failed: "running (rd_phase r) \<Longrightarrow> rd_bulk r = xs @ i # ys \<Longrightarrow>
    reader_step p topic cap r (r \<lparr> rd_bulk := xs @ ys, rd_channel := OnFailure i (rd_channel r),
      rd_index_failed := rd_index_failed r @ [i] \<rparr>)"
| time_passes: "running (rd_phase r) \<Longrightarrow>
    reader_step p topic cap r (r \<lparr> rd_snap := p_later p t (rd_snap r) \<rparr>)"

inductive reader_reachable ::
  "('s, bulk_item list) projection \<Rightarrow> (nat \<Rightarrow> kafka_msg) \<Rightarrow> nat \<Rightarrow> 's reader \<Rightarrow> 's reader \<Rightarrow> bool"
  for p topic cap r0 where
  start: "reader_reachable p topic cap r0 r0"
| step: "reader_reachable p topic cap r0 r \<Longrightarrow> reader_step p topic cap r r' \<Longrightarrow> reader_reachable p topic cap r0 r'"

text \<open>The loop takes the next message while nobody has closed anything.\<close>

lemma take_message:
  assumes "reader_reachable p topic cap r0 r" "rd_phase r = Selecting" "\<not> rd_quit r" "\<not> rd_bulk_closed r"
    "ProcessMessage p (projection_state r) (topic (rd_next r)) = Return (st, err)"
  shows "reader_reachable p topic cap r0 (r \<lparr> rd_phase := Sending_acks (ps_acks st) err,
    rd_next := Suc (rd_next r), rd_snap := ps_snap st, rd_bulk := ps_bulk st,
    rd_taken := rd_taken r @ [topic (rd_next r)] \<rparr>)"
proof -
  let ?r = "r \<lparr> rd_phase := Fetching \<rparr>"
  have "reader_reachable p topic cap r0 ?r"
    by (rule reader_reachable.step [OF assms(1) select_default [OF assms(2,3)]])
  moreover have "ProcessMessage p (projection_state ?r) (topic (rd_next ?r)) = Return (st, err)"
    using assms(5) by (simp add: projection_state_def)
  ultimately show ?thesis
    using reader_reachable.step [OF _ fetch [of ?r p topic st err cap]] assms(4) by fastforce
qed

section \<open>Invariants\<close>

lemma ProcessMessage_bulk:
  assumes "ProcessMessage p st msg = Return (st', err)" "queues_items p"
  shows "ps_bulk st' = ps_bulk st \<or> (\<exists>i. ps_bulk st' = ps_bulk st @ [i] \<and> bi_msg i = msg \<and> ack_times msg = 0)"
proof (cases msg rule: message_cases)
  case (cluster_event e c)
  obtain cluster hosts infraEnvs where s: "snapshot_of p st c = (cluster, hosts, infraEnvs)"
    by (cases "snapshot_of p st c") blast
  have a: "ack_times msg = 0" using cluster_event by (simp add: ack_times_def)
  show ?thesis
  proof (cases "p_enrich p e cluster hosts infraEnvs")
    case (Return ee)
    have "p_store p (ps_bulk st) ee msg = (ps_bulk st, True) \<or>
        (\<exists>i. p_store p (ps_bulk st) ee msg = (ps_bulk st @ [i], False) \<and> bi_msg i = msg)"
      using assms(2) by (simp add: queues_items_def)
    then show ?thesis
      using assms(1) cluster_event ProcessEvent_cluster [OF cluster_event(2,3) s, of msg] Return a
      by (auto simp: ProcessMessage_def split: if_splits)
  next
    case Panic
    then show ?thesis
      using assms(1) cluster_event ProcessEvent_cluster [OF cluster_event(2,3) s, of msg]
      by (auto simp: ProcessMessage_def split: if_splits)
  qed
next
  case undecodable
  then show ?thesis using assms by (auto simp: ProcessMessage_def ackMsg_def)
next
  case (state e x)
  then show ?thesis
    using assms ProcessEvent_state [OF state(2,3), of p st msg] by (auto simp: ProcessMessage_def)
next
  case (bad_state e)
  then show ?thesis
    using assms ProcessEvent_malformed_state [OF bad_state(2,3), of p st msg] by (auto simp: ProcessMessage_def)
next
  case (bad_event e)
  then show ?thesis
    using assms ProcessEvent_malformed_cluster [OF bad_event(2,3), of p st msg] by (auto simp: ProcessMessage_def)
next
  case (unknown e)
  then show ?thesis
    using assms ProcessEvent_unknown [OF unknown(2,3), of p st msg] by (auto simp: ProcessMessage_def)
qed

text \<open>The acknowledgements on their way, and those a list of messages gives by itself.\<close>

definition outbox :: "phase \<Rightarrow> kafka_msg list" where
  "outbox ph = (case ph of Sending_acks as err \<Rightarrow> as | _ \<Rightarrow> [])"

definition own_acks :: "kafka_msg list \<Rightarrow> kafka_msg list" where
  "own_acks ms = concat (map (\<lambda>m. replicate (ack_times m) m) ms)"

definition acks_given :: "'s reader \<Rightarrow> kafka_msg multiset" where
  "acks_given r = mset (rd_channel r) + mset (rd_committed r) + mset (rd_commit_failed r) + mset (outbox (rd_phase r))"

definition acks_due :: "'s reader \<Rightarrow> kafka_msg multiset" where
  "acks_due r = mset (own_acks (rd_taken r)) + mset (map bi_msg (rd_indexed r))"

text \<open>A crash loses the acknowledgements that were not sent yet.\<close>

definition acks_accounted :: "'s reader \<Rightarrow> bool" where
  "acks_accounted r = (acks_given r \<subseteq># acks_due r \<and>
     ((\<forall>x. rd_phase r \<noteq> Crashed x) \<longrightarrow> acks_given r = acks_due r))"

definition items_of_taken :: "'s reader \<Rightarrow> bool" where
  "items_of_taken r = (\<forall>i\<in>set (rd_bulk r) \<union> set (rd_indexed r) \<union> set (rd_index_failed r).
     bi_msg i \<in> set (rd_taken r) \<and> ack_times (bi_msg i) = 0)"

lemma acks_accountedI: "acks_given r = acks_due r \<Longrightarrow> acks_accounted r"
  by (simp add: acks_accounted_def)

lemma step_acks: "reader_step p topic cap r r' \<Longrightarrow> acks_accounted r \<Longrightarrow> acks_accounted r'"
proof (induction rule: reader_step.induct)
  case (fetch r st err)
  have "ps_acks st = replicate (ack_times (topic (rd_next r))) (topic (rd_next r))"
    using ProcessMessage_acks [OF fetch(2)] by (simp add: projection_state_def)
  then show ?case
    using fetch by (simp add: acks_accounted_def acks_given_def acks_due_def outbox_def own_acks_def)
next
  case (signal r)
  have "acks_given (KafkaReader_Close r) \<subseteq># acks_given r" by (simp add: acks_given_def outbox_def)
  moreover have "\<not> rd_quit r \<longrightarrow> acks_given (KafkaReader_Close r) = acks_given r" by (simp add: acks_given_def)
  moreover have "acks_given r \<subseteq># acks_due r" "acks_due (KafkaReader_Close r) = acks_due r"
    using signal by (simp_all add: acks_accounted_def acks_due_def)
  ultimately show ?case
    using signal(3) unfolding acks_accounted_def by (auto intro: subset_mset.order_trans)
next
  case (index_ok r xs i ys)
  then have "acks_given r = acks_due r" by (auto simp: acks_accounted_def)
  then show ?case
    by (intro acks_accountedI) (simp add: acks_given_def acks_due_def OnSuccess_def)
qed (auto simp: acks_accounted_def acks_given_def acks_due_def outbox_def OnFailure_def Projection_Close_def split: phase.splits)

lemma step_items:
  assumes "queues_items p"
  shows "reader_step p topic cap r r' \<Longrightarrow> items_of_taken r \<Longrightarrow> items_of_taken r'"
proof (induction rule: reader_step.induct)
  case (fetch r st err)
  have "ps_bulk st = rd_bulk r \<or> (\<exists>i. ps_bulk st = rd_bulk r @ [i] \<and> bi_msg i = topic (rd_next r) \<and>
      ack_times (topic (rd_next r)) = 0)"
    using ProcessMessage_bulk [OF fetch(2) assms] by (simp add: projection_state_def)
  then show ?case using fetch by (auto simp: items_of_taken_def)
qed (auto simp: items_of_taken_def Projection_Close_def)

text \<open>Each message is queued at most as often as it was taken.\<close>

definition items_counted :: "'s reader \<Rightarrow> bool" where
  "items_counted r =
     (\<forall>m. count_list (map bi_msg (rd_bulk r)) m + count_list (map bi_msg (rd_indexed r)) m
        + count_list (map bi_msg (rd_index_failed r)) m \<le> count_list (rd_taken r) m)"

lemma step_counted:
  assumes "queues_items p"
  shows "reader_step p topic cap r r' \<Longrightarrow> items_counted r \<Longrightarrow> items_counted r'"
proof (induction rule: reader_step.induct)
  case (fetch r st err)
  have "ps_bulk st = rd_bulk r \<or> (\<exists>i. ps_bulk st = rd_bulk r @ [i] \<and> bi_msg i = topic (rd_next r))"
    using ProcessMessage_bulk [OF fetch(2) assms] by (auto simp: projection_state_def)
  then show ?case using fetch by (auto simp: items_counted_def intro: le_SucI)
next
  case (index_ok r xs i ys)
  have "?case \<longleftrightarrow> items_counted r" by (simp add: items_counted_def index_ok(2))
  with index_ok show ?case by simp
next
  case (index_failed r xs i ys)
  have "?case \<longleftrightarrow> items_counted r" by (simp add: items_counted_def index_failed(2))
  with index_failed show ?case by simp
qed (auto simp: items_counted_def Projection_Close_def)

lemma step_channel: "reader_step p topic cap r r' \<Longrightarrow> length (rd_channel r) \<le> cap \<Longrightarrow> length (rd_channel r') \<le> cap"
  by (induction rule: reader_step.induct) (simp_all add: OnSuccess_def OnFailure_def Projection_Close_def)

lemma reachable_inv:
  assumes "reader_reachable p topic cap (reader_start s n) r" "queues_items p"
  shows "acks_accounted r \<and> items_of_taken r \<and> items_counted r \<and> length (rd_channel r) \<le> cap"
  using assms(1)
proof (induction rule: reader_reachable.induct)
  case start
  show ?case by (simp add: reader_start_def acks_accounted_def acks_given_def acks_due_def items_of_taken_def
        items_counted_def outbox_def own_acks_def)
next
  case (step r r')
  then show ?case using step_acks step_items [OF assms(2)] step_counted [OF assms(2)] step_channel by blast
qed

text \<open>What happens only after a signal.\<close>

definition shutdown_inv :: "'s reader \<Rightarrow> bool" where
  "shutdown_inv r =
     ((rd_reader_closed r \<or> rd_shutdown r \<noteq> Waiting \<longrightarrow> rd_quit r) \<and> (rd_bulk_closed r \<longrightarrow> rd_reader_closed r) \<and>
      (rd_phase r = Crashed Store_after_close \<longrightarrow> rd_bulk_closed r) \<and>
      (rd_phase r \<in> {Crashed Closed_twice, Crashed Store_after_close, Returned Quit, Exited 0} \<longrightarrow> rd_quit r))"

lemma exit_code_Quit: "exit_code res = 0 \<longleftrightarrow> res = Quit"
  by (cases res) simp_all

lemma step_shutdown: "reader_step p topic cap r r' \<Longrightarrow> shutdown_inv r \<Longrightarrow> shutdown_inv r'"
  by (induction rule: reader_step.induct) (auto simp: shutdown_inv_def exit_code_Quit Projection_Close_def)

lemma broken_closing:
  "shutdown_inv r \<Longrightarrow> rd_phase r = Crashed x \<Longrightarrow> x \<noteq> Processing_panics \<Longrightarrow>
     rd_quit r \<and> (x = Closed_twice \<or> x = Store_after_close \<and> rd_bulk_closed r)"
  by (cases x) (simp_all add: shutdown_inv_def)

text \<open>Once the reader of kafka-go is closed, it stays so, and the committed messages stay as they are.\<close>

lemma step_closed:
  "reader_step p topic cap r r' \<Longrightarrow> rd_reader_closed r \<Longrightarrow> rd_reader_closed r' \<and> rd_committed r' = rd_committed r"
  by (induction rule: reader_step.induct) (simp_all add: Projection_Close_def)

lemma closed_commits_nothing:
  "reader_reachable p topic cap r r' \<Longrightarrow> rd_reader_closed r \<Longrightarrow> rd_reader_closed r' \<and> rd_committed r' = rd_committed r"
proof (induction rule: reader_reachable.induct)
  case (step r1 r2)
  then show ?case using step_closed [OF step.hyps(2)] by simp
qed simp

lemma own_acks_mem: "m \<in> set (own_acks ms) \<longleftrightarrow> m \<in> set ms \<and> ack_times m \<noteq> 0"
  by (auto simp: own_acks_def)

lemma committed_origin:
  assumes "acks_accounted r" "m \<in> set (rd_committed r)"
  shows "m \<in> set (own_acks (rd_taken r)) \<or> m \<in> set (map bi_msg (rd_indexed r))"
proof -
  have "m \<in># acks_given r" using assms(2) by (simp add: acks_given_def)
  then have "m \<in># acks_due r" using assms(1) by (auto simp: acks_accounted_def dest: mset_subset_eqD)
  then show ?thesis by (simp add: acks_due_def)
qed

lemma committed_indexed:
  assumes "acks_accounted r" "items_of_taken r" "m \<in> set (rd_committed r)"
  shows "m \<in> set (rd_taken r) \<and> (ack_times m = 0 \<longrightarrow> (\<exists>i\<in>set (rd_indexed r). bi_msg i = m))"
  using committed_origin [OF assms(1,3)] assms(2) by (auto simp: own_acks_mem items_of_taken_def)

section \<open>Results\<close>

text \<open>
  C3. In every interleaving of the consuming loop, the committing goroutine and the bulk
  indexer, a message is committed only after it was taken, and a cluster event with a
  cluster only after its own document was indexed.
\<close>

theorem commit_after_index:
  assumes "reader_reachable p topic cap (reader_start s n) r" "queues_items p" "m \<in> set (rd_committed r)"
  shows "m \<in> set (rd_taken r) \<and> (ack_times m = 0 \<longrightarrow> (\<exists>i\<in>set (rd_indexed r). bi_msg i = m))"
  using reachable_inv [OF assms(1,2)] committed_indexed [OF _ _ assms(3)] by blast

text \<open>
  C17. No acknowledgement is lost or made up: what is in the channel, committed, failed to
  commit or still to be sent is what the messages taken give by themselves and one for
  every indexed document; only when the process breaks some may be missing. The channel
  never holds more than its room.
\<close>

theorem acknowledgements_accounted:
  assumes "reader_reachable p topic cap (reader_start s n) r" "queues_items p"
  shows "acks_given r \<subseteq># acks_due r \<and> ((\<forall>x. rd_phase r \<noteq> Crashed x) \<longrightarrow> acks_given r = acks_due r) \<and>
    length (rd_channel r) \<le> cap"
  using reachable_inv [OF assms] by (simp add: acks_accounted_def)

text \<open>
  A message whose document could not be indexed is not committed itself, if it was taken
  once.
\<close>

lemma failed_document_not_committed:
  assumes "reader_reachable p topic cap (reader_start s n) r" "queues_items p"
    "i \<in> set (rd_index_failed r)" "count_list (rd_taken r) (bi_msg i) \<le> 1"
  shows "bi_msg i \<notin> set (rd_committed r)"
proof
  assume c: "bi_msg i \<in> set (rd_committed r)"
  have inv: "acks_accounted r" "items_of_taken r" "items_counted r" using reachable_inv [OF assms(1,2)] by simp_all
  have "ack_times (bi_msg i) = 0" using inv(2) assms(3) by (simp add: items_of_taken_def)
  then have "bi_msg i \<in> set (map bi_msg (rd_indexed r))"
    using committed_origin [OF inv(1) c] by (auto simp: own_acks_mem)
  then have "1 \<le> count_list (map bi_msg (rd_indexed r)) (bi_msg i)"
    by (simp add: count_list_0_iff Suc_le_eq flip: neq0_conv)
  moreover have "1 \<le> count_list (map bi_msg (rd_index_failed r)) (bi_msg i)"
    using assms(3) by (simp add: count_list_0_iff Suc_le_eq flip: neq0_conv)
  moreover have "count_list (map bi_msg (rd_bulk r)) (bi_msg i) + count_list (map bi_msg (rd_indexed r)) (bi_msg i)
      + count_list (map bi_msg (rd_index_failed r)) (bi_msg i) \<le> count_list (rd_taken r) (bi_msg i)"
    using inv(3) by (simp add: items_counted_def)
  ultimately show False using assms(4) by linarith
qed

text \<open>
  The offset of the group after a restart: a commit of a message is a commit of its
  offset, and covers all messages before it.
\<close>

definition committed_offset :: "kafka_msg list \<Rightarrow> nat" where
  "committed_offset ms = fold max (map (\<lambda>m. Suc (km_offset m)) ms) 0"

definition group_offset :: "'s reader \<Rightarrow> nat" where
  "group_offset r = committed_offset (rd_committed r)"

lemma skipped_reachable:
  assumes "0 < cap" "km_offset (topic (Suc n)) = Suc n"
    "ProcessMessage p \<lparr> ps_snap = s, ps_bulk = [], ps_acks = [] \<rparr> (topic n) =
       Return (\<lparr> ps_snap = s1, ps_bulk = [i1], ps_acks = [] \<rparr>, None)"
    "ProcessMessage p \<lparr> ps_snap = s1, ps_bulk = [], ps_acks = [] \<rparr> (topic (Suc n)) =
       Return (\<lparr> ps_snap = s2, ps_bulk = [i2], ps_acks = [] \<rparr>, None)"
    "bi_msg i2 = topic (Suc n)"
  shows "\<exists>r. reader_reachable p topic cap (reader_start s n) r \<and>
    rd_taken r = [topic n, topic (Suc n)] \<and> rd_index_failed r = [i1] \<and> rd_committed r = [topic (Suc n)] \<and>
    n < group_offset r"
proof -
  let ?R = "reader_start s n"
  define r1 where "r1 = ?R \<lparr> rd_phase := Sending_acks [] None, rd_next := Suc n, rd_snap := s1, rd_bulk := [i1],
    rd_taken := [topic n] \<rparr>"
  define r2 where "r2 = r1 \<lparr> rd_phase := Selecting \<rparr>"
  define r3 where "r3 = r2 \<lparr> rd_bulk := [], rd_index_failed := [i1] \<rparr>"
  define r4 where "r4 = r3 \<lparr> rd_phase := Sending_acks [] None, rd_next := Suc (Suc n), rd_snap := s2, rd_bulk := [i2],
    rd_taken := [topic n, topic (Suc n)] \<rparr>"
  define r5 where "r5 = r4 \<lparr> rd_bulk := [], rd_channel := [topic (Suc n)], rd_indexed := [i2] \<rparr>"
  define r6 where "r6 = r5 \<lparr> rd_channel := [], rd_committed := [topic (Suc n)] \<rparr>"
  note defs = r1_def r2_def r3_def r4_def r5_def r6_def reader_start_def projection_state_def
  have "reader_reachable p topic cap ?R r1"
    using take_message [OF reader_reachable.start, of ?R p topic _ None cap] assms(3) by (simp add: defs)
  moreover have "reader_step p topic cap r1 r2" using message_done [of r1 p topic cap] by (simp add: defs)
  moreover have "reader_step p topic cap r2 r3"
    using index_failed [of r2 "[]" i1 "[]" p topic cap] by (simp add: defs OnFailure_def)
  ultimately have "reader_reachable p topic cap ?R r3" by (meson reader_reachable.step)
  then have "reader_reachable p topic cap ?R r4"
    using take_message [of p topic cap ?R r3 _ None] assms(4) by (simp add: defs)
  moreover have "reader_step p topic cap r4 r5"
    using index_ok [of r4 "[]" i2 "[]" cap p topic] assms(1,5) by (simp add: defs OnSuccess_def)
  moreover have "reader_step p topic cap r5 r6"
    using commit [of r5 "topic (Suc n)" "[]" p topic cap] by (simp add: defs)
  ultimately have "reader_reachable p topic cap ?R r6"
    by (meson reader_reachable.step)
  then show ?thesis using assms(2) by (intro exI [of _ r6]) (simp add: defs group_offset_def committed_offset_def)
qed

text \<open>
  C33. The document of a cluster event can be lost: when the first of two events cannot be indexed and the
  second can, the commit of the second moves the offset of the group past the first, which
  is never read again.
\<close>

theorem failed_document_skipped:
  assumes "0 < cap" "km_offset (topic (Suc n)) = Suc n"
    "ProcessMessage p \<lparr> ps_snap = s, ps_bulk = [], ps_acks = [] \<rparr> (topic n) =
       Return (\<lparr> ps_snap = s1, ps_bulk = [i1], ps_acks = [] \<rparr>, None)"
    "ProcessMessage p \<lparr> ps_snap = s1, ps_bulk = [], ps_acks = [] \<rparr> (topic (Suc n)) =
       Return (\<lparr> ps_snap = s2, ps_bulk = [i2], ps_acks = [] \<rparr>, None)"
    "bi_msg i2 = topic (Suc n)"
  shows "\<exists>r. reader_reachable p topic cap (reader_start s n) r \<and>
    rd_taken r = [topic n, topic (Suc n)] \<and> rd_index_failed r = [i1] \<and> rd_committed r = [topic (Suc n)] \<and>
    n < group_offset r"
  by (rule skipped_reachable [OF assms])

text \<open>
  An error of \<^verbatim>\<open>ProcessMessage\<close> ends the loop: once \<^verbatim>\<open>Consume\<close> has returned, no
  further message is taken.
\<close>

fun consuming :: "phase \<Rightarrow> bool" where
  "consuming Selecting = True"
| "consuming Fetching = True"
| "consuming (Sending_acks as err) = True"
| "consuming ph = False"

lemma step_returned:
  "reader_step p topic cap r r' \<Longrightarrow> \<not> consuming (rd_phase r) \<Longrightarrow> \<not> consuming (rd_phase r') \<and> rd_taken r' = rd_taken r"
  by (induction rule: reader_step.induct) (simp_all add: Projection_Close_def)

lemma returned_takes_nothing:
  assumes "reader_reachable p topic cap r r'" "\<not> consuming (rd_phase r)"
  shows "\<not> consuming (rd_phase r') \<and> rd_taken r' = rd_taken r"
  using assms by (induction rule: reader_reachable.induct) (auto dest: step_returned)

section \<open>The results at a concrete run\<close>

text \<open>A projection whose enricher gives the same event always, and a topic of two events.\<close>

definition simple_projection :: "(mem_store, bulk_item list) projection" where
  "simple_projection = sample_projection \<lparr> p_enrich := (\<lambda>e c hs is. Return zero_enriched) \<rparr>"

definition two_events :: "nat \<Rightarrow> kafka_msg" where
  "two_events n = (text_msg (named_event ''Event'')) \<lparr> km_offset := n \<rparr>"

definition event_item :: "nat \<Rightarrow> bulk_item" where
  "event_item n = \<lparr> bi_index = getIndexName ''events-'' zero_enriched, bi_document_id = [], bi_action = ''index'',
     bi_body = jprint (enriched_json zero_enriched), bi_msg = two_events n \<rparr>"

lemma simple_queues: "queues_items simple_projection"
  using list_bulk.Store_cases
  by (simp add: queues_items_def simple_projection_def sample_projection_def NewEnrichedEventsProjection_def)

lemma two_events_get: "getEventFromMessage (two_events n) = Some (named_event ''Event'')"
  by (rule getEvent_event_json [OF named_event_wf(2)]) (simp add: two_events_def text_msg_def)

lemma two_events_process:
  "ProcessMessage simple_projection \<lparr> ps_snap = mem_empty, ps_bulk = b, ps_acks = as \<rparr> (two_events n) =
     Return (\<lparr> ps_snap = mem_empty, ps_bulk = b @ [event_item n], ps_acks = as \<rparr>, None)"
proof -
  let ?st = "\<lparr> ps_snap = mem_empty, ps_bulk = b, ps_acks = as \<rparr>"
  have s: "snapshot_of simple_projection ?st ''c'' = (Some [], [], [])"
    by (simp add: snapshot_of_def simple_projection_def snapshot_store_of_def GetCluster_def GetHosts_def
        GetInfraEnvs_def mem_repository_def NewSnapshotRepository_def mem_redis_def mem_hash_def mem_fields_def mem_empty_def
        map_range_def mkeys_def)
  have enr: "p_enrich simple_projection e c hs is = Return zero_enriched" for e c hs "is"
    by (simp add: simple_projection_def)
  have st: "p_store simple_projection b zero_enriched (two_events n) = (b @ [event_item n], False)"
  proof -
    have "jfinite (enriched_json zero_enriched)"
      by (simp add: enriched_json_def zero_enriched_def opt_json_def props_json_def)
    then show ?thesis
      by (simp add: simple_projection_def sample_projection_def NewEnrichedEventsProjection_def Store_def
          json_Marshal_def list_add_def event_item_def) (simp add: zero_enriched_def)
  qed
  have "ev_name (named_event ''Event'') = ''Event''" "payload_value ''cluster_id'' (named_event ''Event'') = Some ''c''"
    by (simp_all add: named_event_def payload_value_def)
  from ProcessEvent_cluster [OF this s, of "two_events n"] show ?thesis
    by (simp add: ProcessMessage_def two_events_get st enr skipEvent_def)
qed

lemma skipped_run:
  obtains r where "reader_reachable simple_projection two_events 1 (reader_start mem_empty 0) r"
    "rd_taken r = [two_events 0, two_events 1]" "rd_index_failed r = [event_item 0]"
    "rd_committed r = [two_events 1]"
proof -
  have "\<exists>r. reader_reachable simple_projection two_events 1 (reader_start mem_empty 0) r \<and>
      rd_taken r = [two_events 0, two_events (Suc 0)] \<and> rd_index_failed r = [event_item 0] \<and>
      rd_committed r = [two_events (Suc 0)] \<and> 0 < group_offset r"
    by (rule skipped_reachable [where s = mem_empty and ?s1.0 = mem_empty and ?s2.0 = mem_empty and ?i2.0 = "event_item 1"])
      (simp_all add: two_events_process, simp_all add: two_events_def event_item_def)
  then show thesis using that by auto
qed

theorem failed_document_skipped_witness:
  "\<exists>r. reader_reachable simple_projection two_events 1 (reader_start mem_empty 0) r \<and>
     rd_index_failed r = [event_item 0] \<and> rd_committed r = [two_events 1] \<and> 0 < group_offset r"
proof -
  have "\<exists>r. reader_reachable simple_projection two_events 1 (reader_start mem_empty 0) r \<and>
      rd_taken r = [two_events 0, two_events (Suc 0)] \<and> rd_index_failed r = [event_item 0] \<and>
      rd_committed r = [two_events (Suc 0)] \<and> 0 < group_offset r"
    by (rule failed_document_skipped [where s = mem_empty and ?s1.0 = mem_empty and ?s2.0 = mem_empty and ?i2.0 = "event_item 1"])
      (simp_all add: two_events_process, simp_all add: two_events_def event_item_def)
  then show ?thesis by auto
qed

theorem commit_after_index_witness:
  "\<exists>r i. reader_reachable simple_projection two_events 1 (reader_start mem_empty 0) r \<and>
     rd_committed r = [two_events 1] \<and> i \<in> set (rd_indexed r) \<and> bi_msg i = two_events 1"
proof -
  obtain r where r: "reader_reachable simple_projection two_events 1 (reader_start mem_empty 0) r"
    "rd_committed r = [two_events 1]" by (rule skipped_run)
  have "ack_times (two_events 1) = 0"
    by (simp add: ack_times_def two_events_get) (simp add: named_event_def payload_value_def)
  with commit_after_index [OF r(1) simple_queues, of "two_events 1"] r show ?thesis by auto
qed

theorem acknowledgements_accounted_witness:
  "\<exists>r :: mem_store reader. rd_taken r = [two_events 0, two_events 1] \<and>
     acks_given r \<subseteq># acks_due r \<and> length (rd_channel r) \<le> 1"
proof -
  obtain r where r: "reader_reachable simple_projection two_events 1 (reader_start mem_empty 0) r"
    "rd_taken r = [two_events 0, two_events 1]" by (rule skipped_run)
  from acknowledgements_accounted [OF r(1) simple_queues] r(2) show ?thesis by (intro exI [of _ r]) simp
qed

end
