(* ===== verification/ConsumerGroup.thy ===== *)
theory ConsumerGroup
  imports Consumer
begin

text \<open>
  The consumers of a group: each reads its own partition with its own loop, channel and bulk
  indexer (\<open>Consumer\<close>), and all share the snapshots in redis. Replicas come and go, a new one
  takes over a partition at whatever offset was committed, and their steps interleave in any
  order. A message is processed in one step.
\<close>

section \<open>The group\<close>

text \<open>
  All replicas that ever ran, whether they still do; the snapshots they see are \<open>gr_snap\<close>.
  \<open>topics i n\<close> is the message at offset \<open>n\<close> of the partition of replica \<open>i\<close>.
\<close>

record 's group =
  gr_snap :: 's
  gr_replicas :: "'s reader list"

inductive group_step ::
  "('s, bulk_item list) projection \<Rightarrow> (nat \<Rightarrow> nat \<Rightarrow> kafka_msg) \<Rightarrow> nat \<Rightarrow> 's group \<Rightarrow> 's group \<Rightarrow> bool"
  for p topics cap where
  replica_starts: "group_step p topics cap g (g \<lparr> gr_replicas := gr_replicas g @ [reader_start (gr_snap g) n] \<rparr>)"
| replica_runs: "i < length (gr_replicas g) \<Longrightarrow>
    reader_step p (topics i) cap ((gr_replicas g ! i) \<lparr> rd_snap := gr_snap g \<rparr>) r' \<Longrightarrow>
    group_step p topics cap g (g \<lparr> gr_snap := rd_snap r', gr_replicas := (gr_replicas g) [i := r'] \<rparr>)"
| no_replica_runs: "group_step p topics cap g (g \<lparr> gr_snap := p_later p t (gr_snap g) \<rparr>)"

inductive group_reachable ::
  "('s, bulk_item list) projection \<Rightarrow> (nat \<Rightarrow> nat \<Rightarrow> kafka_msg) \<Rightarrow> nat \<Rightarrow> 's \<Rightarrow> 's group \<Rightarrow> bool"
  for p topics cap s where
  group_empty: "group_reachable p topics cap s \<lparr> gr_snap = s, gr_replicas = [] \<rparr>"
| group_moves: "group_reachable p topics cap s g \<Longrightarrow> group_step p topics cap g g' \<Longrightarrow> group_reachable p topics cap s g'"

text \<open>The messages that all replicas have taken together.\<close>

definition group_taken :: "'s group \<Rightarrow> nat" where
  "group_taken g = sum_list (map (\<lambda>r. length (rd_taken r)) (gr_replicas g))"

section \<open>From a replica to the group\<close>

text \<open>What holds of a replica whatever happens to the snapshots holds of all in the group.\<close>

lemma group_replicas:
  assumes "\<And>s n. P (reader_start s n)" "\<And>r s. P r \<Longrightarrow> P (r \<lparr> rd_snap := s \<rparr>)"
    "\<And>i r r'. reader_step p (topics i) cap r r' \<Longrightarrow> P r \<Longrightarrow> P r'"
  shows "group_reachable p topics cap s g \<Longrightarrow> r \<in> set (gr_replicas g) \<Longrightarrow> P r"
proof (induction arbitrary: r rule: group_reachable.induct)
  case (group_moves g g')
  show ?case
    using group_moves.hyps(2)
  proof cases
    case (replica_runs i r')
    then have "P r'" using assms(2,3) group_moves.IH by (meson nth_mem)
    with replica_runs(1) group_moves.IH group_moves.prems show ?thesis
      by (auto dest!: subsetD [OF set_update_subset_insert])
  qed (use group_moves assms(1) in auto)
qed simp

lemma group_reader_inv:
  assumes "group_reachable p topics cap s g" "queues_items p" "r \<in> set (gr_replicas g)"
  shows "acks_accounted r \<and> items_of_taken r \<and> length (rd_channel r) \<le> cap \<and> shutdown_inv r"
proof (rule group_replicas [OF _ _ _ assms(1,3)])
  show "acks_accounted r' \<and> items_of_taken r' \<and> length (rd_channel r') \<le> cap \<and> shutdown_inv r'"
    if "reader_step p (topics i) cap r r'"
      "acks_accounted r \<and> items_of_taken r \<and> length (rd_channel r) \<le> cap \<and> shutdown_inv r" for i r r'
    using that step_acks step_items [OF assms(2)] step_channel step_shutdown by blast
qed (simp_all add: reader_start_def acks_accounted_def acks_given_def acks_due_def items_of_taken_def outbox_def
    own_acks_def shutdown_inv_def)

text \<open>A step takes at most one message.\<close>

lemma step_taken: "reader_step p topic cap r r' \<Longrightarrow> length (rd_taken r) \<le> length (rd_taken r')"
  by (induction rule: reader_step.induct) (simp_all add: Projection_Close_def)

lemma group_taken_runs:
  assumes "i < length (gr_replicas g)" "length (rd_taken (gr_replicas g ! i)) \<le> length (rd_taken r')"
  shows "group_taken (g \<lparr> gr_snap := s, gr_replicas := (gr_replicas g) [i := r'] \<rparr>) =
    group_taken g + (length (rd_taken r') - length (rd_taken (gr_replicas g ! i)))"
  using assms elem_le_sum_list [of i "map (\<lambda>r. length (rd_taken r)) (gr_replicas g)"]
  by (simp add: group_taken_def map_update sum_list_update)

lemma group_taken_mono: "group_step p topics cap g g' \<Longrightarrow> group_taken g \<le> group_taken g'"
proof (induction rule: group_step.induct)
  case (replica_runs i g r')
  then show ?case using step_taken [OF replica_runs(2)] group_taken_runs [OF replica_runs(1)] by simp
qed (simp_all add: group_taken_def reader_start_def)

text \<open>A run of one consumer is a run of a group.\<close>

lemma group_of_one:
  "reader_reachable p topic cap (reader_start s n) r \<Longrightarrow>
     group_reachable p (\<lambda>i. topic) cap s \<lparr> gr_snap = rd_snap r, gr_replicas = [r] \<rparr>"
proof (induction rule: reader_reachable.induct)
  case start
  have "group_reachable p (\<lambda>i. topic) cap s (\<lparr> gr_snap = s, gr_replicas = [] \<rparr> \<lparr> gr_replicas := [reader_start s n] \<rparr>)"
    using group_moves [OF group_empty replica_starts [of p "\<lambda>i. topic" cap "\<lparr> gr_snap = s, gr_replicas = [] \<rparr>" n]] by simp
  then show ?case by (simp add: reader_start_def)
next
  case (step r r')
  then have "group_step p (\<lambda>i. topic) cap \<lparr> gr_snap = rd_snap r, gr_replicas = [r] \<rparr> \<lparr> gr_snap = rd_snap r', gr_replicas = [r'] \<rparr>"
    using replica_runs [of 0 "\<lparr> gr_snap = rd_snap r, gr_replicas = [r] \<rparr>" p "\<lambda>i. topic" cap r'] by simp
  with step.IH show ?case by (rule group_moves)
qed

end
