(* ===== verification/SystemSafety.thy ===== *)
theory SystemSafety
  imports BaseEvent ConsumerGroup
begin

text \<open>
  The consumer put together: projection, enricher, snapshot repository and bulk indexer as
  \<^verbatim>\<open>NewEnrichedEventsProjectionFromEnv\<close> connects them. Over all interleavings, on tame
  messages, processing never panics, and no document handed to opensearch has one of the keys
  under which secrets and user names come, at the places \<open>secret_keys_absent\<close> lists.
\<close>

section \<open>Messages and their states\<close>

text \<open>
  A message is tame unless it is a host state whose \<^verbatim>\<open>infra_env\<close> is a string or a cluster
  event that brings a hosts summary of its own.
\<close>

definition tame_message :: "kafka_msg \<Rightarrow> bool" where
  "tame_message msg =
     (case getEventFromMessage msg of
        None \<Rightarrow> True
      | Some e \<Rightarrow>
          (case ev_payload e of
             JObj m \<Rightarrow>
               (ev_name e = ''HostState'' \<longrightarrow> (case mget m ''infra_env'' of Some v \<Rightarrow> \<not> is_JStr v | None \<Rightarrow> True)) \<and>
               (ev_name e = ''Event'' \<longrightarrow> field_members enriched_fields ''host_summary'' m = [])
           | _ \<Rightarrow> True))"

lemma read_event_wf:
  assumes "getEventFromMessage msg = Some e"
  shows "wf_message_event e"
proof -
  obtain t where "json_parse (km_value msg) = Some t" "decode_event zero_event t = (e, False)"
    using assms by (auto simp: getEventFromMessage_def split: option.splits prod.splits bool.splits)
  then show ?thesis
    using decode_event_wf [OF json_parse_raw, of "km_value msg" t zero_event e False]
    by (simp add: wf_message_event_def zero_event_def jwf_def)
qed

definition states_ok :: "snapshots \<Rightarrow> bool" where
  "states_ok v = ((\<forall>c f m. v (Hosts_of c) f = Some m \<longrightarrow> host_state_ok m) \<and>
     (\<forall>c f m. v (InfraEnvs_of c) f = Some m \<longrightarrow> infra_env_ok m))"

definition hosts_bounded :: "nat \<Rightarrow> snapshots \<Rightarrow> bool" where
  "hosts_bounded n v = (\<forall>c. finite (dom (v (Hosts_of c))) \<and> card (dom (v (Hosts_of c))) \<le> n)"

lemma hosts_bounded_Suc: "hosts_bounded n v \<Longrightarrow> hosts_bounded (Suc n) v"
  by (auto simp: hosts_bounded_def intro: le_SucI)

lemma hosts_bounded_set: "hosts_bounded n v \<Longrightarrow> hosts_bounded (Suc n) (set_state v k f m)"
  by (auto simp: hosts_bounded_def card_insert_if le_SucI)

lemma states_ok_set:
  assumes "states_ok v" "\<And>c. k = Hosts_of c \<Longrightarrow> host_state_ok m" "\<And>c. k = InfraEnvs_of c \<Longrightarrow> infra_env_ok m"
  shows "states_ok (set_state v k f m)"
  using assms by (auto simp: states_ok_def)

lemma states_ok_drops:
  assumes "states_ok v" "hosts_bounded n v" "\<And>k. w k = v k \<or> w k = Map.empty"
  shows "states_ok w" "hosts_bounded n w"
proof -
  have "w k f = Some x \<Longrightarrow> v k f = Some x" for k f x using assms(3) [of k] by auto
  with assms(1) show "states_ok w" unfolding states_ok_def by blast
  show "hosts_bounded n w"
    unfolding hosts_bounded_def
  proof
    fix c
    show "finite (dom (w (Hosts_of c))) \<and> card (dom (w (Hosts_of c))) \<le> n"
      using assms(2) assms(3) [of "Hosts_of c"] by (auto simp: hosts_bounded_def)
  qed
qed

lemma lists_states_member:
  assumes "lists_states st res" "x \<in> set (fst res)"
  obtains f m where "st f = Some m" "x = Some m"
  using assms by (auto simp: lists_states_def split: if_splits)

lemma lists_states_length: "lists_states st res \<Longrightarrow> finite (dom st) \<Longrightarrow> length (fst res) \<le> card (dom st)"
  using distinct_card by (fastforce simp: lists_states_def split: if_splits)

lemma message_op_ok:
  assumes "getEventFromMessage msg = Some e" "msg_op e = Some x" "ev_name e \<in> set state_names" "tame_message msg"
  shows "op_ok x" "op_key x = Hosts_of c \<Longrightarrow> host_state_ok (op_state x)"
    "op_key x = InfraEnvs_of c \<Longrightarrow> infra_env_ok (op_state x)"
proof -
  have x: "op_event x = e" "payload_value ''id'' e \<noteq> None"
    using assms(2,3) by (auto simp: msg_op_def state_names_def split: option.splits if_splits)
  then obtain m i where m: "ev_payload e = JObj m" "mget m ''id'' = Some (JStr i)"
    by (auto simp: payload_value_def split: json.splits option.splits)
  then have wf: "wf_obj m" using read_event_wf [OF assms(1)] by (simp add: wf_message_event_def wf_obj_def)
  have st: "op_state x = m" using x(1) m(1) by simp
  show "op_ok x" using x(1) m(1) wf by (simp add: op_ok_def)
  show "infra_env_ok (op_state x)" if "op_key x = InfraEnvs_of c" using wf m(2) st by (auto simp: infra_env_ok_def)
  show "host_state_ok (op_state x)" if "op_key x = Hosts_of c"
  proof -
    have "ev_name e = ''HostState''"
      using that assms(2,3) by (auto simp: msg_op_def state_names_def split: option.splits if_splits)
    then show ?thesis using assms(1,4) wf m(1) st by (simp add: host_state_ok_def tame_message_def)
  qed
qed

text \<open>What a message does to snapshots and indexer.\<close>

lemma ProcessMessage_snap:
  assumes "ProcessMessage p st msg = Return (st', err)"
  shows "ps_snap st' = ps_snap st \<or>
    (\<exists>e x. getEventFromMessage msg = Some e \<and> ev_name e \<in> set state_names \<and> msg_op e = Some x \<and>
       ps_snap st' = fst (apply_op (p_snapshots p) x (ps_snap st)))"
proof (cases msg rule: message_cases)
  case undecodable
  then show ?thesis using assms by (auto simp: ProcessMessage_def ackMsg_def)
next
  case (state e x)
  then show ?thesis
    using assms ProcessEvent_state [OF state(2,3), of p st msg] by (auto simp: ProcessMessage_def)
next
  case (bad_state e)
  then show ?thesis
    using assms ProcessEvent_malformed_state [OF bad_state(2,3), of p st msg] by (auto simp: ProcessMessage_def)
next
  case (cluster_event e c)
  obtain cluster hosts infraEnvs where s: "snapshot_of p st c = (cluster, hosts, infraEnvs)"
    by (cases "snapshot_of p st c") blast
  show ?thesis
    using assms cluster_event ProcessEvent_cluster [OF cluster_event(2,3) s, of msg]
    by (cases "p_enrich p e cluster hosts infraEnvs") (auto simp: ProcessMessage_def split: if_splits)
next
  case (bad_event e)
  then show ?thesis
    using assms ProcessEvent_malformed_cluster [OF bad_event(2,3), of p st msg] by (auto simp: ProcessMessage_def)
next
  case (unknown e)
  then show ?thesis
    using assms ProcessEvent_unknown [OF unknown(2,3), of p st msg] by (auto simp: ProcessMessage_def)
qed

lemma ProcessMessage_other:
  assumes "\<nexists>e c. getEventFromMessage msg = Some e \<and> ev_name e = ''Event'' \<and> payload_value ''cluster_id'' e = Some c"
  shows "\<exists>st' err. ProcessMessage p st msg = Return (st', err) \<and> ps_bulk st' = ps_bulk st"
proof (cases msg rule: message_cases)
  case (state e x)
  then show ?thesis using ProcessEvent_state [OF state(2,3), of p st msg] by (auto simp: ProcessMessage_def)
next
  case (bad_state e)
  then show ?thesis using ProcessEvent_malformed_state [OF bad_state(2,3), of p st msg] by (auto simp: ProcessMessage_def)
next
  case (bad_event e)
  then show ?thesis using ProcessEvent_malformed_cluster [OF bad_event(2,3), of p st msg] by (auto simp: ProcessMessage_def)
next
  case (unknown e)
  then show ?thesis using ProcessEvent_unknown [OF unknown(2,3), of p st msg] by (auto simp: ProcessMessage_def)
next
  case (cluster_event e c)
  with assms show ?thesis by blast
qed (auto simp: ProcessMessage_def ackMsg_def)

section \<open>The connected parts\<close>

text \<open>
  The keys of the secrets are absent where the lists of fields name them: \<^verbatim>\<open>pull_secret\<close>,
  \<^verbatim>\<open>ssh_public_key\<close> and \<^verbatim>\<open>user_name\<close> in the cluster, \<^verbatim>\<open>user_name\<close> in its hosts,
  \<^verbatim>\<open>ssh_authorized_key\<close> and \<^verbatim>\<open>user_name\<close> in their infra-envs and in the list of infra-envs.
  Other keys are not looked at; what \<^verbatim>\<open>user_id\<close> holds instead is shown in \<open>UserNames\<close>.
\<close>

definition secret_keys_absent :: "enriched_event \<Rightarrow> bool" where
  "secret_keys_absent e =
     ((\<forall>c. ee_cluster e = Some c \<longrightarrow>
        mget c ''pull_secret'' = None \<and> mget c ''ssh_public_key'' = None \<and> mget c ''user_name'' = None) \<and>
      (\<forall>h\<in>set (getHostsFromEvent e). mget h ''user_name'' = None \<and>
        (\<forall>ie. getInfraEnvFromHost h = Some ie \<longrightarrow>
           mget ie ''ssh_authorized_key'' = None \<and> mget ie ''user_name'' = None)) \<and>
      (\<forall>ie. Some ie \<in> set (ee_infra_envs e) \<longrightarrow>
        mget ie ''ssh_authorized_key'' = None \<and> mget ie ''user_name'' = None))"

definition document_ok :: "bulk_item \<Rightarrow> bool" where
  "document_ok i = (\<exists>e. json_Marshal (enriched_json e) = Some (bi_body i) \<and> secret_keys_absent e)"

text \<open>The snapshots as the messages leave them, with at most \<open>n\<close> hosts in a cluster.\<close>

definition snap_inv :: "('s \<Rightarrow> bool) \<Rightarrow> ('s \<Rightarrow> snapshots) \<Rightarrow> nat \<Rightarrow> 's \<Rightarrow> bool" where
  "snap_inv ok view n s = (ok s \<and> states_ok (view s) \<and> hosts_bounded n (view s))"

definition documents_inv :: "'s reader \<Rightarrow> bool" where
  "documents_inv r = (rd_phase r \<noteq> Crashed Processing_panics \<and>
     (\<forall>i\<in>set (rd_bulk r) \<union> set (rd_indexed r) \<union> set (rd_index_failed r). document_ok i))"

text \<open>A replica, when the others have taken \<open>m\<close> messages, and the group.\<close>

definition system_inv :: "('s \<Rightarrow> bool) \<Rightarrow> ('s \<Rightarrow> snapshots) \<Rightarrow> nat \<Rightarrow> 's reader \<Rightarrow> bool" where
  "system_inv ok view m r = (snap_inv ok view (m + length (rd_taken r)) (rd_snap r) \<and> documents_inv r)"

definition group_inv :: "('s \<Rightarrow> bool) \<Rightarrow> ('s \<Rightarrow> snapshots) \<Rightarrow> 's group \<Rightarrow> bool" where
  "group_inv ok view g = (snap_inv ok view (group_taken g) (gr_snap g) \<and> (\<forall>r\<in>set (gr_replicas g). documents_inv r))"

text \<open>The document of an event, made of what the enricher starts with.\<close>

definition document_of :: "process_env \<Rightarrow> enriched_event \<Rightarrow> enriched_event" where
  "document_of env base = AddHostsSummary (pe_range env) (pipeline_event (pe_range env) base)"

locale consumer_system =
  snapshot_contract "snapshot_store_of repo" ok view "r_pass (sr_redis repo)" + bulk_indexer add
  for repo :: "'s snapshot_repository" and ok view add +
  fixes env :: process_env and prefix :: string and excluded :: "string list"
  assumes lib: "json_edit_lib (pe_lib env)" and order: "range_ok (pe_range env)" and uuid: "uuid_ok env"
begin

abbreviation proj :: "('s, bulk_item list) projection" where
  "proj \<equiv> NewEnrichedEventsProjection env repo add prefix excluded"

lemma apply_op_inv:
  assumes "snap_inv ok view n s" "op_ok x" "\<And>c. op_key x = Hosts_of c \<Longrightarrow> host_state_ok (op_state x)"
    "\<And>c. op_key x = InfraEnvs_of c \<Longrightarrow> infra_env_ok (op_state x)"
  shows "snap_inv ok view (Suc n) (fst (apply_op (snapshot_store_of repo) x s))"
proof -
  have s: "ok s" "states_ok (view s)" "hosts_bounded n (view s)" using assms(1) by (simp_all add: snap_inv_def)
  have "states_ok (set_state (view s) (op_key x) (op_field x) (op_state x))"
    by (rule states_ok_set [OF s(2) assms(3,4)])
  with apply_op_sets [OF s(1) assms(2)] s show ?thesis
    by (auto simp: snap_inv_def sets_state_def hosts_bounded_set hosts_bounded_Suc)
qed

lemma cluster_event_inputs:
  assumes "snap_inv ok view n s" "getEventFromMessage msg = Some e" "tame_message msg" "ev_name e = ''Event''"
    "payload_value ''cluster_id'' e = Some c" "ps_snap st = s" "snapshot_of proj st c = (cluster, hosts, infraEnvs)"
  shows "inputs_ok e cluster hosts infraEnvs" "length hosts \<le> n"
proof -
  let ?S = "snapshot_store_of repo"
  have s: "ok s" "states_ok (view s)" "hosts_bounded n (view s)" using assms(1) by (simp_all add: snap_inv_def)
  have g: "cluster = fst (ss_GetCluster ?S s c)" "hosts = fst (ss_GetHosts ?S s c)"
    "infraEnvs = fst (ss_GetInfraEnvs ?S s c)"
    using assms(6,7) by (simp_all add: snapshot_of_def NewEnrichedEventsProjection_def)
  obtain m where m: "ev_payload e = JObj m" using assms(5) by (auto simp: payload_value_def split: json.splits)
  have w: "wf_message_event e" by (rule read_event_wf [OF assms(2)])
  have "field_members enriched_fields ''host_summary'' m = []"
    using assms(2,3,4) m by (simp add: tame_message_def)
  moreover have "\<exists>x. cluster = Some x \<and> wf_obj x"
    using get_cluster [OF s(1), of c] states_wf [OF s(1)] by (auto simp: g(1))
  moreover have "list_all (\<lambda>h. \<exists>x. h = Some x \<and> host_state_ok x) hosts"
    unfolding list_all_iff g(2)
    using s(2) by (auto simp: states_ok_def elim!: lists_states_member [OF get_hosts [OF s(1)]])
  moreover have "list_all (\<lambda>ie. \<exists>x. ie = Some x \<and> infra_env_ok x) infraEnvs"
    unfolding list_all_iff g(3)
    using s(2) by (auto simp: states_ok_def elim!: lists_states_member [OF get_infra_envs [OF s(1)]])
  ultimately show "inputs_ok e cluster hosts infraEnvs"
    using w m by (simp add: inputs_ok_def wf_message_event_def wf_obj_def)
  show "length hosts \<le> n"
    using lists_states_length [OF get_hosts [OF s(1)], of c] s(3) g(2)
    unfolding hosts_bounded_def by (metis order.trans)
qed

lemma enriched_document:
  assumes "inputs_ok e cluster hosts infraEnvs" "length hosts \<le> 2 ^ 52"
  obtains base where "GetBaseEnrichedEvent env e cluster hosts infraEnvs = Return base"
    "GetEnrichedEvent env NewEventEnricher e cluster hosts infraEnvs = Return (document_of env base)"
    "wf_event (document_of env base)" "secret_keys_absent (document_of env base)"
proof -
  obtain b where b: "GetBaseEnrichedEvent env e cluster hosts infraEnvs = Return b" "event_ok b"
    "host_len (event_value b) \<le> length hosts" by (rule base_event_ok [OF uuid assms(1)])
  then have len: "host_len (event_value b) \<le> 2 ^ 52" using assms(2) by linarith
  note t = getTransformedEvent_core [OF lib order b(2) len, folded document_of_def]
  have "secret_keys_absent (document_of env b)"
    using transformed_no_secrets [OF lib order b(2) len t] by (simp add: secret_keys_absent_def)
  with transformed_wf [OF order b(2) len, folded document_of_def] t b(1) that show thesis
    by (simp add: GetEnrichedEvent_def del: go_bind_Return)
qed

lemma event_document:
  assumes "snap_inv ok view n (ps_snap st)" "n \<le> 2 ^ 52" "tame_message msg" "getEventFromMessage msg = Some e"
    "ev_name e = ''Event''" "payload_value ''cluster_id'' e = Some c"
    "snapshot_of proj st c = (cluster, hosts, infraEnvs)"
  obtains base where "GetBaseEnrichedEvent env e cluster hosts infraEnvs = Return base"
    "wf_event (document_of env base)" "secret_keys_absent (document_of env base)"
    "ProcessMessage proj st msg =
      (if skipEvent excluded cluster then Return (st, None)
       else case add (ps_bulk st) \<lparr> bi_index = getIndexName prefix (document_of env base),
              bi_document_id = ee_id (document_of env base), bi_action = ''index'',
              bi_body = jprint (enriched_json (document_of env base)), bi_msg = msg \<rparr> of
          (b, err) \<Rightarrow> Return (st \<lparr> ps_bulk := b \<rparr>, if err then Some Store_failed else None))"
proof -
  have "inputs_ok e cluster hosts infraEnvs" "length hosts \<le> 2 ^ 52"
    using cluster_event_inputs [OF assms(1,4,3,5,6) refl assms(7)] assms(2) by simp_all
  then obtain base where b: "GetBaseEnrichedEvent env e cluster hosts infraEnvs = Return base"
    "GetEnrichedEvent env NewEventEnricher e cluster hosts infraEnvs = Return (document_of env base)"
    "wf_event (document_of env base)" "secret_keys_absent (document_of env base)" by (rule enriched_document)
  have p: "p_excluded proj = excluded" "p_enrich proj e cluster hosts infraEnvs = Return (document_of env base)"
    "p_store proj = Store add prefix" using b(2) by (simp_all add: NewEnrichedEventsProjection_def)
  from that [OF b(1,3,4)] show thesis
    using ProcessEvent_cluster [OF assms(5-7), of msg] assms(4)
    by (simp add: ProcessMessage_def p Store_def Marshal_enriched [OF b(3)] split: prod.split)
qed

text \<open>One message keeps the snapshots in order, adds good documents only, and does not panic.\<close>

lemma message_inv:
  assumes "snap_inv ok view n (ps_snap st)" "tame_message msg" "n \<le> 2 ^ 52"
  obtains st' err where "ProcessMessage proj st msg = Return (st', err)" "snap_inv ok view (Suc n) (ps_snap st')"
    "\<forall>i\<in>set (ps_bulk st'). i \<in> set (ps_bulk st) \<or> document_ok i"
proof -
  have snap: "snap_inv ok view (Suc n) (ps_snap st')" if r: "ProcessMessage proj st msg = Return (st', err)" for st' err
  proof (cases "ps_snap st' = ps_snap st")
    case True
    with assms(1) show ?thesis by (simp add: snap_inv_def hosts_bounded_Suc)
  next
    case False
    then obtain e x where x: "getEventFromMessage msg = Some e" "ev_name e \<in> set state_names" "msg_op e = Some x"
      "ps_snap st' = fst (apply_op (p_snapshots proj) x (ps_snap st))" using ProcessMessage_snap [OF r] by blast
    note o = message_op_ok [OF x(1,3,2) assms(2)]
    from apply_op_inv [OF assms(1) o] x(4) show ?thesis by (simp add: NewEnrichedEventsProjection_def)
  qed
  show thesis
  proof (cases "\<exists>e c. getEventFromMessage msg = Some e \<and> ev_name e = ''Event'' \<and> payload_value ''cluster_id'' e = Some c")
    case False
    then show thesis using ProcessMessage_other [of msg proj st] snap that by force
  next
    case True
    then obtain e c where e: "getEventFromMessage msg = Some e" "ev_name e = ''Event''" "payload_value ''cluster_id'' e = Some c"
      by blast
    obtain cluster hosts infraEnvs where s: "snapshot_of proj st c = (cluster, hosts, infraEnvs)"
      by (cases "snapshot_of proj st c") blast
    obtain base where d: "wf_event (document_of env base)" "secret_keys_absent (document_of env base)"
      "ProcessMessage proj st msg =
        (if skipEvent excluded cluster then Return (st, None)
         else case add (ps_bulk st) \<lparr> bi_index = getIndexName prefix (document_of env base),
                bi_document_id = ee_id (document_of env base), bi_action = ''index'',
                bi_body = jprint (enriched_json (document_of env base)), bi_msg = msg \<rparr> of
            (b, err) \<Rightarrow> Return (st \<lparr> ps_bulk := b \<rparr>, if err then Some Store_failed else None))"
      by (rule event_document [OF assms(1,3,2) e s])
    let ?i = "\<lparr> bi_index = getIndexName prefix (document_of env base), bi_document_id = ee_id (document_of env base),
      bi_action = ''index'', bi_body = jprint (enriched_json (document_of env base)), bi_msg = msg \<rparr>"
    have ok: "document_ok ?i" using d(2) Marshal_enriched [OF d(1)] by (auto simp: document_ok_def)
    show thesis
    proof (cases "skipEvent excluded cluster")
      case True
      with d(3) snap that show thesis by simp
    next
      case False
      obtain b err where a: "add (ps_bulk st) ?i = (b, err)" by fastforce
      then have r: "ProcessMessage proj st msg = Return (st \<lparr> ps_bulk := b \<rparr>, if err then Some Store_failed else None)"
        using d(3) False by simp
      have "\<forall>j\<in>set b. j \<in> set (ps_bulk st) \<or> document_ok j" using add [of "ps_bulk st" ?i] a ok by auto
      with that [OF r] snap [OF r] show thesis by simp
    qed
  qed
qed

lemma later_proj: "p_later proj = r_pass (sr_redis repo)"
  by (simp add: NewEnrichedEventsProjection_def)

lemma snap_inv_later: "snap_inv ok view n s \<Longrightarrow> snap_inv ok view n (r_pass (sr_redis repo) t s)"
  using states_ok_drops [of "view s" n "view (r_pass (sr_redis repo) t s)"] later_ok later_drops by (simp add: snap_inv_def)

text \<open>All interleavings keep the invariant.\<close>

lemma system_step:
  assumes tame: "\<forall>n. tame_message (topic n)"
  shows "reader_step proj topic cap r r' \<Longrightarrow> m + length (rd_taken r) \<le> 2 ^ 52 \<Longrightarrow> system_inv ok view m r \<Longrightarrow>
    system_inv ok view m r'"
proof (induction rule: reader_step.induct)
  case (fetch r st err)
  then have i: "snap_inv ok view (m + length (rd_taken r)) (ps_snap (projection_state r))"
    by (simp add: system_inv_def projection_state_def)
  obtain st' err' where pm: "ProcessMessage proj (projection_state r) (topic (rd_next r)) = Return (st', err')"
    "snap_inv ok view (Suc (m + length (rd_taken r))) (ps_snap st')"
    "\<forall>i\<in>set (ps_bulk st'). i \<in> set (ps_bulk (projection_state r)) \<or> document_ok i"
    by (rule message_inv [OF i spec [OF tame] fetch(4)])
  from pm(1) fetch(2) have "st' = st" by simp
  with pm(2,3) fetch(5) show ?case by (auto simp: system_inv_def documents_inv_def projection_state_def)
next
  case (crash r)
  then have i: "snap_inv ok view (m + length (rd_taken r)) (ps_snap (projection_state r))"
    by (simp add: system_inv_def projection_state_def)
  show ?case by (rule message_inv [OF i spec [OF tame, of "rd_next r"] crash(3)]) (use crash(2) in simp)
next
  case (time_passes r t)
  then show ?case by (simp add: system_inv_def documents_inv_def snap_inv_later later_proj)
qed (auto simp: system_inv_def documents_inv_def Projection_Close_def)

lemma system_group_step:
  assumes "\<forall>i n. tame_message (topics i n)"
  shows "group_step proj topics cap g g' \<Longrightarrow> group_taken g' \<le> 2 ^ 52 \<Longrightarrow> group_inv ok view g \<Longrightarrow> group_inv ok view g'"
proof (induction rule: group_step.induct)
  case (replica_starts g n)
  then show ?case by (auto simp: group_inv_def group_taken_def documents_inv_def reader_start_def)
next
  case (replica_runs i g r')
  let ?r = "gr_replicas g ! i"
  let ?m = "group_taken g - length (rd_taken ?r)"
  note t = group_taken_runs [OF replica_runs(1), of r' "rd_snap r'"] step_taken [OF replica_runs(2)]
  have m: "?m + length (rd_taken ?r) = group_taken g"
    using replica_runs(1) elem_le_sum_list [of i "map (\<lambda>r. length (rd_taken r)) (gr_replicas g)"]
    by (simp add: group_taken_def)
  have "documents_inv ?r" using replica_runs(1,4) by (simp add: group_inv_def)
  then have "system_inv ok view ?m (?r \<lparr> rd_snap := gr_snap g \<rparr>)"
    using replica_runs(4) m by (simp add: system_inv_def documents_inv_def group_inv_def)
  then have "system_inv ok view ?m r'"
    using system_step [OF _ replica_runs(2), of ?m] assms replica_runs(3) t m by simp
  then show ?case
    using t m replica_runs(4) by (auto simp: group_inv_def system_inv_def dest!: subsetD [OF set_update_subset_insert])
next
  case (no_replica_runs g t)
  then show ?case by (simp add: group_inv_def group_taken_def snap_inv_later later_proj)
qed

lemma system_group:
  assumes "\<forall>i n. tame_message (topics i n)" "ok s" "\<forall>k f. view s k f = None"
  shows "group_reachable proj topics cap s g \<Longrightarrow> group_taken g \<le> 2 ^ 52 \<Longrightarrow> group_inv ok view g"
proof (induction rule: group_reachable.induct)
  case group_empty
  have "view s k = (\<lambda>f. None)" for k using assms(3) by auto
  with assms(2) show ?case by (simp add: group_inv_def snap_inv_def states_ok_def hosts_bounded_def)
next
  case (group_moves g g')
  then show ?case using system_group_step [OF assms(1) group_moves(2)] group_taken_mono [OF group_moves(2)] by simp
qed

end

section \<open>Results\<close>

lemma consumer_system_new:
  assumes "redis_hashes R hash" "0 < d" "range_ok ord" "bulk_indexer add"
    "json_edit_lib (pe_lib env)" "range_ok (pe_range env)" "uuid_ok env"
  shows "consumer_system (NewSnapshotRepository R d ord) (snap_ok hash) (snap_view hash) add env"
  using redis_hashes.snapshot_contract_repo [OF assms(1-3)] assms(4-7)
  by (simp add: consumer_system_def consumer_system_axioms_def NewSnapshotRepository_def)

lemma empty_redis: "\<forall>k f. hash s k f = None \<Longrightarrow> snap_ok hash s \<and> (\<forall>k f. snap_view hash s k f = None)"
  by (simp add: snap_ok_def snap_view_def)

lemma consumer_inv:
  assumes "redis_hashes R hash" "0 < d" "range_ok ord" "bulk_indexer add"
    "json_edit_lib (pe_lib env)" "range_ok (pe_range env)" "uuid_ok env"
    "\<forall>k f. hash s k f = None" "\<forall>i n. tame_message (topics i n)"
    "p = NewEnrichedEventsProjection env (NewSnapshotRepository R d ord) add prefix excluded"
    "group_reachable p topics cap s g" "group_taken g \<le> 2 ^ 52"
  shows "group_inv (snap_ok hash) (snap_view hash) g"
proof -
  have "snap_ok hash s" "\<forall>k f. snap_view hash s k f = None"
    using empty_redis [where hash = hash and s = s] assms(8) by blast+
  from consumer_system.system_group [OF consumer_system_new [OF assms(1-7)] assms(9) this assms(11) [unfolded assms(10)] assms(12)]
  show ?thesis .
qed


text \<open>
  C8. None of these consumers panics while it processes a tame message. Whatever else breaks one
  comes from its own shutdown, after a signal: the channel \<^verbatim>\<open>quitChannel\<close> is closed for a second
  time, or an event is stored after the bulk indexer was closed.
\<close>

theorem consumer_crashes_only_closing:
  assumes "redis_hashes R hash" "0 < d" "range_ok ord" "bulk_indexer add"
    "json_edit_lib (pe_lib env)" "range_ok (pe_range env)" "uuid_ok env"
    "\<forall>k f. hash s k f = None" "\<forall>i n. tame_message (topics i n)"
    "p = NewEnrichedEventsProjection env (NewSnapshotRepository R d ord) add prefix excluded"
    "group_reachable p topics cap s g" "group_taken g \<le> 2 ^ 52" "r \<in> set (gr_replicas g)"
  shows "rd_phase r \<noteq> Crashed Processing_panics \<and> (\<forall>x. rd_phase r = Crashed x \<longrightarrow>
    rd_quit r \<and> (x = Closed_twice \<or> x = Store_after_close \<and> rd_bulk_closed r))"
proof -
  have "queues_items p" unfolding assms(10) by (rule queues_items_new [OF assms(4)])
  from group_reader_inv [OF assms(11) this assms(13)] consumer_inv [OF assms(1-12)] assms(13)
  have i: "shutdown_inv r" "rd_phase r \<noteq> Crashed Processing_panics" by (simp_all add: group_inv_def documents_inv_def)
  then have "x \<noteq> Processing_panics" if "rd_phase r = Crashed x" for x using that by auto
  with broken_closing [OF i(1)] i(2) show ?thesis by blast
qed

text \<open>
  C5. An event of a cluster, unless its user is excluded, is handed to the indexer as one
  document: the base event of the stored states, after the edits of the pipeline and with
  the summary of its hosts, under the identifier of the event and the index of its month.
  When the indexer refuses it, that is the error of \<^verbatim>\<open>ProcessMessage\<close>.
\<close>

theorem cluster_event_document:
  assumes "redis_hashes R hash" "0 < d" "range_ok ord" "bulk_indexer add"
    "json_edit_lib (pe_lib env)" "range_ok (pe_range env)" "uuid_ok env"
    "snap_inv (snap_ok hash) (snap_view hash) n (ps_snap st)" "n \<le> 2 ^ 52" "tame_message msg"
    "getEventFromMessage msg = Some e" "ev_name e = ''Event''" "payload_value ''cluster_id'' e = Some c"
    "p = NewEnrichedEventsProjection env (NewSnapshotRepository R d ord) add prefix excluded"
    "snapshot_of p st c = (cluster, hosts, infraEnvs)" "\<not> skipEvent excluded cluster"
  shows "\<exists>base doc. GetBaseEnrichedEvent env e cluster hosts infraEnvs = Return base \<and>
    doc = AddHostsSummary (pe_range env) (pipeline_event (pe_range env) base) \<and>
    ProcessMessage p st msg =
      (case add (ps_bulk st) \<lparr> bi_index = getIndexName prefix doc, bi_document_id = ee_id doc,
              bi_action = ''index'', bi_body = jprint (enriched_json doc), bi_msg = msg \<rparr> of
         (b, err) \<Rightarrow> Return (st \<lparr> ps_bulk := b \<rparr>, if err then Some Store_failed else None))"
  using consumer_system.event_document [OF consumer_system_new [OF assms(1-7)] assms(8-13) assms(15) [unfolded assms(14)]]
    assms(14,16) by (metis (no_types, lifting) document_of_def)

section \<open>The results at a concrete run\<close>

text \<open>A cluster with a secret and a user, and then an event of it.\<close>

definition uuid_env :: process_env where
  "uuid_env = sample_env \<lparr> pe_uuid_sha1 := (\<lambda>ns d. md5_hex (ns @ d)) \<rparr>"

lemma uuid_env_ok: "json_edit_lib (pe_lib uuid_env)" "range_ok (pe_range uuid_env)" "uuid_ok uuid_env"
  using sample_env_ok by (simp_all add: uuid_env_def uuid_ok_def valid_md5_hex)

definition secret_cluster :: event where
  "secret_cluster = \<lparr> ev_name = ''ClusterState'', ev_payload = JObj [(''id'', JStr ''c''),
     (''pull_secret'', JStr ''hunter2''), (''user_name'', JStr ''admin'')], ev_metadata = None \<rparr>"

definition secret_topic :: "nat \<Rightarrow> kafka_msg" where
  "secret_topic n = (text_msg (if n = 0 then secret_cluster else named_event ''Event'')) \<lparr> km_offset := n \<rparr>"

lemma secret_cluster_wf: "wf_message_event secret_cluster"
  by (simp add: wf_message_event_def secret_cluster_def) code_simp

lemma secret_topic_get:
  "getEventFromMessage (secret_topic n) = Some (if n = 0 then secret_cluster else named_event ''Event'')"
  by (rule getEvent_event_json) (simp_all add: secret_topic_def text_msg_def secret_cluster_wf named_event_wf)

lemma secret_topic_tame: "\<forall>n. tame_message (secret_topic n)"
proof -
  have "field_members enriched_fields ''host_summary'' [(''cluster_id'', JStr ''c'')] = []" by code_simp
  then show ?thesis
    by (auto simp: tame_message_def secret_topic_get) (auto simp: secret_cluster_def named_event_def)
qed

interpretation mem_system: consumer_system mem_repository "snap_ok mem_hash" "snap_view mem_hash" list_add uuid_env
    "''events-''" "[]"
  unfolding mem_repository_def
  by (rule consumer_system_new) (simp_all add: mem.redis_hashes_axioms range_ok_id list_bulk.bulk_indexer_axioms uuid_env_ok)

abbreviation mem_projection :: "(mem_store, bulk_item list) projection" where
  "mem_projection \<equiv> NewEnrichedEventsProjection uuid_env (NewSnapshotRepository mem_redis (720 * 3600 * 10 ^ 9) (\<lambda>ks. ks))
     list_add ''events-'' []"

lemma secret_state:
  obtains s1 where "ProcessMessage mem_projection \<lparr> ps_snap = mem_empty, ps_bulk = [], ps_acks = [] \<rparr> (secret_topic 0) =
    Return (\<lparr> ps_snap = s1, ps_bulk = [], ps_acks = [secret_topic 0] \<rparr>, None)"
proof -
  let ?st = "\<lparr> ps_snap = mem_empty, ps_bulk = [] :: bulk_item list, ps_acks = [] \<rparr>"
  let ?x = "Set_cluster ''c'' secret_cluster"
  have n: "ev_name secret_cluster \<in> set state_names" "msg_op secret_cluster = Some ?x"
    by (simp_all add: state_names_def secret_cluster_def msg_op_def payload_value_def)
  have "snd (apply_op (p_snapshots mem_projection) ?x mem_empty) = None"
    by (simp add: NewEnrichedEventsProjection_def snapshot_store_of_def SetCluster_def hset_def
        NewSnapshotRepository_def mem_redis_def secret_cluster_def json_Marshal_def)
  with ProcessEvent_state [OF n, of mem_projection ?st "secret_topic 0"] secret_topic_get [of 0] that
  show thesis by (simp add: ProcessMessage_def)
qed

lemma mem_inv:
  assumes "reader_reachable mem_projection secret_topic cap (reader_start mem_empty n) r" "length (rd_taken r) \<le> 2 ^ 52"
  shows "snap_inv (snap_ok mem_hash) (snap_view mem_hash) (length (rd_taken r)) (rd_snap r)"
proof -
  have "group_inv (snap_ok mem_hash) (snap_view mem_hash) \<lparr> gr_snap = rd_snap r, gr_replicas = [r] \<rparr>"
    by (rule consumer_inv [where hash = mem_hash, OF mem.redis_hashes_axioms _ range_ok_id list_bulk.bulk_indexer_axioms
          uuid_env_ok mem_nothing _ refl group_of_one [OF assms(1)]])
      (use assms(2) secret_topic_tame in \<open>simp_all add: group_taken_def\<close>)
  then show ?thesis by (simp add: group_inv_def group_taken_def)
qed

text \<open>The reader after the state, before the event.\<close>

lemma state_run:
  assumes "0 < cap"
  obtains r where "reader_reachable mem_projection secret_topic cap (reader_start mem_empty 0) r"
    "rd_phase r = Selecting" "\<not> rd_quit r" "\<not> rd_bulk_closed r" "rd_next r = 1" "rd_taken r = [secret_topic 0]" "rd_bulk r = []"
proof -
  let ?step = "reader_step mem_projection secret_topic cap"
  obtain s1 where p: "ProcessMessage mem_projection \<lparr> ps_snap = mem_empty, ps_bulk = [], ps_acks = [] \<rparr> (secret_topic 0) =
    Return (\<lparr> ps_snap = s1, ps_bulk = [], ps_acks = [secret_topic 0] \<rparr>, None)" by (rule secret_state)
  define r0 :: "mem_store reader" where "r0 = reader_start mem_empty 0"
  define r1 where "r1 = r0 \<lparr> rd_phase := Sending_acks [secret_topic 0] None, rd_next := 1, rd_snap := s1,
    rd_bulk := [], rd_taken := [secret_topic 0] \<rparr>"
  define r2 where "r2 = r1 \<lparr> rd_phase := Sending_acks [] None, rd_channel := [secret_topic 0] \<rparr>"
  define r3 where "r3 = r2 \<lparr> rd_phase := Selecting \<rparr>"
  note defs = r0_def r1_def r2_def r3_def reader_start_def projection_state_def
  have "reader_reachable mem_projection secret_topic cap r0 r1"
    using take_message [OF reader_reachable.start, of r0 mem_projection secret_topic _ None cap] p by (simp add: defs)
  moreover have "?step r1 r2" using send_ack [of r1 "secret_topic 0" "[]" None cap] assms by (simp add: defs)
  moreover have "?step r2 r3" using message_done [of r2] by (simp add: defs)
  ultimately have "reader_reachable mem_projection secret_topic cap r0 r3" by (meson reader_reachable.step)
  then show thesis using that [of r3] by (simp add: defs)
qed

lemma event_run:
  assumes "0 < cap"
  obtains r i where "reader_reachable mem_projection secret_topic cap (reader_start mem_empty 0) r"
    "rd_taken r = [secret_topic 0, secret_topic 1]" "rd_bulk r = [i]" "bi_msg i = secret_topic 1"
proof -
  obtain r where r: "reader_reachable mem_projection secret_topic cap (reader_start mem_empty 0) r"
    "rd_phase r = Selecting" "\<not> rd_quit r" "\<not> rd_bulk_closed r" "rd_next r = 1" "rd_taken r = [secret_topic 0]" "rd_bulk r = []"
    by (rule state_run [OF assms])
  let ?st = "projection_state r" and ?e = "named_event ''Event''"
  have inv: "snap_inv (snap_ok mem_hash) (snap_view mem_hash) 1 (ps_snap ?st)"
    using mem_inv [OF r(1)] r(6) by (simp add: projection_state_def)
  have e: "getEventFromMessage (secret_topic 1) = Some ?e" "ev_name ?e = ''Event''"
    "payload_value ''cluster_id'' ?e = Some ''c''"
    using secret_topic_get [of 1] by (simp_all add: named_event_def payload_value_def)
  obtain cluster hosts infraEnvs where s: "snapshot_of mem_projection ?st ''c'' = (cluster, hosts, infraEnvs)"
    by (cases "snapshot_of mem_projection ?st ''c''") blast
  have x: "\<not> skipEvent [] cluster" by (simp add: skipEvent_def split: option.split json.split)
  have "\<exists>i. ProcessMessage mem_projection ?st (secret_topic 1) = Return (?st \<lparr> ps_bulk := [i] \<rparr>, None) \<and>
    bi_msg i = secret_topic 1"
  proof (rule mem_system.event_document [OF inv _ spec [OF secret_topic_tame, of 1] e s [folded mem_repository_def]])
    fix base
    let ?d = "document_of uuid_env base"
    let ?i = "\<lparr> bi_index = getIndexName ''events-'' ?d, bi_document_id = ee_id ?d, bi_action = ''index'',
      bi_body = jprint (enriched_json ?d), bi_msg = secret_topic 1 \<rparr>"
    assume "ProcessMessage mem_system.proj ?st (secret_topic 1) =
      (if skipEvent [] cluster then Return (?st, None)
       else case list_add (ps_bulk ?st) ?i of
          (b, err) \<Rightarrow> Return (?st \<lparr> ps_bulk := b \<rparr>, if err then Some Store_failed else None))"
    then have "ProcessMessage mem_projection ?st (secret_topic 1) = Return (?st \<lparr> ps_bulk := [?i] \<rparr>, None)"
      using x r(7) by (simp add: list_add_def projection_state_def mem_repository_def)
    then show "\<exists>i. ProcessMessage mem_projection ?st (secret_topic 1) = Return (?st \<lparr> ps_bulk := [i] \<rparr>, None) \<and>
      bi_msg i = secret_topic 1" by (intro exI [of _ ?i]) simp
  qed simp
  then obtain i where i: "ProcessMessage mem_projection ?st (secret_topic 1) = Return (?st \<lparr> ps_bulk := [i] \<rparr>, None)"
    "bi_msg i = secret_topic 1" by blast
  have "reader_reachable mem_projection secret_topic cap (reader_start mem_empty 0)
      (r \<lparr> rd_phase := Sending_acks [] None, rd_next := Suc 1,
        rd_snap := rd_snap r, rd_bulk := [i], rd_taken := [secret_topic 0, secret_topic 1] \<rparr>)"
    using take_message [OF r(1-4), of _ None] r(5,6) i(1) by (simp add: projection_state_def)
  from that [OF this] i(2) show thesis by simp
qed


theorem consumer_crashes_only_closing_witness:
  "\<exists>g r. group_reachable mem_projection (\<lambda>i. secret_topic) 1 mem_empty g \<and> r \<in> set (gr_replicas g) \<and>
     rd_taken r = [secret_topic 0, secret_topic 1] \<and> rd_phase r \<noteq> Crashed Processing_panics"
proof -
  obtain r i where r: "reader_reachable mem_projection secret_topic 1 (reader_start mem_empty 0) r"
    "rd_taken r = [secret_topic 0, secret_topic 1]" "rd_bulk r = [i]" "bi_msg i = secret_topic 1" by (rule event_run [OF zero_less_one])
  define g where "g = \<lparr> gr_snap = rd_snap r, gr_replicas = [r] \<rparr>"
  have g: "group_reachable mem_projection (\<lambda>i. secret_topic) 1 mem_empty g" unfolding g_def by (rule group_of_one [OF r(1)])
  have "rd_phase r \<noteq> Crashed Processing_panics \<and> (\<forall>x. rd_phase r = Crashed x \<longrightarrow>
      rd_quit r \<and> (x = Closed_twice \<or> x = Store_after_close \<and> rd_bulk_closed r))"
    by (rule consumer_crashes_only_closing [where hash = mem_hash, OF mem.redis_hashes_axioms _ range_ok_id list_bulk.bulk_indexer_axioms
          uuid_env_ok mem_nothing _ refl g]) (simp_all add: secret_topic_tame g_def group_taken_def r(2))
  with r g show ?thesis by (intro exI [of _ g] exI [of _ r]) (simp add: g_def)
qed

theorem cluster_event_document_witness:
  "\<exists>st doc. ProcessMessage mem_projection st (secret_topic 1) =
     Return (st \<lparr> ps_bulk := [\<lparr> bi_index = getIndexName ''events-'' doc, bi_document_id = ee_id doc,
       bi_action = ''index'', bi_body = jprint (enriched_json doc), bi_msg = secret_topic 1 \<rparr>] \<rparr>, None)"
proof -
  obtain r where r: "reader_reachable mem_projection secret_topic 1 (reader_start mem_empty 0) r"
    "rd_taken r = [secret_topic 0]" "rd_bulk r = []" by (rule state_run [OF zero_less_one])
  let ?st = "projection_state r" and ?e = "named_event ''Event''"
  have inv: "snap_inv (snap_ok mem_hash) (snap_view mem_hash) 1 (ps_snap ?st)"
    using mem_inv [OF r(1)] r(2) by (simp add: projection_state_def)
  have e: "getEventFromMessage (secret_topic 1) = Some ?e" "ev_name ?e = ''Event''"
    "payload_value ''cluster_id'' ?e = Some ''c''"
    using secret_topic_get [of 1] by (simp_all add: named_event_def payload_value_def)
  obtain cluster hosts infraEnvs where s: "snapshot_of mem_projection ?st ''c'' = (cluster, hosts, infraEnvs)"
    by (cases "snapshot_of mem_projection ?st ''c''") blast
  have x: "\<not> skipEvent [] cluster" by (simp add: skipEvent_def split: option.split json.split)
  obtain base doc where "ProcessMessage mem_projection ?st (secret_topic 1) =
      (case list_add (ps_bulk ?st) \<lparr> bi_index = getIndexName ''events-'' doc, bi_document_id = ee_id doc,
              bi_action = ''index'', bi_body = jprint (enriched_json doc), bi_msg = secret_topic 1 \<rparr> of
         (b, err) \<Rightarrow> Return (?st \<lparr> ps_bulk := b \<rparr>, if err then Some Store_failed else None))"
    using cluster_event_document [OF mem.redis_hashes_axioms _ range_ok_id list_bulk.bulk_indexer_axioms uuid_env_ok
        inv _ spec [OF secret_topic_tame, of 1] e refl s x] by auto
  then have "ProcessMessage mem_projection ?st (secret_topic 1) =
     Return (?st \<lparr> ps_bulk := [\<lparr> bi_index = getIndexName ''events-'' doc, bi_document_id = ee_id doc,
       bi_action = ''index'', bi_body = jprint (enriched_json doc), bi_msg = secret_topic 1 \<rparr>] \<rparr>, None)"
    using r(3) by (simp add: list_add_def projection_state_def)
  then show ?thesis by (intro exI)
qed

end
