(* ===== verification/Environment.thy ===== *)
theory Environment
  imports JsonNumber
begin

text \<open>
  Settings from the environment: \<^verbatim>\<open>strconv.ParseInt\<close> and \<^verbatim>\<open>ParseBool\<close>, \<^verbatim>\<open>time.ParseDuration\<close>,
  and \<^verbatim>\<open>envconfig.Process\<close> for structs whose fields are strings, lists of strings,
  integers, truth values and durations.
\<close>

type_synonym environ = "string \<Rightarrow> string option"

definition os_Getenv :: "environ \<Rightarrow> string \<Rightarrow> string" where
  "os_Getenv env k = (case env k of Some v \<Rightarrow> v | None \<Rightarrow> [])"

section \<open>strconv\<close>

definition lower :: "char \<Rightarrow> char" where
  "lower c = (let n = (of_char c :: nat) in if 65 \<le> n \<and> n \<le> 90 then char_of (n + 32) else c)"

text \<open>The value of a digit in some base up to 36.\<close>

definition digit_value :: "char \<Rightarrow> nat option" where
  "digit_value c =
     (let n = (of_char (lower c) :: nat) in
      if is_digit c then Some (char_digit c)
      else if 97 \<le> n \<and> n \<le> 122 then Some (n - 87) else None)"

text \<open>
  The digits of a number whose base is taken from its prefix; underscores are skipped
  here, and checked by \<open>underscore_ok\<close>.
\<close>

fun parse_digits :: "nat \<Rightarrow> nat \<Rightarrow> string \<Rightarrow> nat option" where
  "parse_digits base n [] = Some n"
| "parse_digits base n (c # s) =
     (if c = CHR ''_'' then parse_digits base n s
      else case digit_value c of
        None \<Rightarrow> None
      | Some d \<Rightarrow> if base \<le> d then None else parse_digits base (base * n + d) s)"

definition base_prefix :: "string \<Rightarrow> nat \<times> string" where
  "base_prefix s =
     (if s = [] \<or> hd s \<noteq> CHR ''0'' then (10, s)
      else if 3 \<le> length s \<and> lower (s ! 1) = CHR ''b'' then (2, drop 2 s)
      else if 3 \<le> length s \<and> lower (s ! 1) = CHR ''o'' then (8, drop 2 s)
      else if 3 \<le> length s \<and> lower (s ! 1) = CHR ''x'' then (16, drop 2 s)
      else (8, tl s))"

datatype saw = Saw_begin | Saw_digit | Saw_underscore | Saw_other

fun underscore_scan :: "bool \<Rightarrow> saw \<Rightarrow> string \<Rightarrow> bool" where
  "underscore_scan hex i [] = (i \<noteq> Saw_underscore)"
| "underscore_scan hex i (c # s) =
     (if is_digit c \<or> hex \<and> lower c \<in> set ''abcdef'' then underscore_scan hex Saw_digit s
      else if c = CHR ''_'' then i = Saw_digit \<and> underscore_scan hex Saw_underscore s
      else i \<noteq> Saw_underscore \<and> underscore_scan hex Saw_other s)"

definition underscore_ok :: "string \<Rightarrow> bool" where
  "underscore_ok s =
     (if 2 \<le> length s \<and> hd s = CHR ''0'' \<and> lower (s ! 1) \<in> set ''box''
      then underscore_scan (lower (s ! 1) = CHR ''x'') Saw_digit (drop 2 s)
      else underscore_scan False Saw_begin s)"

definition drop_sign :: "string \<Rightarrow> bool \<times> string" where
  "drop_sign s = (if s \<noteq> [] \<and> (hd s = CHR ''+'' \<or> hd s = CHR ''-'') then (hd s = CHR ''-'', tl s) else (False, s))"

text \<open>\<^verbatim>\<open>strconv.ParseInt(s, 0, 64)\<close>; None for an error.\<close>

definition parse_int :: "string \<Rightarrow> int option" where
  "parse_int s =
     (case drop_sign s of
        (neg, u) \<Rightarrow>
          if u = [] then None
          else (case base_prefix u of
                  (base, ds) \<Rightarrow>
                    (case parse_digits base 0 ds of
                       None \<Rightarrow> None
                     | Some n \<Rightarrow>
                         if CHR ''_'' \<in> set u \<and> \<not> underscore_ok u then None
                         else if neg then (if n \<le> 2 ^ 63 then Some (- int n) else None)
                         else if n < 2 ^ 63 then Some (int n) else None)))"

definition parse_bool :: "string \<Rightarrow> bool option" where
  "parse_bool s =
     (if s \<in> set [''1'', ''t'', ''T'', ''TRUE'', ''true'', ''True''] then Some True
      else if s \<in> set [''0'', ''f'', ''F'', ''FALSE'', ''false'', ''False''] then Some False
      else None)"

section \<open>time.ParseDuration\<close>

text \<open>The units in nanoseconds; the micro sign and the Greek letter stand for micro.\<close>

definition unit_map :: "(string \<times> nat) list" where
  "unit_map =
     [(''ns'', 1), (''us'', 10 ^ 3), ([CHR 0xC2, CHR 0xB5, CHR ''s''], 10 ^ 3), ([CHR 0xCE, CHR 0xBC, CHR ''s''], 10 ^ 3),
      (''ms'', 10 ^ 6), (''s'', 10 ^ 9), (''m'', 60 * 10 ^ 9), (''h'', 3600 * 10 ^ 9)]"

fun leading_int :: "nat \<Rightarrow> string \<Rightarrow> (nat \<times> string) option" where
  "leading_int x [] = Some (x, [])"
| "leading_int x (c # s) =
     (if \<not> is_digit c then Some (x, c # s)
      else if 2 ^ 63 div 10 < x \<or> 2 ^ 63 < 10 * x + char_digit c then None
      else leading_int (10 * x + char_digit c) s)"

text \<open>The digits of a fraction and how many they are; those that no longer fit are dropped.\<close>

fun leading_fraction :: "bool \<Rightarrow> nat \<Rightarrow> nat \<Rightarrow> string \<Rightarrow> nat \<times> nat \<times> string" where
  "leading_fraction overflow x k [] = (x, k, [])"
| "leading_fraction overflow x k (c # s) =
     (if \<not> is_digit c then (x, k, c # s)
      else if overflow \<or> (2 ^ 63 - 1) div 10 < x \<or> 2 ^ 63 < 10 * x + char_digit c then leading_fraction True x k s
      else leading_fraction False (10 * x + char_digit c) (Suc k) s)"

text \<open>
  \<^verbatim>\<open>uint64(float64(f) * (float64(unit) / scale))\<close>, where \<open>scale\<close> starts as 1 and is
  multiplied by 10 for every digit, all in float64.
\<close>

definition f64_mul_pos :: "float64 \<Rightarrow> float64 \<Rightarrow> float64" where
  "f64_mul_pos x y = round64 False (val64 x * val64 y)"

definition fraction_scale :: "nat \<Rightarrow> float64" where
  "fraction_scale k = (f64_mul_pos (f64_of_int 10) ^^ k) f64_one"

definition fraction_part :: "nat \<Rightarrow> nat \<Rightarrow> nat \<Rightarrow> nat" where
  "fraction_part f k u =
     nat \<lfloor>val64 (f64_mul_pos (f64_of_int (int f)) (f64_div (f64_of_int (int u)) (fraction_scale k)))\<rfloor>"

text \<open>The whole number, the digits of the fraction with their count, and the rest; None without digits.\<close>

definition duration_number :: "string \<Rightarrow> (nat \<times> nat \<times> nat \<times> string) option" where
  "duration_number s =
     Option.bind (leading_int 0 s) (\<lambda>(v, r).
       if r \<noteq> [] \<and> hd r = CHR ''.''
       then (case leading_fraction False 0 0 (tl r) of
               (f, k, r2) \<Rightarrow>
                 if length r = length s \<and> length r2 = length (tl r) then None else Some (v, f, k, r2))
       else if length r = length s then None else Some (v, 0, 0, r))"

definition unit_name :: "string \<Rightarrow> string" where
  "unit_name s = takeWhile (\<lambda>c. c \<noteq> CHR ''.'' \<and> \<not> is_digit c) s"

text \<open>One number with its unit: its nanoseconds and the rest; None for an error.\<close>

definition duration_part :: "string \<Rightarrow> (nat \<times> string) option" where
  "duration_part s =
     Option.bind (duration_number s) (\<lambda>(v, f, k, r).
       if unit_name r = [] then None
       else Option.bind (map_of unit_map (unit_name r)) (\<lambda>u.
         if 2 ^ 63 div u < v then None
         else let w = v * u + (if 0 < f then fraction_part f k u else 0)
              in if 2 ^ 63 < w then None else Some (w, drop (length (unit_name r)) r)))"

lemma leading_int_length: "leading_int x s = Some (v, r) \<Longrightarrow> length r \<le> length s"
  by (induction x s rule: leading_int.induct) (auto split: if_splits)

lemma leading_fraction_length: "leading_fraction b x k s = (f, k', r) \<Longrightarrow> length r \<le> length s"
  by (induction b x k s rule: leading_fraction.induct) (auto split: if_splits)

lemma duration_number_length:
  assumes "duration_number s = Some (v, f, k, r)"
  shows "length r \<le> length s"
proof -
  obtain x r1 where i: "leading_int 0 s = Some (x, r1)"
    using assms by (auto simp: duration_number_def bind_eq_Some_conv)
  obtain g j r2 where g: "leading_fraction False 0 0 (tl r1) = (g, j, r2)" by (metis prod_cases3)
  have "r = r2 \<or> r = r1" using assms by (auto simp: duration_number_def i g split: if_splits)
  with leading_int_length [OF i] leading_fraction_length [OF g] show ?thesis by auto
qed

text \<open>Every part takes at least the name of its unit, so the loop over the parts ends.\<close>

lemma duration_part_length:
  assumes "duration_part s = Some (w, r)"
  shows "length r < length s"
proof -
  obtain v f k r0 where n: "duration_number s = Some (v, f, k, r0)" "unit_name r0 \<noteq> []" "r = drop (length (unit_name r0)) r0"
    using assms by (auto simp: duration_part_def bind_eq_Some_conv Let_def split: if_splits)
  have "r0 \<noteq> []" using n(2) by (auto simp: unit_name_def)
  then have "length r < length r0" using n(2) by (simp add: n(3))
  with duration_number_length [OF n(1)] show ?thesis by simp
qed

function duration_parts :: "nat \<Rightarrow> string \<Rightarrow> nat option" where
  "duration_parts d s =
     (if s = [] then Some d
      else if \<not> (hd s = CHR ''.'' \<or> is_digit (hd s)) then None
      else case duration_part s of
             None \<Rightarrow> None
           | Some (w, r) \<Rightarrow> if 2 ^ 63 < d + w then None else duration_parts (d + w) r)"
  by pat_completeness auto
termination
  by (relation "measure (\<lambda>(d, s). length s)") (auto dest: duration_part_length)

declare duration_parts.simps [simp del]

text \<open>\<^verbatim>\<open>time.ParseDuration\<close>, in nanoseconds; None for an error.\<close>

definition parse_duration :: "string \<Rightarrow> int option" where
  "parse_duration s =
     (case drop_sign s of
        (neg, u) \<Rightarrow>
          if u = ''0'' then Some 0
          else if u = [] then None
          else Option.bind (duration_parts 0 u)
                 (\<lambda>d. if neg then Some (- int d) else if 2 ^ 63 \<le> d then None else Some (int d)))"

text \<open>The results fit int64.\<close>

definition int64_range :: "int set" where
  "int64_range = {- (2 ^ 63) ..< 2 ^ 63}"

lemma parse_int_range: "parse_int s = Some i \<Longrightarrow> i \<in> int64_range"
  by (auto simp: parse_int_def int64_range_def split: prod.splits option.splits if_splits)

lemma duration_parts_bound: "duration_parts d s = Some n \<Longrightarrow> d \<le> 2 ^ 63 \<Longrightarrow> n \<le> 2 ^ 63"
proof (induction d s rule: duration_parts.induct)
  case (1 d s)
  from 1(2) show ?case
    by (subst (asm) duration_parts.simps) (use 1 in \<open>auto split: if_splits option.splits prod.splits\<close>)
qed

lemma parse_duration_range: "parse_duration s = Some i \<Longrightarrow> i \<in> int64_range"
  by (auto simp: parse_duration_def int64_range_def bind_eq_Some_conv split: prod.splits if_splits
      dest!: duration_parts_bound)

section \<open>envconfig\<close>

text \<open>
  The kinds of fields that occur. A text for a list is split at its commas, unless it is
  blank; \<^verbatim>\<open>strings.TrimSpace\<close> knows the spaces of Unicode, here in UTF-8.
\<close>

datatype kind = K_string | K_strings | K_int | K_bool | K_duration

datatype setting =
    S_string string
  | S_strings "string list"
  | S_int int
  | S_bool bool
  | S_duration int

definition wide_spaces :: "string list" where
  "wide_spaces =
     [[CHR 0xC2, CHR 0x85], [CHR 0xC2, CHR 0xA0], [CHR 0xE1, CHR 0x9A, CHR 0x80]] @
     map (\<lambda>n. [CHR 0xE2, CHR 0x80, char_of n]) ([0x80 ..< 0x8B] @ [0xA8, 0xA9, 0xAF :: nat]) @
     [[CHR 0xE2, CHR 0x81, CHR 0x9F], [CHR 0xE3, CHR 0x80, CHR 0x80]]"

fun blank :: "string \<Rightarrow> bool" where
  "blank [] = True"
| "blank [a] = (a \<in> {CHR '' '', CHR 0x09, CHR 0x0A, CHR 0x0B, CHR 0x0C, CHR 0x0D})"
| "blank [a, b] = ([a, b] \<in> set wide_spaces \<or> blank [a] \<and> blank [b])"
| "blank (a # b # c # s) =
     (if blank [a] then blank (b # c # s)
      else if [a, b] \<in> set wide_spaces then blank (c # s)
      else [a, b, c] \<in> set wide_spaces \<and> blank s)"

fun process_field :: "kind \<Rightarrow> string \<Rightarrow> setting option" where
  "process_field K_string v = Some (S_string v)"
| "process_field K_strings v = Some (S_strings (if blank v then [] else strings_Split v '',''))"
| "process_field K_int v = map_option S_int (parse_int v)"
| "process_field K_bool v = map_option S_bool (parse_bool v)"
| "process_field K_duration v = map_option S_duration (parse_duration v)"

text \<open>A field with its tags; the empty text for no default.\<close>

record field_spec =
  fs_key :: string
  fs_kind :: kind
  fs_default :: string
  fs_required :: bool

datatype env_error = Required_missing string | Parse_failed string string

text \<open>
  What a field is set from: nothing, when it is missing and not required; an empty
  variable is not missing.
\<close>

definition field_text :: "environ \<Rightarrow> field_spec \<Rightarrow> env_error + string option" where
  "field_text env f =
     (case env (fs_key f) of
        Some v \<Rightarrow> Inr (Some v)
      | None \<Rightarrow>
          if fs_default f \<noteq> [] then Inr (Some (fs_default f))
          else if fs_required f then Inl (Required_missing (fs_key f))
          else Inr None)"

definition field_setting :: "environ \<Rightarrow> field_spec \<Rightarrow> env_error + setting option" where
  "field_setting env f =
     (case field_text env f of
        Inl err \<Rightarrow> Inl err
      | Inr None \<Rightarrow> Inr None
      | Inr (Some v) \<Rightarrow>
          (case process_field (fs_kind f) v of
             None \<Rightarrow> Inl (Parse_failed (fs_key f) v)
           | Some x \<Rightarrow> Inr (Some x)))"

text \<open>
  \<^verbatim>\<open>Process\<close> goes through the fields and returns at the first error. The fields set until
  then stay set; all others keep their zero value.
\<close>

type_synonym settings = "(string \<times> setting) list"

fun process_fields :: "environ \<Rightarrow> field_spec list \<Rightarrow> settings \<times> env_error option" where
  "process_fields env [] = ([], None)"
| "process_fields env (f # fs) =
     (case field_setting env f of
        Inl err \<Rightarrow> ([], Some err)
      | Inr None \<Rightarrow> process_fields env fs
      | Inr (Some x) \<Rightarrow> (case process_fields env fs of (xs, err) \<Rightarrow> ((fs_key f, x) # xs, err)))"

definition get_string :: "settings \<Rightarrow> string \<Rightarrow> string" where
  "get_string m k = (case map_of m k of Some (S_string v) \<Rightarrow> v | _ \<Rightarrow> [])"

definition get_strings :: "settings \<Rightarrow> string \<Rightarrow> string list" where
  "get_strings m k = (case map_of m k of Some (S_strings vs) \<Rightarrow> vs | _ \<Rightarrow> [])"

definition get_int :: "settings \<Rightarrow> string \<Rightarrow> int" where
  "get_int m k = (case map_of m k of Some (S_int i) \<Rightarrow> i | _ \<Rightarrow> 0)"

definition get_bool :: "settings \<Rightarrow> string \<Rightarrow> bool" where
  "get_bool m k = (case map_of m k of Some (S_bool b) \<Rightarrow> b | _ \<Rightarrow> False)"

definition get_duration :: "settings \<Rightarrow> string \<Rightarrow> int" where
  "get_duration m k = (case map_of m k of Some (S_duration d) \<Rightarrow> d | _ \<Rightarrow> 0)"

text \<open>What comes of the fields before the first bad one, and of those after it.\<close>

definition field_good :: "environ \<Rightarrow> field_spec \<Rightarrow> bool" where
  "field_good env f = (\<exists>x. field_setting env f = Inr x)"

lemma process_fields_append:
  "list_all (field_good env) xs \<Longrightarrow>
     process_fields env (xs @ ys) = (fst (process_fields env xs) @ fst (process_fields env ys), snd (process_fields env ys))"
  by (induction xs) (auto simp: field_good_def split: option.splits prod.splits)

lemma process_fields_bad:
  "\<not> field_good env f \<Longrightarrow> \<exists>err. process_fields env (f # fs) = ([], Some err)"
  by (cases "field_setting env f") (auto simp: field_good_def)

lemma process_fields_stops:
  "\<not> list_all (field_good env) xs \<Longrightarrow> process_fields env (xs @ ys) = process_fields env xs"
  by (induction xs) (auto simp: field_good_def split: sum.splits option.splits prod.splits)

lemma process_fields_ok: "snd (process_fields env fs) = None \<longleftrightarrow> list_all (field_good env) fs"
  by (induction fs) (auto simp: field_good_def split: sum.splits option.splits prod.splits)

lemma process_fields_origin:
  "(k, x) \<in> set (fst (process_fields env fs)) \<Longrightarrow> \<exists>f\<in>set fs. fs_key f = k \<and> field_setting env f = Inr (Some x)"
  by (induction fs) (auto split: sum.splits option.splits prod.splits)

lemma process_fields_absent: "k \<notin> fs_key ` set fs \<Longrightarrow> map_of (fst (process_fields env fs)) k = None"
  using process_fields_origin by (fastforce simp: map_of_eq_None_iff)

text \<open>When nothing is bad, every field has what its variable or its default gives.\<close>

lemma process_fields_value:
  assumes "list_all (field_good env) fs" "distinct (map fs_key fs)" "f \<in> set fs"
  shows "field_setting env f = Inr (map_of (fst (process_fields env fs)) (fs_key f))"
  using assms
proof (induction fs)
  case (Cons g fs)
  have g: "map_of (fst (process_fields env fs)) (fs_key g) = None"
    using Cons.prems(2) by (intro process_fields_absent) auto
  obtain x where x: "field_setting env g = Inr x" using Cons.prems(1) by (auto simp: field_good_def)
  show ?case
  proof (cases "f = g")
    case True
    with g x show ?thesis by (cases x) (auto split: prod.splits)
  next
    case False
    then have "f \<in> set fs" using Cons.prems(3) by simp
    moreover from this have "fs_key f \<in> set (map fs_key fs)" by simp
    ultimately have "f \<in> set fs" "fs_key f \<noteq> fs_key g" using Cons.prems(2) by (simp, metis distinct.simps(2) list.map(2))
    with Cons x show ?thesis by (cases x) (auto split: prod.splits)
  qed
qed simp

text \<open>A field has a value of its kind, and numbers fit int64.\<close>

fun fits :: "kind \<Rightarrow> setting \<Rightarrow> bool" where
  "fits K_string (S_string v) = True"
| "fits K_strings (S_strings vs) = True"
| "fits K_int (S_int i) = (i \<in> int64_range)"
| "fits K_bool (S_bool b) = True"
| "fits K_duration (S_duration d) = (d \<in> int64_range)"
| "fits k x = False"

lemma process_field_fits: "process_field k v = Some x \<Longrightarrow> fits k x"
  by (cases k) (auto dest: parse_int_range parse_duration_range)

lemma field_setting_fits: "field_setting env f = Inr (Some x) \<Longrightarrow> fits (fs_kind f) x"
  by (auto simp: field_setting_def dest: process_field_fits split: sum.splits option.splits)

lemma settings_fit: "(k, x) \<in> set (fst (process_fields env fs)) \<Longrightarrow> \<exists>kd. fits kd x"
  by (blast dest: process_fields_origin field_setting_fits)

lemma zero_int64 [simp]: "0 \<in> int64_range"
  by (simp add: int64_range_def)

lemma fits_int64:
  "fits kd (S_int i) \<Longrightarrow> i \<in> int64_range" "fits kd (S_duration i) \<Longrightarrow> i \<in> int64_range"
  by (cases kd; simp)+

lemma get_int_range: "get_int (fst (process_fields env fs)) k \<in> int64_range"
  using settings_fit fits_int64 by (fastforce simp: get_int_def split: option.split setting.split dest: map_of_SomeD)

lemma get_duration_range: "get_duration (fst (process_fields env fs)) k \<in> int64_range"
  using settings_fit fits_int64 by (fastforce simp: get_duration_def split: option.split setting.split dest: map_of_SomeD)

lemma get_absent:
  assumes "map_of m k = None"
  shows "get_string m k = []" "get_strings m k = []" "get_int m k = 0" "get_bool m k = False" "get_duration m k = 0"
  using assms by (simp_all add: get_string_def get_strings_def get_int_def get_bool_def get_duration_def)

lemmas parse_number_defs = parse_int_def parse_duration_def drop_sign_def base_prefix_def digit_value_def is_digit_def
  lower_def char_digit_def duration_parts.simps duration_part_def duration_number_def unit_name_def unit_map_def

end
