(* ===== verification/Construction.thy ===== *)
theory Construction
  imports SystemSafety Hydrator Environment
begin

text \<open>
  How the two programs put themselves together: the settings they read from the environment,
  the \<^verbatim>\<open>FromEnv\<close> constructors, and the first part of both \<^verbatim>\<open>main\<close> functions, up to where the
  loop over the messages starts. What the clients of redis, opensearch and kafka answer when
  they are connected is the record \<open>services\<close>.
\<close>

section \<open>Starting\<close>

text \<open>
  A constructor gives a value, ends the process through \<^verbatim>\<open>log.Fatal\<close>, or panics. An error
  that is returned is a value.
\<close>

datatype 'a start = Started 'a | Fatal | Start_panic

fun start_bind :: "'a start \<Rightarrow> ('a \<Rightarrow> 'b start) \<Rightarrow> 'b start" where
  "start_bind (Started x) f = f x"
| "start_bind Fatal f = Fatal"
| "start_bind Start_panic f = Start_panic"

lemma start_bind_Started [simp]: "start_bind x f = Started y \<longleftrightarrow> (\<exists>u. x = Started u \<and> f u = Started y)"
  by (cases x) auto

lemma start_bind_panic [simp]: "start_bind x f = Start_panic \<longleftrightarrow> x = Start_panic \<or> (\<exists>u. x = Started u \<and> f u = Start_panic)"
  by (cases x) auto

lemma fatal_on_error [simp]:
  "(case x of Inl e \<Rightarrow> Fatal | Inr y \<Rightarrow> f y) = Started z \<longleftrightarrow> (\<exists>y. x = Inr y \<and> f y = Started z)"
  by (cases x) auto

lemma panic_on_None [simp]:
  "(case x of None \<Rightarrow> Start_panic | Some y \<Rightarrow> f y) = Started z \<longleftrightarrow> (\<exists>y. x = Some y \<and> f y = Started z)"
  by (cases x) auto

lemma error_passed [simp]:
  "(case x of Inl e \<Rightarrow> Inl e | Inr y \<Rightarrow> f y) = Inr z \<longleftrightarrow> (\<exists>y. x = Inr y \<and> f y = Inr z)"
  by (cases x) auto

datatype start_error = Bad_env env_error | Bad_mechanism mechanism_error | Bad_expiration string

text \<open>A constructor that panics on a false condition.\<close>

definition unless_panic :: "bool \<Rightarrow> 'a start \<Rightarrow> 'a start" where
  "unless_panic ok x = (if ok then x else Start_panic)"

lemma unless_panic_Started [simp]: "unless_panic ok x = Started y \<longleftrightarrow> ok \<and> x = Started y"
  by (simp add: unless_panic_def)

section \<open>The settings\<close>

definition optional_field :: "string \<Rightarrow> kind \<Rightarrow> string \<Rightarrow> field_spec" where
  "optional_field k kd d = \<lparr> fs_key = k, fs_kind = kd, fs_default = d, fs_required = False \<rparr>"

definition required_field :: "string \<Rightarrow> kind \<Rightarrow> field_spec" where
  "required_field k kd = \<lparr> fs_key = k, fs_kind = kd, fs_default = [], fs_required = True \<rparr>"

lemma field_spec_simps [simp]:
  "fs_key (optional_field k kd d) = k" "fs_kind (optional_field k kd d) = kd" "fs_default (optional_field k kd d) = d"
  "\<not> fs_required (optional_field k kd d)"
  "fs_key (required_field k kd) = k" "fs_kind (required_field k kd) = kd" "fs_default (required_field k kd) = []"
  "fs_required (required_field k kd)"
  by (simp_all add: optional_field_def required_field_def)

subsection \<open>opensearch/utils.go\<close>

record opensearch_env_config =
  oc_NumWorkers :: int
  oc_FlushBytes :: int
  oc_FlushInterval :: int
  oc_BulkTimeout :: int
  oc_Username :: string
  oc_Password :: string
  oc_Address :: string
  oc_ResponseTimeout :: int
  oc_DialTimeout :: int
  oc_SSLInsecureSkipVerify :: bool
  oc_IndexPrefix :: string
  oc_ConfigIndex :: string
  oc_DocId :: string

definition opensearch_fields :: "field_spec list" where
  "opensearch_fields =
     [optional_field ''OPENSEARCH_BULK_WORKERS'' K_int ''1'',
      optional_field ''OPENSEARCH_BULK_FLUSH_BYTES'' K_int ''10000000'',
      optional_field ''OPENSEARCH_BULK_FLUSH_INTERVAL'' K_duration ''120s'',
      optional_field ''OPENSEARCH_BULK_TIMEOUT'' K_duration ''90s'',
      required_field ''OPENSEARCH_USERNAME'' K_string,
      required_field ''OPENSEARCH_PASSWORD'' K_string,
      required_field ''OPENSEARCH_ADDRESS'' K_string,
      optional_field ''OPENSEARCH_RESPONSE_TIMEOUT'' K_duration ''90s'',
      optional_field ''OPENSEARCH_DIAL_TIMEOUT'' K_duration ''1s'',
      optional_field ''OPENSEARCH_SSL_INSECURE_SKIP_VERIFY'' K_bool ''false'',
      required_field ''OPENSEARCH_INDEX_PREFIX'' K_string,
      required_field ''OPENSEARCH_CONFIG_INDEX'' K_string,
      optional_field ''OPENSEARCH_CONFIG_DOC_ID'' K_string ''projection_config'']"

text \<open>The error is only logged, and the config is used as far as it was filled.\<close>

definition getConfigFromEnv :: "environ \<Rightarrow> opensearch_env_config" where
  "getConfigFromEnv env =
     (let m = fst (process_fields env opensearch_fields) in
      \<lparr> oc_NumWorkers = get_int m ''OPENSEARCH_BULK_WORKERS'',
        oc_FlushBytes = get_int m ''OPENSEARCH_BULK_FLUSH_BYTES'',
        oc_FlushInterval = get_duration m ''OPENSEARCH_BULK_FLUSH_INTERVAL'',
        oc_BulkTimeout = get_duration m ''OPENSEARCH_BULK_TIMEOUT'',
        oc_Username = get_string m ''OPENSEARCH_USERNAME'',
        oc_Password = get_string m ''OPENSEARCH_PASSWORD'',
        oc_Address = get_string m ''OPENSEARCH_ADDRESS'',
        oc_ResponseTimeout = get_duration m ''OPENSEARCH_RESPONSE_TIMEOUT'',
        oc_DialTimeout = get_duration m ''OPENSEARCH_DIAL_TIMEOUT'',
        oc_SSLInsecureSkipVerify = get_bool m ''OPENSEARCH_SSL_INSECURE_SKIP_VERIFY'',
        oc_IndexPrefix = get_string m ''OPENSEARCH_INDEX_PREFIX'',
        oc_ConfigIndex = get_string m ''OPENSEARCH_CONFIG_INDEX'',
        oc_DocId = get_string m ''OPENSEARCH_CONFIG_DOC_ID'' \<rparr>)"

subsection \<open>The other settings\<close>

definition kafka_fields :: "field_spec list" where
  "kafka_fields =
     [required_field ''KAFKA_BOOTSTRAP_SERVER'' K_string,
      optional_field ''KAFKA_CLIENT_ID'' K_string [],
      optional_field ''KAFKA_CLIENT_SECRET'' K_string [],
      optional_field ''KAFKA_SASL_MECHANISM'' K_string ''PLAIN'',
      required_field ''KAFKA_EVENT_STREAM_TOPIC'' K_string,
      required_field ''KAFKA_GROUP_ID'' K_string,
      optional_field ''KAFKA_EVENT_STREAM_TOPIC_DESTINATION'' K_string []]"

definition kafka_config_of :: "settings \<Rightarrow> kafka_config" where
  "kafka_config_of m =
     \<lparr> kc_bootstrap_server = get_string m ''KAFKA_BOOTSTRAP_SERVER'', kc_client_id = get_string m ''KAFKA_CLIENT_ID'',
       kc_client_secret = get_string m ''KAFKA_CLIENT_SECRET'', kc_sasl_mechanism = get_string m ''KAFKA_SASL_MECHANISM'',
       kc_topic = get_string m ''KAFKA_EVENT_STREAM_TOPIC'', kc_group_id = get_string m ''KAFKA_GROUP_ID'',
       kc_destination_topic = get_string m ''KAFKA_EVENT_STREAM_TOPIC_DESTINATION'' \<rparr>"

definition channels_fields :: "field_spec list" where
  "channels_fields =
     [optional_field ''DOWNLOAD_CHANNEL_BUFFER_SIZE'' K_int ''1000'',
      optional_field ''UNTAR_CHANNEL_BUFFER_SIZE'' K_int ''1000'',
      optional_field ''EVENT_CHANNEL_BUFFER_SIZE'' K_int ''1000'']"

record channels_config =
  cc_DownloadChannelBufferSize :: int
  cc_UntarChannelBufferSize :: int
  cc_EventChannelBufferSize :: int

definition channels_config_of :: "settings \<Rightarrow> channels_config" where
  "channels_config_of m =
     \<lparr> cc_DownloadChannelBufferSize = get_int m ''DOWNLOAD_CHANNEL_BUFFER_SIZE'',
       cc_UntarChannelBufferSize = get_int m ''UNTAR_CHANNEL_BUFFER_SIZE'',
       cc_EventChannelBufferSize = get_int m ''EVENT_CHANNEL_BUFFER_SIZE'' \<rparr>"

definition downloader_fields :: "field_spec list" where
  "downloader_fields = [required_field ''DOWNLOAD_DIRECTORY'' K_string]"

definition extractor_fields :: "field_spec list" where
  "extractor_fields = [required_field ''WORK_DIRECTORY'' K_string]"

definition projection_fields :: "field_spec list" where
  "projection_fields = [optional_field ''EXCLUDED_USER_NAMES'' K_strings []]"

text \<open>\<^verbatim>\<open>envconfig.Process("", &config)\<close> with the error returned to the caller.\<close>

definition from_env :: "(settings \<Rightarrow> 'a) \<Rightarrow> field_spec list \<Rightarrow> environ \<Rightarrow> start_error + 'a" where
  "from_env mk fs env =
     (case process_fields env fs of
        (m, Some err) \<Rightarrow> Inl (Bad_env err)
      | (m, None) \<Rightarrow> Inr (mk m))"

section \<open>The services\<close>

text \<open>
  What \<^verbatim>\<open>opensearch.NewClient\<close> is given, and a client stands for it; the settings of the bulk
  indexer.
\<close>

record client_config =
  cl_addresses :: "string list"
  cl_username :: string
  cl_password :: string
  cl_response_timeout :: int
  cl_dial_timeout :: int
  cl_insecure :: bool

record bulk_config =
  bk_client :: client_config
  bk_workers :: int
  bk_flush_bytes :: int
  bk_flush_interval :: int
  bk_refresh :: string
  bk_timeout :: int

text \<open>
  The commands of a redis client, whether the servers answer, the \<^verbatim>\<open>Add\<close> of a bulk indexer,
  the number of processors, and the greatest size with which \<^verbatim>\<open>make\<close> succeeds for an element
  type.
\<close>

record 's services =
  sv_redis :: "string \<Rightarrow> string \<Rightarrow> 's redis_cmd"
  sv_ping :: "string \<Rightarrow> string \<Rightarrow> bool"
  sv_new_client :: "client_config \<Rightarrow> bool"
  sv_info :: "client_config \<Rightarrow> bool"
  sv_add :: "bulk_config \<Rightarrow> bulk_item list bulk_add"
  sv_cpus :: nat
  sv_max_make :: "string \<Rightarrow> int"
  sv_scram :: scram_check

definition can_make :: "'s services \<Rightarrow> string \<Rightarrow> int \<Rightarrow> bool" where
  "can_make sv elem n = (0 \<le> n \<and> n \<le> sv_max_make sv elem)"

section \<open>The parts of the consumer\<close>

subsection \<open>opensearch\<close>

definition NewOpensearchClientFromEnv :: "'s services \<Rightarrow> environ \<Rightarrow> client_config start" where
  "NewOpensearchClientFromEnv sv env =
     (let envConfig = getConfigFromEnv env;
          cfg = \<lparr> cl_addresses = [oc_Address envConfig], cl_username = oc_Username envConfig,
                  cl_password = oc_Password envConfig, cl_response_timeout = oc_ResponseTimeout envConfig,
                  cl_dial_timeout = oc_DialTimeout envConfig, cl_insecure = oc_SSLInsecureSkipVerify envConfig \<rparr>
      in if \<not> sv_new_client sv cfg then Fatal else if \<not> sv_info sv cfg then Fatal else Started cfg)"

text \<open>
  \<^verbatim>\<open>opensearchutil.NewBulkIndexer\<close>: zeros stand for defaults; the queue, the buffers of the
  workers and the ticker are made at once. It returns no error.
\<close>

definition NewBulkIndexer :: "'s services \<Rightarrow> bulk_config \<Rightarrow> bulk_config start" where
  "NewBulkIndexer sv cfg =
     (let cfg1 = (if bk_workers cfg = 0 then cfg \<lparr> bk_workers := int (sv_cpus sv) \<rparr> else cfg);
          cfg2 = (if bk_flush_bytes cfg1 = 0 then cfg1 \<lparr> bk_flush_bytes := 5000000 \<rparr> else cfg1);
          cfg3 = (if bk_flush_interval cfg2 = 0 then cfg2 \<lparr> bk_flush_interval := 30 * 10 ^ 9 \<rparr> else cfg2)
      in unless_panic (can_make sv ''BulkIndexerItem'' (bk_workers cfg3) \<and> can_make sv ''byte'' (bk_flush_bytes cfg3) \<and>
           0 < bk_flush_interval cfg3) (Started cfg3))"

definition NewBulkIndexerFromEnv :: "'s services \<Rightarrow> environ \<Rightarrow> client_config \<Rightarrow> bulk_config start" where
  "NewBulkIndexerFromEnv sv env client =
     (let envConfig = getConfigFromEnv env in
      NewBulkIndexer sv \<lparr> bk_client = client, bk_workers = oc_NumWorkers envConfig, bk_flush_bytes = oc_FlushBytes envConfig,
        bk_flush_interval = oc_FlushInterval envConfig, bk_refresh = ''false'', bk_timeout = oc_BulkTimeout envConfig \<rparr>)"

record event_repository =
  er_indexPrefix :: string
  er_opensearch :: client_config
  er_bulk :: bulk_config

definition NewEnrichedEventRepository ::
  "'s services \<Rightarrow> environ \<Rightarrow> client_config \<Rightarrow> string \<Rightarrow> event_repository start" where
  "NewEnrichedEventRepository sv env opensearch indexPrefix =
     start_bind (NewBulkIndexerFromEnv sv env opensearch) (\<lambda>bulkIndexer.
       Started \<lparr> er_indexPrefix = indexPrefix, er_opensearch = opensearch, er_bulk = bulkIndexer \<rparr>)"

definition NewEnrichedEventRepositoryFromEnv :: "'s services \<Rightarrow> environ \<Rightarrow> event_repository start" where
  "NewEnrichedEventRepositoryFromEnv sv env =
     (let envConfig = getConfigFromEnv env in
      start_bind (NewOpensearchClientFromEnv sv env) (\<lambda>opensearch.
        NewEnrichedEventRepository sv env opensearch (oc_IndexPrefix envConfig)))"

record config_repository =
  cr_client :: client_config
  cr_index :: string
  cr_docId :: string

definition NewProjectionConfigRepository :: "environ \<Rightarrow> client_config \<Rightarrow> config_repository" where
  "NewProjectionConfigRepository env client =
     (let envConfig = getConfigFromEnv env in
      \<lparr> cr_client = client, cr_index = oc_ConfigIndex envConfig, cr_docId = oc_DocId envConfig \<rparr>)"

subsection \<open>redis\<close>

definition NewRedisClientFromEnv :: "'s services \<Rightarrow> environ \<Rightarrow> 's redis_cmd start" where
  "NewRedisClientFromEnv sv env =
     (let addr = os_Getenv env ''VALKEY_ADDRESS''; password = os_Getenv env ''VALKEY_PASSWORD''
      in if sv_ping sv addr password then Started (sv_redis sv addr password) else Fatal)"

definition expiration_text :: "environ \<Rightarrow> string" where
  "expiration_text env =
     (let s = os_Getenv env ''VALKEY_EXPIRATION'' in if s = [] then ''720h'' else s)"

definition NewSnapshotRepositoryFromEnv ::
  "'s services \<Rightarrow> environ \<Rightarrow> range_order \<Rightarrow> (start_error + 's snapshot_repository) start" where
  "NewSnapshotRepositoryFromEnv sv env ord =
     start_bind (NewRedisClientFromEnv sv env) (\<lambda>redis.
       Started (case parse_duration (expiration_text env) of
                  None \<Rightarrow> Inl (Bad_expiration (expiration_text env))
                | Some expiration \<Rightarrow> Inr (NewSnapshotRepository redis expiration ord)))"

subsection \<open>projection\<close>

text \<open>\<^verbatim>\<open>NewEnrichedEventsProjection\<close> reads the excluded users itself.\<close>

definition excluded_users :: "environ \<Rightarrow> start_error + string list" where
  "excluded_users env = from_env (\<lambda>m. get_strings m ''EXCLUDED_USER_NAMES'') projection_fields env"

definition NewEnrichedEventsProjectionFromEnv ::
  "'s services \<Rightarrow> environ \<Rightarrow> process_env \<Rightarrow> range_order \<Rightarrow> (start_error + ('s, bulk_item list) projection) start" where
  "NewEnrichedEventsProjectionFromEnv sv env penv ord =
     start_bind (NewEnrichedEventRepositoryFromEnv sv env) (\<lambda>repo.
     start_bind (NewSnapshotRepositoryFromEnv sv env ord) (\<lambda>res.
       Started (case res of
         Inl err \<Rightarrow> Inl err
       | Inr snapshots \<Rightarrow>
           (case excluded_users env of
              Inl err \<Rightarrow> Inl err
            | Inr users \<Rightarrow>
                Inr (NewEnrichedEventsProjection penv snapshots (sv_add sv (er_bulk repo)) (er_indexPrefix repo) users)))))"

section \<open>The parts of the stream\<close>

text \<open>
  \<^verbatim>\<open>kafka.NewReader\<close> panics on settings it does not take; of those given here only an empty
  topic can be wrong.
\<close>

definition kafka_reader_ok :: "reader_config \<Rightarrow> bool" where
  "kafka_reader_ok c = (rc_brokers c \<noteq> [] \<and> rc_topic c \<noteq> [] \<and> rc_min_bytes c \<le> rc_max_bytes c)"

definition NewKafkaReaderFromEnv :: "'s services \<Rightarrow> environ \<Rightarrow> (start_error + reader_config) start" where
  "NewKafkaReaderFromEnv sv env =
     (case from_env kafka_config_of kafka_fields env of
        Inl err \<Rightarrow> Started (Inl err)
      | Inr envConfig \<Rightarrow>
          (case NewKafkaReader (sv_scram sv) envConfig of
             Inl err \<Rightarrow> Started (Inl (Bad_mechanism err))
           | Inr config \<Rightarrow> unless_panic (kafka_reader_ok config) (Started (Inr config))))"

definition NewWriter :: "'s services \<Rightarrow> environ \<Rightarrow> start_error + writer_config" where
  "NewWriter sv env =
     (case from_env kafka_config_of kafka_fields env of
        Inl err \<Rightarrow> Inl err
      | Inr config \<Rightarrow>
          (case newProducer (sv_scram sv) config of
             Inl err \<Rightarrow> Inl (Bad_mechanism err)
           | Inr p \<Rightarrow> Inr p))"

section \<open>The parts of the hydrator\<close>

record file_downloader =
  fd_downloadDir :: string

definition NewFileDownloader :: "string \<Rightarrow> file_downloader" where
  "NewFileDownloader downloadDir = \<lparr> fd_downloadDir = downloadDir \<rparr>"

definition NewFileDownloaderFromEnv :: "environ \<Rightarrow> start_error + file_downloader" where
  "NewFileDownloaderFromEnv env =
     (case from_env (\<lambda>m. get_string m ''DOWNLOAD_DIRECTORY'') downloader_fields env of
        Inl err \<Rightarrow> Inl err
      | Inr dir \<Rightarrow> Inr (NewFileDownloader dir))"

record event_extractor =
  ex_workDir :: string
  ex_eventsBufferSize :: int

definition NewEventExtractorFromEnv :: "environ \<Rightarrow> channels_config \<Rightarrow> start_error + event_extractor" where
  "NewEventExtractorFromEnv env channelsConfig =
     (case from_env (\<lambda>m. get_string m ''WORK_DIRECTORY'') extractor_fields env of
        Inl err \<Rightarrow> Inl err
      | Inr dir \<Rightarrow> Inr \<lparr> ex_workDir = dir, ex_eventsBufferSize = cc_EventChannelBufferSize channelsConfig \<rparr>)"

record onprem_hydrator =
  oh_download_room :: nat
  oh_untar_room :: nat
  oh_extractor :: event_extractor
  oh_downloader :: file_downloader
  oh_writer :: writer_config

text \<open>None for the nil that comes of bad channel settings; all other errors end the process.\<close>

definition NewOnPremEventsHydrator :: "'s services \<Rightarrow> environ \<Rightarrow> onprem_hydrator option start" where
  "NewOnPremEventsHydrator sv env =
     (case from_env channels_config_of channels_fields env of
        Inl err \<Rightarrow> Started None
      | Inr cc \<Rightarrow>
          unless_panic (can_make sv ''DownloadUrlMessage'' (cc_DownloadChannelBufferSize cc) \<and>
                        can_make sv ''FilenameMessage'' (cc_UntarChannelBufferSize cc))
            (case NewFileDownloaderFromEnv env of
               Inl err \<Rightarrow> Fatal
             | Inr downloader \<Rightarrow>
                 (case NewEventExtractorFromEnv env cc of
                    Inl err \<Rightarrow> Fatal
                  | Inr extractor \<Rightarrow>
                      (case NewWriter sv env of
                         Inl err \<Rightarrow> Fatal
                       | Inr wr \<Rightarrow>
                           Started (Some \<lparr> oh_download_room = nat (cc_DownloadChannelBufferSize cc),
                             oh_untar_room = nat (cc_UntarChannelBufferSize cc), oh_extractor = extractor,
                             oh_downloader = downloader, oh_writer = wr \<rparr>)))))"

end
