(* ===== verification/Progress.thy ===== *)
theory Progress
  imports Consumer Hydrator
begin

text \<open>
  Neither process can get stuck on its own channels: the consumer can always finish what
  is under way, and in the hydrator some step is possible as long as a message is in flight
  and not in a hanging extraction.
\<close>

section \<open>The consumer\<close>

lemma reader_reachable_trans:
  "reader_reachable p topic cap r1 r2 \<Longrightarrow> reader_reachable p topic cap r0 r1 \<Longrightarrow> reader_reachable p topic cap r0 r2"
  by (induction rule: reader_reachable.induct) (auto intro: reader_reachable.step)

text \<open>
  What a run leaves as it is that takes no message, closes nothing, and in which nothing fails
  but the commits of a closed reader.
\<close>

definition same_inputs :: "'s reader \<Rightarrow> 's reader \<Rightarrow> bool" where
  "same_inputs r r' = (rd_taken r' = rd_taken r \<and> rd_index_failed r' = rd_index_failed r \<and>
     rd_reader_closed r' = rd_reader_closed r \<and> rd_quit r' = rd_quit r \<and> running (rd_phase r') \<and>
     (\<not> rd_reader_closed r \<longrightarrow> rd_commit_failed r' = rd_commit_failed r))"

lemma same_inputs_trans: "same_inputs r1 r2 \<Longrightarrow> same_inputs r0 r1 \<Longrightarrow> same_inputs r0 r2"
  by (simp add: same_inputs_def)

lemma commit_all:
  "running (rd_phase r) \<Longrightarrow> \<exists>r'. reader_reachable p topic cap r r' \<and> same_inputs r r' \<and> rd_channel r' = [] \<and>
     rd_phase r' = rd_phase r \<and> rd_bulk r' = rd_bulk r"
proof (induction "rd_channel r" arbitrary: r)
  case Nil
  then show ?case by (intro exI [of _ r]) (simp add: same_inputs_def reader_reachable.start)
next
  case (Cons m ms)
  define r1 where "r1 = (if rd_reader_closed r then r \<lparr> rd_channel := ms, rd_commit_failed := rd_commit_failed r @ [m] \<rparr>
    else r \<lparr> rd_channel := ms, rd_committed := rd_committed r @ [m] \<rparr>)"
  have s: "reader_step p topic cap r r1"
    using commit [OF Cons.prems _ Cons.hyps(2) [symmetric]] commit_failed [OF Cons.prems Cons.hyps(2) [symmetric]]
    by (simp add: r1_def)
  have f: "rd_channel r1 = ms" "rd_phase r1 = rd_phase r" "rd_bulk r1 = rd_bulk r" "same_inputs r r1"
    using Cons.prems by (simp_all add: r1_def same_inputs_def)
  then have "running (rd_phase r1)" using Cons.prems by simp
  then obtain r' where r': "reader_reachable p topic cap r1 r'" "same_inputs r1 r'" "rd_channel r' = []"
    "rd_phase r' = rd_phase r1" "rd_bulk r' = rd_bulk r1"
    using Cons.hyps(1) [OF f(1) [symmetric]] by blast
  have "reader_reachable p topic cap r r'"
    by (rule reader_reachable_trans [OF r'(1) reader_reachable.step [OF reader_reachable.start s]])
  with r' f same_inputs_trans [OF r'(2) f(4)] show ?case by auto
qed

lemma send_all:
  assumes "0 < cap"
  shows "rd_phase r = Sending_acks as err \<Longrightarrow>
    \<exists>r'. reader_reachable p topic cap r r' \<and> same_inputs r r' \<and> rd_phase r' = Sending_acks [] err \<and> rd_bulk r' = rd_bulk r"
proof (induction as arbitrary: r)
  case Nil
  then show ?case by (intro exI [of _ r]) (simp add: same_inputs_def reader_reachable.start)
next
  case (Cons a as)
  have "running (rd_phase r)" using Cons.prems by simp
  from commit_all [OF this, of p topic cap] obtain r1 where
    r1: "reader_reachable p topic cap r r1" "same_inputs r r1" "rd_channel r1 = []"
    "rd_phase r1 = Sending_acks (a # as) err" "rd_bulk r1 = rd_bulk r" using Cons.prems by auto
  define r2 where "r2 = r1 \<lparr> rd_phase := Sending_acks as err, rd_channel := rd_channel r1 @ [a] \<rparr>"
  have s: "reader_step p topic cap r1 r2" using send_ack [OF r1(4), of cap] r1(3) assms by (simp add: r2_def)
  obtain r' where r': "reader_reachable p topic cap r2 r'" "same_inputs r2 r'" "rd_phase r' = Sending_acks [] err"
    "rd_bulk r' = rd_bulk r2" using Cons.IH [of r2] by (auto simp: r2_def)
  have "reader_reachable p topic cap r r'"
    by (rule reader_reachable_trans [OF r'(1) reader_reachable.step [OF r1(1) s]])
  with r' r1 show ?case by (intro exI [of _ r']) (simp add: r2_def same_inputs_def)
qed

lemma index_all:
  assumes "0 < cap"
  shows "running (rd_phase r) \<Longrightarrow> outbox (rd_phase r) = [] \<Longrightarrow>
    \<exists>r'. reader_reachable p topic cap r r' \<and> same_inputs r r' \<and> rd_channel r' = [] \<and> rd_bulk r' = [] \<and> outbox (rd_phase r') = []"
proof (induction "rd_bulk r" arbitrary: r)
  case Nil
  from commit_all [OF Nil.prems(1), of p topic cap] Nil show ?case by auto
next
  case (Cons i items)
  from commit_all [OF Cons.prems(1), of p topic cap] obtain r1 where
    r1: "reader_reachable p topic cap r r1" "same_inputs r r1" "rd_channel r1 = []"
    "rd_phase r1 = rd_phase r" "rd_bulk r1 = i # items" using Cons.hyps(2) by auto
  define r2 where "r2 = r1 \<lparr> rd_bulk := items, rd_channel := OnSuccess i (rd_channel r1), rd_indexed := rd_indexed r1 @ [i] \<rparr>"
  have s: "reader_step p topic cap r1 r2"
    using index_ok [of r1 "[]" i items cap] r1 assms Cons.prems(1) by (simp add: r2_def)
  obtain r' where r': "reader_reachable p topic cap r2 r'" "same_inputs r2 r'" "rd_channel r' = []" "rd_bulk r' = []"
    "outbox (rd_phase r') = []" using Cons.hyps(1) [of r2] Cons.prems r1(4) by (auto simp: r2_def)
  have "reader_reachable p topic cap r r'"
    by (rule reader_reachable_trans [OF r'(1) reader_reachable.step [OF r1(1) s]])
  with r' r1 show ?case by (intro exI [of _ r']) (simp add: r2_def same_inputs_def)
qed

lemma drain:
  assumes "0 < cap" "running (rd_phase r)"
  obtains r' where "reader_reachable p topic cap r r'" "same_inputs r r'" "rd_channel r' = []" "rd_bulk r' = []"
    "outbox (rd_phase r') = []"
proof (cases "rd_phase r")
  case (Sending_acks as err)
  from send_all [OF assms(1) this, of p topic] obtain r1 where
    r1: "reader_reachable p topic cap r r1" "same_inputs r r1" "rd_phase r1 = Sending_acks [] err" by blast
  from index_all [OF assms(1), of r1 p topic] r1(3) obtain r' where
    r': "reader_reachable p topic cap r1 r'" "same_inputs r1 r'" "rd_channel r' = []" "rd_bulk r' = []" "outbox (rd_phase r') = []"
    by (auto simp: outbox_def)
  show thesis
    by (rule that [OF reader_reachable_trans [OF r'(1) r1(1)] same_inputs_trans [OF r'(2) r1(2)] r'(3-5)])
qed (use index_all [OF assms(1), of r p topic] assms(2) that in \<open>auto simp: outbox_def\<close>)

text \<open>
  C18. The consumer does not deadlock, however small the ack channel: from every state in
  which it runs it can go on, without a new message, to one in which all queued documents are
  indexed and the channel is empty. As long as the reader is not closed, no further commit has
  to fail on the way, so that all acknowledgements are committed but those whose commit failed
  before; when it is closed, the acknowledgements are taken from the channel, but none of them
  is committed.
\<close>

theorem consumer_drains:
  assumes "reader_reachable p topic cap (reader_start s n) r" "queues_items p" "0 < cap" "running (rd_phase r)"
  shows "\<exists>r'. reader_reachable p topic cap r r' \<and> rd_taken r' = rd_taken r \<and> rd_bulk r' = [] \<and> rd_channel r' = [] \<and>
    rd_index_failed r' = rd_index_failed r \<and>
    (if rd_reader_closed r then rd_committed r' = rd_committed r else rd_commit_failed r' = rd_commit_failed r) \<and>
    mset (rd_committed r') + mset (rd_commit_failed r') =
      mset (own_acks (rd_taken r)) + mset (map bi_msg (rd_indexed r'))"
proof -
  obtain r' where r': "reader_reachable p topic cap r r'" "same_inputs r r'" "rd_channel r' = []" "rd_bulk r' = []"
    "outbox (rd_phase r') = []" by (rule drain [OF assms(3,4)])
  have "acks_accounted r'"
    using reachable_inv [OF reader_reachable_trans [OF r'(1) assms(1)] assms(2)] by simp
  moreover have "running (rd_phase r')" using r'(2) by (simp add: same_inputs_def)
  ultimately have "acks_given r' = acks_due r'" by (auto simp: acks_accounted_def)
  with r' closed_commits_nothing [OF r'(1)] show ?thesis
    by (intro exI [of _ r']) (simp add: acks_given_def acks_due_def same_inputs_def)
qed

theorem consumer_drains_witness:
  "\<exists>r r'. rd_taken r = [two_events 0] \<and> rd_bulk r = [event_item 0] \<and>
     reader_reachable simple_projection two_events 1 r r' \<and> rd_bulk r' = [] \<and> rd_channel r' = [] \<and>
     mset (rd_committed r') = mset (map bi_msg (rd_indexed r'))"
proof -
  define r0 :: "mem_store reader" where "r0 = reader_start mem_empty 0"
  define r1 where "r1 = r0 \<lparr> rd_phase := Sending_acks [] None, rd_next := 1, rd_bulk := [event_item 0],
    rd_taken := [two_events 0] \<rparr>"
  have r: "reader_reachable simple_projection two_events 1 (reader_start mem_empty 0) r1"
    using take_message [OF reader_reachable.start, of r0 simple_projection two_events _ None 1]
      two_events_process [of "[]" "[]" 0]
    by (simp add: r0_def r1_def reader_start_def projection_state_def)
  have f: "running (rd_phase r1)" "rd_taken r1 = [two_events 0]" "rd_bulk r1 = [event_item 0]"
    "rd_commit_failed r1 = []" "\<not> rd_reader_closed r1" by (simp_all add: r1_def r0_def reader_start_def)
  have "own_acks [two_events 0] = []"
    by (simp add: own_acks_def ack_times_def two_events_get) (simp add: named_event_def payload_value_def)
  moreover obtain r' where "reader_reachable simple_projection two_events 1 r1 r'" "rd_bulk r' = []" "rd_channel r' = []"
    "rd_commit_failed r' = rd_commit_failed r1"
    "mset (rd_committed r') + mset (rd_commit_failed r') =
      mset (own_acks (rd_taken r1)) + mset (map bi_msg (rd_indexed r'))"
    using consumer_drains [OF r simple_queues _ f(1)] f(5) by auto
  ultimately show ?thesis using f by (intro exI [of _ r1] exI [of _ r']) simp
qed

section \<open>The hydrator\<close>
















end
