(* ===== verification/Shutdown.thy ===== *)
theory Shutdown
  imports Progress
begin

text \<open>
  The end of the consumer: the goroutine \<^verbatim>\<open>gracefulShutdown\<close> of \<^verbatim>\<open>cmd/consumer/main.go\<close>, which
  closes the reader and the projection on a signal, while \<^verbatim>\<open>main\<close> ends the process as soon
  as \<^verbatim>\<open>Consume\<close> has returned. The steps are those of \<open>Consumer\<close>; here is what they allow.
\<close>

section \<open>A good end is possible\<close>

lemma ends:
  assumes "running (rd_phase r)" "outbox (rd_phase r) = []" "rd_quit r"
  obtains r' m where "reader_reachable p topic cap r r'" "rd_phase r' = Exited m" "rd_taken r' = rd_taken r"
    "rd_bulk r' = rd_bulk r" "rd_channel r' = rd_channel r" "rd_committed r' = rd_committed r"
    "rd_commit_failed r' = rd_commit_failed r" "rd_indexed r' = rd_indexed r"
    "rd_index_failed r' = rd_index_failed r"
proof -
  note finish = that
  have returned: thesis if "reader_reachable p topic cap r (r \<lparr> rd_phase := Returned res \<rparr>)" for res
  proof -
    have "reader_step p topic cap (r \<lparr> rd_phase := Returned res \<rparr>) (r \<lparr> rd_phase := Exited (exit_code res) \<rparr>)"
      using main_ends [of "r \<lparr> rd_phase := Returned res \<rparr>" res p topic cap] by simp
    from finish [OF reader_reachable.step [OF that this]] show thesis by simp
  qed
  have one: "reader_reachable p topic cap r r'" if "reader_step p topic cap r r'" for r'
    by (rule reader_reachable.step [OF reader_reachable.start that])
  show thesis
  proof (cases "rd_phase r")
    case Selecting
    show thesis by (rule returned [OF one [OF stop [OF Selecting assms(3)]]])
  next
    case Fetching
    show thesis by (rule returned [OF one [OF fetch_failed [OF Fetching]]])
  next
    case (Sending_acks as err)
    with assms(2) have s: "rd_phase r = Sending_acks [] err" by (simp add: outbox_def)
    show thesis
    proof (cases err)
      case None
      let ?r = "r \<lparr> rd_phase := Selecting \<rparr>"
      have "reader_reachable p topic cap r ?r" by (rule one [OF message_done [OF s [unfolded None]]])
      moreover have "reader_step p topic cap ?r (r \<lparr> rd_phase := Returned Quit \<rparr>)"
        using stop [of ?r p topic cap] assms(3) by simp
      ultimately show thesis by (rule returned [OF reader_reachable.step])
    next
      case (Some e)
      show thesis by (rule returned [OF one [OF message_error [OF s [unfolded Some]]]])
    qed
  next
    case (Returned res)
    then have "r \<lparr> rd_phase := Returned res \<rparr> = r" by simp
    with returned [of res] show thesis by (simp add: reader_reachable.start)
  qed (use assms(1) in simp_all)
qed

text \<open>
  C19. After a signal the consumer can still finish its work and exit: from every state in
  which it runs, it can index all queued documents, empty the ack channel and exit, without
  taking another message and without a document that fails. Whether the acknowledgements are
  committed depends on how far the shutdown has got: before the reader of kafka-go is closed
  they all can be; once it is closed, no run commits anything more, so that documents indexed
  while the projection is closed are read and indexed again after a restart.
\<close>

theorem consumer_ends:
  assumes "reader_reachable p topic cap (reader_start s n) r" "queues_items p" "0 < cap" "running (rd_phase r)" "rd_quit r"
  shows "(\<exists>r' m. reader_reachable p topic cap r r' \<and> rd_phase r' = Exited m \<and> rd_taken r' = rd_taken r \<and>
      rd_bulk r' = [] \<and> rd_channel r' = [] \<and> rd_index_failed r' = rd_index_failed r \<and>
      mset (rd_committed r') + mset (rd_commit_failed r') = acks_due r' \<and>
      (\<not> rd_reader_closed r \<longrightarrow> rd_commit_failed r' = rd_commit_failed r)) \<and>
    (rd_reader_closed r \<longrightarrow> (\<forall>r'. reader_reachable p topic cap r r' \<longrightarrow> rd_committed r' = rd_committed r))"
proof -
  obtain r1 where r1: "reader_reachable p topic cap r r1" "same_inputs r r1" "rd_channel r1 = []" "rd_bulk r1 = []"
    "outbox (rd_phase r1) = []" by (rule drain [OF assms(3,4)])
  have run: "running (rd_phase r1)" "rd_quit r1" using r1(2) assms(5) by (simp_all add: same_inputs_def)
  obtain r' m where r': "reader_reachable p topic cap r1 r'" "rd_phase r' = Exited m" "rd_taken r' = rd_taken r1"
    "rd_bulk r' = rd_bulk r1" "rd_channel r' = rd_channel r1" "rd_commit_failed r' = rd_commit_failed r1"
    "rd_index_failed r' = rd_index_failed r1"
    by (rule ends [OF run(1) r1(5) run(2)])
  note all = reader_reachable_trans [OF r'(1) r1(1)]
  have "acks_given r' = acks_due r'"
    using reachable_inv [OF reader_reachable_trans [OF all assms(1)] assms(2)] r'(2) by (simp add: acks_accounted_def)
  then have "mset (rd_committed r') + mset (rd_commit_failed r') = acks_due r'"
    using r'(2,5) r1(3) by (simp add: acks_given_def outbox_def)
  with r' r1(2-4) all have "\<exists>r' m. reader_reachable p topic cap r r' \<and> rd_phase r' = Exited m \<and> rd_taken r' = rd_taken r \<and>
      rd_bulk r' = [] \<and> rd_channel r' = [] \<and> rd_index_failed r' = rd_index_failed r \<and>
      mset (rd_committed r') + mset (rd_commit_failed r') = acks_due r' \<and>
      (\<not> rd_reader_closed r \<longrightarrow> rd_commit_failed r' = rd_commit_failed r)"
    by (intro exI [of _ r'] exI [of _ m]) (simp add: same_inputs_def)
  with closed_commits_nothing [of p topic cap r] show ?thesis by blast
qed

section \<open>What can go wrong\<close>

lemma lost_reachable:
  assumes "0 < cap" "km_offset (topic (Suc n)) = Suc n"
    "ProcessMessage p \<lparr> ps_snap = s, ps_bulk = [], ps_acks = [] \<rparr> (topic n) =
       Return (\<lparr> ps_snap = s1, ps_bulk = [i1], ps_acks = [] \<rparr>, None)"
    "ProcessMessage p \<lparr> ps_snap = s1, ps_bulk = [i1], ps_acks = [] \<rparr> (topic (Suc n)) =
       Return (\<lparr> ps_snap = s2, ps_bulk = [i1, i2], ps_acks = [] \<rparr>, None)"
    "bi_msg i2 = topic (Suc n)"
  shows "\<exists>r. reader_reachable p topic cap (reader_start s n) r \<and> rd_phase r = Exited 0 \<and>
    rd_taken r = [topic n, topic (Suc n)] \<and> rd_bulk r = [i1] \<and> rd_indexed r = [i2] \<and> rd_index_failed r = [] \<and>
    rd_committed r = [topic (Suc n)] \<and> n < group_offset r"
proof -
  let ?R = "reader_start s n" and ?step = "reader_step p topic cap"
  define r1 where "r1 = ?R \<lparr> rd_phase := Sending_acks [] None, rd_next := Suc n, rd_snap := s1, rd_bulk := [i1],
    rd_taken := [topic n] \<rparr>"
  define r2 where "r2 = r1 \<lparr> rd_phase := Selecting \<rparr>"
  define r3 where "r3 = r2 \<lparr> rd_phase := Sending_acks [] None, rd_next := Suc (Suc n), rd_snap := s2,
    rd_bulk := [i1, i2], rd_taken := [topic n, topic (Suc n)] \<rparr>"
  define r4 where "r4 = r3 \<lparr> rd_phase := Selecting \<rparr>"
  define r5 where "r5 = r4 \<lparr> rd_bulk := [i1], rd_channel := [topic (Suc n)], rd_indexed := [i2] \<rparr>"
  define r6 where "r6 = r5 \<lparr> rd_channel := [], rd_committed := [topic (Suc n)] \<rparr>"
  define r7 where "r7 = r6 \<lparr> rd_quit := True, rd_shutdown := Closing_reader \<rparr>"
  define r8 where "r8 = r7 \<lparr> rd_phase := Returned Quit \<rparr>"
  define r9 where "r9 = r8 \<lparr> rd_phase := Exited 0 \<rparr>"
  note defs = r1_def r2_def r3_def r4_def r5_def r6_def r7_def r8_def r9_def reader_start_def projection_state_def
  have "reader_reachable p topic cap ?R r1"
    using take_message [OF reader_reachable.start, of ?R p topic _ None cap] assms(3) by (simp add: defs)
  moreover have "?step r1 r2" using message_done [of r1 p topic cap] by (simp add: defs)
  ultimately have "reader_reachable p topic cap ?R r2" by (meson reader_reachable.step)
  then have "reader_reachable p topic cap ?R r3"
    using take_message [of p topic cap ?R r2 _ None] assms(4) by (simp add: defs)
  moreover have "?step r3 r4" using message_done [of r3 p topic cap] by (simp add: defs)
  moreover have "?step r4 r5" using index_ok [of r4 "[i1]" i2 "[]" cap p topic] assms(1,5) by (simp add: defs OnSuccess_def)
  moreover have "?step r5 r6" using commit [of r5 "topic (Suc n)" "[]" p topic cap] by (simp add: defs)
  moreover have "?step r6 r7" using signal [of r6 p topic cap] by (simp add: defs KafkaReader_Close_def)
  moreover have "?step r7 r8" using stop [of r7 p topic cap] by (simp add: defs)
  moreover have "?step r8 r9" using main_ends [of r8 Quit p topic cap] by (simp add: defs)
  ultimately have "reader_reachable p topic cap ?R r9" by (meson reader_reachable.step)
  then show ?thesis using assms(2) by (intro exI [of _ r9]) (simp add: defs group_offset_def committed_offset_def)
qed

text \<open>
  C20. The process can end before the bulk indexer is flushed, with the document of the first
  of two events still in its queue, while the commit of the second has moved the offset of
  the group past the first. Nothing failed, and the exit code is 0, but the document is lost.
\<close>

theorem shutdown_loses_document:
  assumes "0 < cap" "km_offset (topic (Suc n)) = Suc n"
    "ProcessMessage p \<lparr> ps_snap = s, ps_bulk = [], ps_acks = [] \<rparr> (topic n) =
       Return (\<lparr> ps_snap = s1, ps_bulk = [i1], ps_acks = [] \<rparr>, None)"
    "ProcessMessage p \<lparr> ps_snap = s1, ps_bulk = [i1], ps_acks = [] \<rparr> (topic (Suc n)) =
       Return (\<lparr> ps_snap = s2, ps_bulk = [i1, i2], ps_acks = [] \<rparr>, None)"
    "bi_msg i2 = topic (Suc n)"
  shows "\<exists>r. reader_reachable p topic cap (reader_start s n) r \<and> rd_phase r = Exited 0 \<and>
    rd_taken r = [topic n, topic (Suc n)] \<and> rd_bulk r = [i1] \<and> rd_indexed r = [i2] \<and> rd_index_failed r = [] \<and>
    rd_committed r = [topic (Suc n)] \<and> n < group_offset r"
  by (rule lost_reachable [OF assms])

text \<open>
  C39. A signal can break the process. A second one, when the first has been handled, closes
  a closed channel; and when the first comes while a message is fetched, the message is
  still processed, and its document is sent to the closed queue of the indexer.
\<close>

theorem signal_breaks_consumer:
  assumes "ProcessMessage p \<lparr> ps_snap = s, ps_bulk = [], ps_acks = [] \<rparr> (topic n) =
       Return (\<lparr> ps_snap = s1, ps_bulk = [i], ps_acks = [] \<rparr>, None)"
  shows "(\<exists>r. reader_reachable p topic cap (reader_start s n) r \<and> rd_phase r = Crashed Closed_twice) \<and>
    (\<exists>r. reader_reachable p topic cap (reader_start s n) r \<and> rd_phase r = Crashed Store_after_close)"
proof -
  let ?R = "reader_start s n" and ?step = "reader_step p topic cap"
  define r1 where "r1 = ?R \<lparr> rd_phase := Fetching \<rparr>"
  define r2 where "r2 = r1 \<lparr> rd_quit := True, rd_shutdown := Closing_reader \<rparr>"
  define r2b where "r2b = r2 \<lparr> rd_reader_closed := True \<rparr>"
  define r3 where "r3 = r2b \<lparr> rd_bulk_closed := True, rd_shutdown := Closing_projection \<rparr>"
  define r4 where "r4 = r3 \<lparr> rd_shutdown := Waiting \<rparr>"
  note defs = r1_def r2_def r2b_def r3_def r4_def reader_start_def projection_state_def
  have "?step ?R r1" using select_default [of ?R p topic cap] by (simp add: defs)
  moreover have "?step r1 r2" using signal [of r1 p topic cap] by (simp add: defs KafkaReader_Close_def)
  moreover have "?step r2 r2b" using close_reader [of r2 p topic cap] by (simp add: defs)
  moreover have "?step r2b r3" using close_projection [of r2b p topic cap] by (simp add: defs Projection_Close_def)
  ultimately have run: "reader_reachable p topic cap ?R r3" by (meson reader_reachable.start reader_reachable.step)
  have "?step r3 r4" using closed [of r3 p topic cap] by (simp add: defs)
  moreover have "?step r4 (r4 \<lparr> rd_phase := Crashed Closed_twice \<rparr>)"
    using signal [of r4 p topic cap] by (simp add: defs KafkaReader_Close_def)
  ultimately have "reader_reachable p topic cap ?R (r4 \<lparr> rd_phase := Crashed Closed_twice \<rparr>)"
    using run by (meson reader_reachable.step)
  moreover have "?step r3 (r3 \<lparr> rd_phase := Crashed Store_after_close \<rparr>)"
    using store_closed [of r3 p topic _ None cap] assms by (simp add: defs)
  ultimately show ?thesis using reader_reachable.step [OF run] by fastforce
qed

section \<open>The results at a concrete run\<close>

theorem shutdown_loses_document_witness:
  "\<exists>r. reader_reachable simple_projection two_events 1 (reader_start mem_empty 0) r \<and> rd_phase r = Exited 0 \<and>
     rd_bulk r = [event_item 0] \<and> rd_committed r = [two_events 1] \<and> 0 < group_offset r"
proof -
  have "\<exists>r. reader_reachable simple_projection two_events 1 (reader_start mem_empty 0) r \<and> rd_phase r = Exited 0 \<and>
      rd_taken r = [two_events 0, two_events (Suc 0)] \<and> rd_bulk r = [event_item 0] \<and> rd_indexed r = [event_item 1] \<and>
      rd_index_failed r = [] \<and> rd_committed r = [two_events (Suc 0)] \<and> 0 < group_offset r"
    by (rule shutdown_loses_document [where s = mem_empty and ?s1.0 = mem_empty and ?s2.0 = mem_empty])
      (simp_all add: two_events_process, simp_all add: two_events_def event_item_def)
  then show ?thesis by auto
qed

theorem signal_breaks_consumer_witness:
  "\<exists>r. reader_reachable simple_projection two_events 1 (reader_start mem_empty 0) r \<and>
     rd_phase r = Crashed Store_after_close"
  using signal_breaks_consumer [of simple_projection mem_empty two_events 0 mem_empty "event_item 0" 1]
  by (simp add: two_events_process)

theorem consumer_ends_witness:
  "\<exists>r r' m. rd_taken r = [two_events 0] \<and> rd_bulk r = [event_item 0] \<and> rd_quit r \<and>
     reader_reachable simple_projection two_events 1 r r' \<and> rd_phase r' = Exited m \<and> rd_bulk r' = []"
proof -
  define r0 :: "mem_store reader" where "r0 = reader_start mem_empty 0"
  define r1 where "r1 = r0 \<lparr> rd_phase := Sending_acks [] None, rd_next := 1, rd_bulk := [event_item 0],
    rd_taken := [two_events 0] \<rparr>"
  have "reader_reachable simple_projection two_events 1 (reader_start mem_empty 0) r1"
    using take_message [OF reader_reachable.start, of r0 simple_projection two_events _ None 1]
      two_events_process [of "[]" "[]" 0]
    by (simp add: r0_def r1_def reader_start_def projection_state_def)
  moreover have "reader_step simple_projection two_events 1 r1 (KafkaReader_Close r1)"
    by (rule signal) (simp_all add: r1_def r0_def reader_start_def)
  ultimately have r: "reader_reachable simple_projection two_events 1 (reader_start mem_empty 0) (KafkaReader_Close r1)"
    by (rule reader_reachable.step)
  have f: "running (rd_phase (KafkaReader_Close r1))" "rd_taken (KafkaReader_Close r1) = [two_events 0]"
    "rd_bulk (KafkaReader_Close r1) = [event_item 0]" "rd_quit (KafkaReader_Close r1)"
    by (simp_all add: r1_def r0_def reader_start_def)
  from consumer_ends [OF r simple_queues _ f(1,4)] f show ?thesis by fastforce
qed

end
