(* ===== verification/Programs.thy ===== *)
theory Programs
  imports Construction Shutdown
begin

text \<open>
  The two \<^verbatim>\<open>main\<close> functions and the logger, and what holds of a consumer and of a hydrator that its
  \<^verbatim>\<open>main\<close> has started, as far as it depends on the environment.
\<close>

section \<open>utils/logger.go\<close>

datatype log_level = PanicLevel | FatalLevel | ErrorLevel | WarnLevel | InfoLevel | DebugLevel | TraceLevel

text \<open>
  \<^verbatim>\<open>strings.ToLower\<close>, as far as its result can be one of the names of the levels: besides the
  letters of ASCII, the capital I with a dot becomes an i.
\<close>

fun lower_text :: "string \<Rightarrow> string" where
  "lower_text [] = []"
| "lower_text [a] = [lower a]"
| "lower_text (a # b # s) =
     (if a = CHR 0xC4 \<and> b = CHR 0xB0 then CHR ''i'' # lower_text s else lower a # lower_text (b # s))"

definition ParseLevel :: "string \<Rightarrow> log_level option" where
  "ParseLevel lvl =
     map_of [(''panic'', PanicLevel), (''fatal'', FatalLevel), (''error'', ErrorLevel), (''warn'', WarnLevel),
       (''warning'', WarnLevel), (''info'', InfoLevel), (''debug'', DebugLevel), (''trace'', TraceLevel)] (lower_text lvl)"

text \<open>The level of the logger; all else of it is fixed.\<close>

definition NewLogger :: "environ \<Rightarrow> log_level" where
  "NewLogger env =
     (case ParseLevel (case env ''LOG_LEVEL'' of Some lvl \<Rightarrow> lvl | None \<Rightarrow> ''debug'') of
        Some level \<Rightarrow> level
      | None \<Rightarrow> DebugLevel)"

section \<open>The main functions\<close>





text \<open>
  \<^verbatim>\<open>main\<close> of the hydrator does not look at the hydrator it gets: on nil, the goroutine
  \<^verbatim>\<open>Listen\<close> panics.
\<close>

record onprem =
  op_level :: log_level
  op_reader :: reader_config
  op_hydrator :: onprem_hydrator

definition onprem_main :: "'s services \<Rightarrow> environ \<Rightarrow> onprem start" where
  "onprem_main sv env =
     start_bind (NewKafkaReaderFromEnv sv env) (\<lambda>res.
       case res of
         Inl err \<Rightarrow> Fatal
       | Inr rd \<Rightarrow>
           start_bind (NewOnPremEventsHydrator sv env) (\<lambda>h.
             case h of
               None \<Rightarrow> Start_panic
             | Some hy \<Rightarrow> Started \<lparr> op_level = NewLogger env, op_reader = rd, op_hydrator = hy \<rparr>))"

text \<open>
  The hydrator of \<open>Hydrator\<close> that was started, for an absolute download directory. A
  negative size of the event channel is found only when the first archive is extracted,
  where \<^verbatim>\<open>make\<close> panics.
\<close>

definition started_hydrator :: "download_env \<Rightarrow> tar_reader \<Rightarrow> onprem_hydrator \<Rightarrow> hydrator_config option" where
  "started_hydrator denv tar h =
     (if ex_eventsBufferSize (oh_extractor h) < 0 then None
      else Some \<lparr> hc_env = denv, hc_tar = tar, hc_download_dir = join_path [] (fd_downloadDir (oh_downloader h)),
        hc_download_size = oh_download_room h, hc_untar_size = oh_untar_room h,
        hc_event_size = nat (ex_eventsBufferSize (oh_extractor h)) \<rparr>)"

section \<open>What starts\<close>

lemma from_env_cases:
  "from_env mk fs env =
     (if list_all (field_good env) fs then Inr (mk (fst (process_fields env fs)))
      else Inl (Bad_env (the (snd (process_fields env fs)))))"
  using process_fields_ok [of env fs] by (auto simp: from_env_def split: prod.splits option.splits)





text \<open>The sizes of the channels of the hydrator.\<close>

definition channel_size :: "environ \<Rightarrow> string \<Rightarrow> int" where
  "channel_size env k = get_int (fst (process_fields env channels_fields)) k"

text \<open>What the environment says of a size: 1000 without a variable, else the number that its text is.\<close>

definition size_in_env :: "environ \<Rightarrow> string \<Rightarrow> int option" where
  "size_in_env env k = (case env k of None \<Rightarrow> Some 1000 | Some v \<Rightarrow> parse_int v)"

lemma channel_size_in_env:
  assumes "list_all (field_good env) channels_fields" "optional_field k K_int ''1000'' \<in> set channels_fields"
  shows "size_in_env env k = Some (channel_size env k)"
proof -
  let ?f = "optional_field k K_int ''1000''"
  have "distinct (map fs_key channels_fields)" by (simp add: channels_fields_def)
  then have f: "field_setting env ?f = Inr (map_of (fst (process_fields env channels_fields)) k)"
    using process_fields_value [OF assms(1) _ assms(2)] by simp
  obtain n where n: "size_in_env env k = Some n" "field_setting env ?f = Inr (Some (S_int n))"
  proof (cases "env k")
    case None
    then show thesis
      using that [of 1000] by (simp add: size_in_env_def field_setting_def field_text_def parse_number_defs)
  next
    case (Some v)
    then show thesis
      using that f by (auto simp: size_in_env_def field_setting_def field_text_def split: option.splits)
  qed
  then have "map_of (fst (process_fields env channels_fields)) k = Some (S_int n)" using f by simp
  with n(1) show ?thesis by (simp add: channel_size_def get_int_def)
qed

lemma started_hydrator_sizes:
  assumes "onprem_main sv env = Started p" "started_hydrator denv tar (op_hydrator p) = Some c"
  shows "list_all (field_good env) channels_fields" "int (hc_download_size c) = channel_size env ''DOWNLOAD_CHANNEL_BUFFER_SIZE''"
    "int (hc_untar_size c) = channel_size env ''UNTAR_CHANNEL_BUFFER_SIZE''"
    "int (hc_event_size c) = channel_size env ''EVENT_CHANNEL_BUFFER_SIZE''"
proof -
  define h where "h = op_hydrator p"
  have h: "NewOnPremEventsHydrator sv env = Started (Some h)"
    using assms(1) by (auto simp: onprem_main_def h_def)
  then show good: "list_all (field_good env) channels_fields"
    by (simp add: NewOnPremEventsHydrator_def from_env_cases split: if_splits)
  have c: "hc_download_size c = oh_download_room h" "hc_untar_size c = oh_untar_room h"
    "int (hc_event_size c) = ex_eventsBufferSize (oh_extractor h)"
    using assms(2) by (auto simp: started_hydrator_def h_def split: if_splits)
  show "int (hc_download_size c) = channel_size env ''DOWNLOAD_CHANNEL_BUFFER_SIZE''"
    "int (hc_untar_size c) = channel_size env ''UNTAR_CHANNEL_BUFFER_SIZE''"
    "int (hc_event_size c) = channel_size env ''EVENT_CHANNEL_BUFFER_SIZE''"
    using h good unfolding c
    by (auto simp: NewOnPremEventsHydrator_def from_env_cases [of channels_config_of] channels_config_of_def channel_size_def
        NewEventExtractorFromEnv_def can_make_def unless_panic_def split: if_splits)
qed

section \<open>Results\<close>



text \<open>
  When the hydrator panics at its start, after its reader was made: exactly when a size
  of a channel is no number, or no room can be made for the two channels. Its \<^verbatim>\<open>main\<close> does
  not check for the nil it gets in the first case.
\<close>

lemma onprem_start_panics:
  assumes "NewKafkaReaderFromEnv sv env = Started (Inr rd)"
  shows "onprem_main sv env = Start_panic \<longleftrightarrow>
    \<not> list_all (field_good env) channels_fields \<or>
    \<not> can_make sv ''DownloadUrlMessage'' (get_int (fst (process_fields env channels_fields)) ''DOWNLOAD_CHANNEL_BUFFER_SIZE'') \<or>
    \<not> can_make sv ''FilenameMessage'' (get_int (fst (process_fields env channels_fields)) ''UNTAR_CHANNEL_BUFFER_SIZE'')"
  using assms
  by (auto simp: onprem_main_def NewOnPremEventsHydrator_def from_env_cases channels_config_of_def unless_panic_def
      split: sum.splits)

text \<open>
  C26. A hydrator that has started has the channel sizes of its environment: for each of the
  three variables the number that its text is, whatever base it is written in, or 1000 when it
  is not set. So a text that is no number, or a negative one, never gives a hydrator that
  works. The two channels between its goroutines never hold more than that, and can be full.
\<close>

theorem started_hydrator_bounds:
  assumes "onprem_main sv env = Started p" "started_hydrator denv tar (op_hydrator p) = Some c"
  shows "size_in_env env ''DOWNLOAD_CHANNEL_BUFFER_SIZE'' = Some (int (hc_download_size c)) \<and>
    size_in_env env ''UNTAR_CHANNEL_BUFFER_SIZE'' = Some (int (hc_untar_size c)) \<and>
    size_in_env env ''EVENT_CHANNEL_BUFFER_SIZE'' = Some (int (hc_event_size c)) \<and>
    (\<forall>t s. hydrator_reachable c t s \<longrightarrow>
       length (hy_download_channel s) \<le> hc_download_size c \<and> length (hy_untar_channel s) \<le> hc_untar_size c) \<and>
    (\<forall>t msg url. OnPrem_ProcessMessage msg = Send_download url \<longrightarrow>
       (\<exists>s. hydrator_reachable c t s \<and> length (hy_download_channel s) = hc_download_size c))"
proof -
  note sizes = started_hydrator_sizes [OF assms]
  have "optional_field k K_int ''1000'' \<in> set channels_fields"
    if "k \<in> {''DOWNLOAD_CHANNEL_BUFFER_SIZE'', ''UNTAR_CHANNEL_BUFFER_SIZE'', ''EVENT_CHANNEL_BUFFER_SIZE''}" for k
    using that by (auto simp: channels_fields_def)
  then show ?thesis
    using hydrator_channels_bounded download_channel_fills channel_size_in_env [OF sizes(1)]
    by (simp add: sizes(2-4))
qed

section \<open>The results at a concrete environment\<close>

definition sample_settings :: "(string \<times> string) list" where
  "sample_settings =
     [(''KAFKA_BOOTSTRAP_SERVER'', ''k1:9092,k2:9092''), (''KAFKA_EVENT_STREAM_TOPIC'', ''events''),
      (''KAFKA_GROUP_ID'', ''projection''), (''OPENSEARCH_USERNAME'', ''u''), (''OPENSEARCH_PASSWORD'', ''p''),
      (''OPENSEARCH_ADDRESS'', ''http://os:9200''), (''OPENSEARCH_INDEX_PREFIX'', ''events-''),
      (''OPENSEARCH_CONFIG_INDEX'', ''config''), (''DOWNLOAD_DIRECTORY'', ''/downloads''), (''WORK_DIRECTORY'', ''/work'')]"

definition sample_services :: "mem_store services" where
  "sample_services = \<lparr> sv_redis = (\<lambda>addr password. mem_redis), sv_ping = (\<lambda>addr password. True),
     sv_new_client = (\<lambda>cfg. True), sv_info = (\<lambda>cfg. True), sv_add = (\<lambda>bulk. list_add), sv_cpus = 4,
     sv_max_make = (\<lambda>elem. 2 ^ 40), sv_scram = (\<lambda>u p. True) \<rparr>"

text \<open>With nothing about opensearch and redis but what is required, or with one bad setting.\<close>

definition sample_environ :: environ where
  "sample_environ = map_of sample_settings"

definition bad_flag_environ :: environ where
  "bad_flag_environ = map_of ((''OPENSEARCH_SSL_INSECURE_SKIP_VERIFY'', ''yes'') # sample_settings)"

lemmas environ_defs = sample_environ_def bad_flag_environ_def sample_settings_def

lemmas start_defs = from_env_def field_setting_def field_text_def optional_field_def required_field_def
  kafka_fields_def opensearch_fields_def projection_fields_def channels_fields_def downloader_fields_def extractor_fields_def

lemma sample_kafka:
  assumes "env = sample_environ \<or> env = bad_flag_environ"
  shows "from_env kafka_config_of kafka_fields env = Inr \<lparr> kc_bootstrap_server = ''k1:9092,k2:9092'', kc_client_id = [],
     kc_client_secret = [], kc_sasl_mechanism = ''PLAIN'', kc_topic = ''events'', kc_group_id = ''projection'',
     kc_destination_topic = [] \<rparr>"
  using assms by (elim disjE) (simp_all add: start_defs environ_defs kafka_config_of_def get_string_def)

lemma sample_reader:
  assumes "env = sample_environ \<or> env = bad_flag_environ"
  shows "\<exists>rd. NewKafkaReaderFromEnv sample_services env = Started (Inr rd)"
  by (simp add: NewKafkaReaderFromEnv_def sample_kafka [OF assms] NewKafkaReader_def kafka_reader_ok_def unless_panic_def
      strings_Split_def split_from.simps)






lemma sample_onprem:
  obtains p c where "onprem_main sample_services sample_environ = Started p"
    "started_hydrator (hc_env sample_config) (\<lambda>b. None) (op_hydrator p) = Some c"
proof -
  obtain rd where rd: "NewKafkaReaderFromEnv sample_services sample_environ = Started (Inr rd)"
    using sample_reader by blast
  have c: "from_env channels_config_of channels_fields sample_environ = Inr \<lparr> cc_DownloadChannelBufferSize = 1000,
      cc_UntarChannelBufferSize = 1000, cc_EventChannelBufferSize = 1000 \<rparr>"
    by (simp add: start_defs environ_defs parse_number_defs channels_config_of_def get_int_def)
  have "from_env (\<lambda>m. get_string m ''DOWNLOAD_DIRECTORY'') downloader_fields sample_environ = Inr ''/downloads''"
    "from_env (\<lambda>m. get_string m ''WORK_DIRECTORY'') extractor_fields sample_environ = Inr ''/work''"
    by (simp_all add: start_defs environ_defs get_string_def)
  moreover obtain wr where "NewWriter sample_services sample_environ = Inr wr"
    by (simp add: NewWriter_def sample_kafka newProducer_def getMechanism_def)
  moreover have "sv_max_make sample_services e = 2 ^ 40" for e by (simp add: sample_services_def)
  ultimately obtain h where h: "NewOnPremEventsHydrator sample_services sample_environ = Started (Some h)"
    "ex_eventsBufferSize (oh_extractor h) = 1000"
    by (simp add: NewOnPremEventsHydrator_def c can_make_def NewFileDownloaderFromEnv_def NewEventExtractorFromEnv_def)
  let ?p = "\<lparr> op_level = NewLogger sample_environ, op_reader = rd, op_hydrator = h \<rparr>"
  have "onprem_main sample_services sample_environ = Started ?p" by (simp add: onprem_main_def rd h(1))
  moreover obtain c where "started_hydrator (hc_env sample_config) (\<lambda>b. None) (op_hydrator ?p) = Some c"
    by (simp add: started_hydrator_def h(2))
  ultimately show thesis by (rule that)
qed

theorem started_hydrator_bounds_witness:
  "\<exists>p c s. onprem_main sample_services sample_environ = Started p \<and>
     started_hydrator (hc_env sample_config) (\<lambda>b. None) (op_hydrator p) = Some c \<and>
     hc_download_size c = 1000 \<and> hydrator_reachable c [] s \<and> length (hy_download_channel s) = 1000"
proof -
  obtain p c where p: "onprem_main sample_services sample_environ = Started p"
    "started_hydrator (hc_env sample_config) (\<lambda>b. None) (op_hydrator p) = Some c" by (rule sample_onprem)
  note b = started_hydrator_bounds [OF p]
  have "size_in_env sample_environ ''DOWNLOAD_CHANNEL_BUFFER_SIZE'' = Some 1000"
    by (simp add: size_in_env_def environ_defs)
  with b have size: "hc_download_size c = 1000" by simp
  have "valid_utf8 ''/bad''" by code_simp
  from b archive_msg_action [OF this] obtain s where
    "hydrator_reachable c [] s" "length (hy_download_channel s) = hc_download_size c" by blast
  with p size show ?thesis by (intro exI [of _ p] exI [of _ c] exI [of _ s]) simp
qed

end
