(* ===== verification/OnPremProgram.thy ===== *)
theory OnPremProgram
  imports OnPremEvents Programs
begin

text \<open>
  The hydrator as a process: the consuming loop of \<^verbatim>\<open>reader.go\<close> around its \<^verbatim>\<open>ProcessMessage\<close>,
  the listener and the goroutines, the committing goroutine, the signal handler, and the end
  of \<^verbatim>\<open>cmd/onprem/main.go\<close>. The steps of the hydrator are those of \<open>Hydrator\<close>.
\<close>

section \<open>The process\<close>

text \<open>A step sends at most one acknowledgement.\<close>

lemma step_acks_one: "hydrator_step c h h' \<Longrightarrow> hy_acks h' = hy_acks h \<or> (\<exists>m. hy_acks h' = hy_acks h @ [m])"
  by (induction rule: hydrator_step.induct) simp_all

text \<open>
  \<open>on_received\<close> counts the acknowledgements the committing goroutine took from the channel;
  what is in the channel are the others that were sent.
\<close>

record onprem_process =
  on_quit :: bool
  on_reader_closed :: bool
  on_shutdown :: shutdown
  on_phase :: phase
  on_next :: nat
  on_hyd :: hydrator
  on_received :: nat
  on_committed :: "kafka_msg list"
  on_commit_failed :: "kafka_msg list"

definition onprem_start :: "tree \<Rightarrow> nat \<Rightarrow> onprem_process" where
  "onprem_start t n = \<lparr> on_quit = False, on_reader_closed = False, on_shutdown = Waiting, on_phase = Selecting, on_next = n,
     on_hyd = hydrator_start t, on_received = 0, on_committed = [], on_commit_failed = [] \<rparr>"

definition ack_channel :: "onprem_process \<Rightarrow> kafka_msg list" where
  "ack_channel r = drop (on_received r) (hy_acks (on_hyd r))"

text \<open>A step that sends an acknowledgement waits for room in the channel.\<close>

definition has_room :: "nat \<Rightarrow> onprem_process \<Rightarrow> hydrator \<Rightarrow> bool" where
  "has_room cap r h = (hy_acks h = hy_acks (on_hyd r) \<or> length (ack_channel r) < cap)"

definition onprem_signal :: "onprem_process \<Rightarrow> onprem_process" where
  "onprem_signal r =
     (if on_quit r then r \<lparr> on_phase := Crashed Closed_twice \<rparr>
      else r \<lparr> on_quit := True, on_shutdown := Closing_reader \<rparr>)"

text \<open>
  As in \<open>reader_step\<close>, a commit reaches the broker only as long as the reader of kafka-go is not
  closed; the hydrator is closed after it.
\<close>

inductive onprem_step :: "hydrator_config \<Rightarrow> (nat \<Rightarrow> kafka_msg) \<Rightarrow> nat \<Rightarrow> onprem_process \<Rightarrow> onprem_process \<Rightarrow> bool"
  for c topic cap where
  on_signal: "running (on_phase r) \<Longrightarrow> on_shutdown r = Waiting \<Longrightarrow> onprem_step c topic cap r (onprem_signal r)"
| on_close_reader: "running (on_phase r) \<Longrightarrow> on_shutdown r = Closing_reader \<Longrightarrow> \<not> on_reader_closed r \<Longrightarrow>
    onprem_step c topic cap r (r \<lparr> on_reader_closed := True \<rparr>)"
| on_close: "running (on_phase r) \<Longrightarrow> on_shutdown r = Closing_reader \<Longrightarrow> on_reader_closed r \<Longrightarrow> closes c (on_hyd r) h \<Longrightarrow>
    onprem_step c topic cap r (r \<lparr> on_hyd := h, on_shutdown := Waiting \<rparr>)"
| on_stop: "on_phase r = Selecting \<Longrightarrow> on_quit r \<Longrightarrow> onprem_step c topic cap r (r \<lparr> on_phase := Returned Quit \<rparr>)"
| on_default: "on_phase r = Selecting \<Longrightarrow> \<not> on_quit r \<Longrightarrow> onprem_step c topic cap r (r \<lparr> on_phase := Fetching \<rparr>)"
| on_fetch_failed: "on_phase r = Fetching \<Longrightarrow> onprem_step c topic cap r (r \<lparr> on_phase := Returned Fetch_failed \<rparr>)"
| on_take: "on_phase r = Fetching \<Longrightarrow> takes c (topic (on_next r)) (on_hyd r) h \<Longrightarrow> has_room cap r h \<Longrightarrow>
    onprem_step c topic cap r (r \<lparr> on_phase := Selecting, on_next := Suc (on_next r), on_hyd := h \<rparr>)"
| on_work: "running (on_phase r) \<Longrightarrow> works c (on_hyd r) h \<Longrightarrow> has_room cap r h \<Longrightarrow>
    onprem_step c topic cap r (r \<lparr> on_hyd := h \<rparr>)"
| on_commit: "running (on_phase r) \<Longrightarrow> \<not> on_reader_closed r \<Longrightarrow> ack_channel r = m # ms \<Longrightarrow>
    onprem_step c topic cap r (r \<lparr> on_received := Suc (on_received r), on_committed := on_committed r @ [m] \<rparr>)"
| on_commit_fails: "running (on_phase r) \<Longrightarrow> ack_channel r = m # ms \<Longrightarrow>
    onprem_step c topic cap r (r \<lparr> on_received := Suc (on_received r), on_commit_failed := on_commit_failed r @ [m] \<rparr>)"
| on_main_ends: "on_phase r = Returned res \<Longrightarrow> onprem_step c topic cap r (r \<lparr> on_phase := Exited (exit_code res) \<rparr>)"

inductive onprem_reachable ::
  "hydrator_config \<Rightarrow> (nat \<Rightarrow> kafka_msg) \<Rightarrow> nat \<Rightarrow> onprem_process \<Rightarrow> onprem_process \<Rightarrow> bool" for c topic cap r0 where
  on_start: "onprem_reachable c topic cap r0 r0"
| on_step: "onprem_reachable c topic cap r0 r \<Longrightarrow> onprem_step c topic cap r r' \<Longrightarrow> onprem_reachable c topic cap r0 r'"

section \<open>Invariants\<close>

lemma hyd_step: "onprem_step c topic cap r r' \<Longrightarrow> on_hyd r' = on_hyd r \<or> hydrator_step c (on_hyd r) (on_hyd r')"
  by (induction rule: onprem_step.induct) (simp_all add: onprem_signal_def takes_def closes_def works_def)

text \<open>The process runs the hydrator: whatever holds of a reachable hydrator holds of its own.\<close>

lemma hyd_reachable:
  "onprem_reachable c topic cap (onprem_start t n) r \<Longrightarrow> hydrator_reachable c t (on_hyd r)"
proof (induction rule: onprem_reachable.induct)
  case on_start
  show ?case by (simp add: onprem_start_def hydrator_reachable.start)
next
  case (on_step r r')
  from hyd_step [OF on_step(2)] on_step(3) show ?case by (auto intro: hydrator_reachable.step)
qed

text \<open>The messages taken are those of the topic in order, and no acknowledgement gets lost.\<close>

definition onprem_inv :: "(nat \<Rightarrow> kafka_msg) \<Rightarrow> nat \<Rightarrow> nat \<Rightarrow> onprem_process \<Rightarrow> bool" where
  "onprem_inv topic n cap r =
     (hy_taken (on_hyd r) = map topic [n ..< on_next r] \<and> n \<le> on_next r \<and>
      on_received r \<le> length (hy_acks (on_hyd r)) \<and> length (hy_acks (on_hyd r)) \<le> on_received r + cap \<and>
      mset (on_committed r) + mset (on_commit_failed r) = mset (take (on_received r) (hy_acks (on_hyd r))))"

lemma received_more:
  assumes "drop k xs = m # ms"
  shows "k < length xs" "mset (take (Suc k) xs) = add_mset m (mset (take k xs))"
proof -
  show k: "k < length xs" using assms by (metis drop_all list.distinct(1) not_le)
  have "xs ! k = m" using assms k by (metis hd_drop_conv_nth list.sel(1))
  with k show "mset (take (Suc k) xs) = add_mset m (mset (take k xs))" by (simp add: take_Suc_conv_app_nth)
qed

lemma ack_room:
  assumes "hydrator_step c (on_hyd r) h" "has_room cap r h" "on_received r \<le> length (hy_acks (on_hyd r))"
    "length (hy_acks (on_hyd r)) \<le> on_received r + cap"
  shows "on_received r \<le> length (hy_acks h)" "length (hy_acks h) \<le> on_received r + cap"
    "take (on_received r) (hy_acks h) = take (on_received r) (hy_acks (on_hyd r))"
  using step_acks_one [OF assms(1)] assms(2-4) by (auto simp: has_room_def ack_channel_def)

lemma step_onprem_inv: "onprem_step c topic cap r r' \<Longrightarrow> onprem_inv topic n cap r \<Longrightarrow> onprem_inv topic n cap r'"
proof (induction rule: onprem_step.induct)
  case (on_close r h)
  from on_close(4) have "hydrator_step c (on_hyd r) h" "hy_taken h = hy_taken (on_hyd r)" "hy_acks h = hy_acks (on_hyd r)"
    by (auto simp: closes_def elim!: hydrator_step.cases)
  with on_close(5) show ?case by (simp add: onprem_inv_def ack_channel_def)
next
  case (on_take r h)
  then have s: "hydrator_step c (on_hyd r) h" "hy_taken h = hy_taken (on_hyd r) @ [topic (on_next r)]"
    by (simp_all add: takes_def)
  with ack_room [OF s(1) on_take(3)] on_take(4) show ?case by (simp add: onprem_inv_def ack_channel_def)
next
  case (on_work r h)
  then have s: "hydrator_step c (on_hyd r) h" "hy_taken h = hy_taken (on_hyd r)" by (simp_all add: works_def)
  with ack_room [OF s(1) on_work(3)] on_work(4) show ?case by (simp add: onprem_inv_def ack_channel_def)
next
  case (on_commit r m ms)
  with received_more [OF on_commit(3) [unfolded ack_channel_def]] show ?case
    by (simp add: onprem_inv_def ack_channel_def)
next
  case (on_commit_fails r m ms)
  with received_more [OF on_commit_fails(2) [unfolded ack_channel_def]] show ?case
    by (simp add: onprem_inv_def ack_channel_def)
qed (simp_all add: onprem_inv_def ack_channel_def onprem_signal_def)

lemma reachable_onprem_inv: "onprem_reachable c topic cap (onprem_start t n) r \<Longrightarrow> onprem_inv topic n cap r"
proof (induction rule: onprem_reachable.induct)
  case on_start
  show ?case by (simp add: onprem_inv_def onprem_start_def hydrator_start_def ack_channel_def)
qed (rule step_onprem_inv)

text \<open>Steps of the hydrator are steps of the process, as long as there is room for their acknowledgements.\<close>

lemma works_process:
  assumes "(works c)\<^sup>*\<^sup>* h h'" "onprem_reachable c topic cap r0 (r \<lparr> on_hyd := h \<rparr>)" "running (on_phase r)" "0 < cap"
    "length (hy_acks h') \<le> on_received r + cap"
  shows "onprem_reachable c topic cap r0 (r \<lparr> on_hyd := h' \<rparr>)"
  using assms(1,5)
proof (induction rule: rtranclp_induct)
  case base
  show ?case by (rule assms(2))
next
  case (step h1 h2)
  have s: "hydrator_step c h1 h2" using step(2) by (simp add: works_def)
  have "length (hy_acks h1) \<le> length (hy_acks h2)" using step_acks_one [OF s] by auto
  then have r: "onprem_reachable c topic cap r0 (r \<lparr> on_hyd := h1 \<rparr>)" using step(3,4) by simp
  have "has_room cap (r \<lparr> on_hyd := h1 \<rparr>) h2"
    using step_acks_one [OF s] step(4) assms(4) by (auto simp: has_room_def ack_channel_def)
  then have "onprem_step c topic cap (r \<lparr> on_hyd := h1 \<rparr>) (r \<lparr> on_hyd := h2 \<rparr>)"
    using on_work [of "r \<lparr> on_hyd := h1 \<rparr>" c h2 cap topic] assms(3) step(2) by simp
  with r show ?case by (rule onprem_reachable.on_step)
qed

text \<open>A message is fetched and handed to the hydrator.\<close>

lemma take_process:
  assumes "onprem_reachable c topic cap r0 r" "on_phase r = Selecting" "\<not> on_quit r"
    "takes c (topic (on_next r)) (on_hyd r) h" "has_room cap r h"
  shows "onprem_reachable c topic cap r0 (r \<lparr> on_phase := Selecting, on_next := Suc (on_next r), on_hyd := h \<rparr>)"
proof -
  let ?r = "r \<lparr> on_phase := Fetching \<rparr>"
  have "onprem_step c topic cap r ?r" by (rule on_default [OF assms(2,3)])
  moreover have "onprem_step c topic cap ?r (r \<lparr> on_phase := Selecting, on_next := Suc (on_next r), on_hyd := h \<rparr>)"
    using on_take [of ?r c topic h cap] assms(2,4,5) by (simp add: has_room_def ack_channel_def)
  ultimately show ?thesis using assms(1) by (meson onprem_reachable.on_step)
qed

section \<open>Results\<close>

text \<open>
  C7. In every interleaving of the process the offset of a message is committed only after the
  message was taken from the topic. When the message has an archive, \<^verbatim>\<open>ExtractEvents\<close> has also
  been called for this message (recorded in \<open>hy_extracted\<close>), on the file its archive is downloaded
  to, and all events that this call returned were handed to the writer for this message, in
  their order.
\<close>

theorem onprem_commit_after_events:
  assumes "onprem_reachable c topic cap (onprem_start t n) r" "msg \<in> set (on_committed r)"
  shows "msg \<in> topic ` {n ..< on_next r} \<and> (shouldProcess msg \<longrightarrow>
    (\<exists>f events. message_file c msg = Some f \<and> (msg, f, events) \<in> set (hy_extracted (on_hyd r)) \<and>
       subseq (map (Pair msg) events) (hy_sent (on_hyd r))))"
proof -
  have i: "onprem_inv topic n cap r" by (rule reachable_onprem_inv [OF assms(1)])
  note h = hyd_reachable [OF assms(1)]
  have "set_mset (mset (on_committed r)) \<subseteq> set_mset (mset (take (on_received r) (hy_acks (on_hyd r))))"
    using i by (metis onprem_inv_def mset_subset_eq_add_left set_mset_mono)
  then have a: "msg \<in> set (hy_acks (on_hyd r))" using assms(2) by (auto dest: in_set_takeD)
  have "mset (hy_acks (on_hyd r)) \<subseteq># mset (hy_taken (on_hyd r))"
    using reachable_accounted [OF h] by (simp add: accounted_def add.assoc)
  then have "set (hy_acks (on_hyd r)) \<subseteq> set (hy_taken (on_hyd r))" by (metis set_mset_mono set_mset_mset)
  with a i have "msg \<in> topic ` {n ..< on_next r}" by (auto simp: onprem_inv_def)
  with hydrator_ack_after_events [OF h a] show ?thesis by blast
qed

text \<open>
  C21. In every interleaving each message of the topic up to the next offset is in exactly one
  place: its commit succeeded or failed, its acknowledgement is in the channel, which never
  holds more than it has room for, it was given up, or it is still in work.
  So a message that was given up is never committed.
\<close>

theorem onprem_accounts:
  assumes "onprem_reachable c topic cap (onprem_start t n) r"
  shows "mset (map topic [n ..< on_next r]) =
      mset (on_committed r) + mset (on_commit_failed r) + mset (ack_channel r) +
      mset (hy_dropped (on_hyd r)) + mset (in_flight (on_hyd r)) \<and>
    length (ack_channel r) \<le> cap"
proof -
  let ?acks = "hy_acks (on_hyd r)"
  have i: "onprem_inv topic n cap r" by (rule reachable_onprem_inv [OF assms])
  have "mset ?acks = mset (take (on_received r) ?acks) + mset (ack_channel r)"
    by (metis ack_channel_def append_take_drop_id mset_append)
  then show ?thesis
    using i reachable_accounted [OF hyd_reachable [OF assms]]
    by (simp add: onprem_inv_def accounted_def) (simp add: ack_channel_def le_diff_conv add.commute)
qed

text \<open>
  C40. The hydrator can end in order, with exit code 0 and nothing failed, while the archive of
  a message is still waiting to be downloaded, when a later message that is not for the
  program was committed: the offset of the group is past the first, which is never read again.
\<close>

theorem onprem_shutdown_loses_archive:
  assumes "0 < cap" "0 < hc_download_size c" "km_offset (topic (Suc n)) = Suc n"
    "OnPrem_ProcessMessage (topic n) = Send_download url" "\<not> shouldProcess (topic (Suc n))"
  shows "\<exists>r. onprem_reachable c topic cap (onprem_start t n) r \<and> on_phase r = Exited 0 \<and>
    hy_download_channel (on_hyd r) = [(url, topic n)] \<and> hy_sent (on_hyd r) = [] \<and> hy_dropped (on_hyd r) = [] \<and>
    on_committed r = [topic (Suc n)] \<and> on_commit_failed r = [] \<and> n < committed_offset (on_committed r)"
proof -
  let ?step = "onprem_step c topic cap" and ?H = "hydrator_start t"
  define h1 where "h1 = ?H \<lparr> hy_taken := [topic n], hy_download_channel := [(url, topic n)] \<rparr>"
  define h2 where "h2 = h1 \<lparr> hy_taken := [topic n, topic (Suc n)], hy_acks := [topic (Suc n)] \<rparr>"
  define r1 where "r1 = onprem_start t n \<lparr> on_next := Suc n, on_hyd := h1 \<rparr>"
  define r2 where "r2 = r1 \<lparr> on_next := Suc (Suc n), on_hyd := h2 \<rparr>"
  define r3 where "r3 = r2 \<lparr> on_received := 1, on_committed := [topic (Suc n)] \<rparr>"
  define r4 where "r4 = onprem_signal r3"
  define r5 where "r5 = r4 \<lparr> on_phase := Returned Quit \<rparr>"
  define r6 where "r6 = r5 \<lparr> on_phase := Exited 0 \<rparr>"
  note defs = h1_def h2_def r1_def r2_def r3_def r4_def r5_def r6_def onprem_start_def hydrator_start_def
    onprem_signal_def ack_channel_def has_room_def
  have t1: "takes c (topic n) ?H h1"
    using take_url [OF assms(4), of ?H c] assms(2) by (simp add: takes_def h1_def hydrator_start_def)
  have t2: "takes c (topic (Suc n)) h1 h2"
    using take_other [of "topic (Suc n)" c h1] assms(5) by (simp add: Send_ack_other takes_def defs)
  have "onprem_reachable c topic cap (onprem_start t n) r1"
    using take_process [OF onprem_reachable.on_start, of "onprem_start t n" c topic h1 cap] t1 by (simp add: defs)
  then have "onprem_reachable c topic cap (onprem_start t n) r2"
    using take_process [of c topic cap _ r1 h2] t2 assms(1) by (simp add: defs)
  moreover have "?step r2 r3" using on_commit [of r2 "topic (Suc n)" "[]" c topic cap] by (simp add: defs)
  moreover have "?step r3 r4" unfolding r4_def by (rule on_signal) (simp_all add: defs)
  moreover have "?step r4 r5" unfolding r5_def by (rule on_stop) (simp_all add: defs)
  moreover have "?step r5 r6" using on_main_ends [of r5 Quit c topic cap] by (simp add: defs)
  ultimately have "onprem_reachable c topic cap (onprem_start t n) r6" by (meson onprem_reachable.on_step)
  then show ?thesis using assms(3) by (intro exI [of _ r6]) (simp add: defs committed_offset_def)
qed

section \<open>The results at a concrete run\<close>

text \<open>The archive of \<open>written_run\<close> is fetched, and its message committed.\<close>

definition committed_run :: onprem_process where
  "committed_run = onprem_start (tl sample_tree) 0
     \<lparr> on_next := 1, on_hyd := written_run, on_received := 1, on_committed := [archive_msg ''/a''] \<rparr>"

lemma committed_run_reachable:
  "onprem_reachable tar_config (\<lambda>n. archive_msg ''/a'') 1 (onprem_start (tl sample_tree) 0) committed_run"
proof -
  let ?topic = "\<lambda>n. archive_msg ''/a''"
  define r where "r = onprem_start (tl sample_tree) 0 \<lparr> on_next := 1, on_hyd := taken_run \<rparr>"
  define r' where "r' = r \<lparr> on_hyd := written_run \<rparr>"
  note defs = r_def r'_def onprem_start_def committed_run_def
  have "onprem_reachable tar_config ?topic 1 (onprem_start (tl sample_tree) 0) r"
    using take_process [OF onprem_reachable.on_start, of "onprem_start (tl sample_tree) 0" tar_config ?topic taken_run 1]
      takes_archive by (simp add: defs has_room_def taken_run_def hydrator_start_def)
  then have "onprem_reachable tar_config ?topic 1 (onprem_start (tl sample_tree) 0) (r \<lparr> on_hyd := taken_run \<rparr>)"
    by (simp add: r_def)
  then have "onprem_reachable tar_config ?topic 1 (onprem_start (tl sample_tree) 0) r'"
    unfolding r'_def by (rule works_process [OF works_written]) (simp_all add: defs written_run_def taken_run_def)
  moreover have "onprem_step tar_config ?topic 1 r' committed_run"
    using on_commit [of r' "archive_msg ''/a''" "[]" tar_config ?topic 1]
    by (simp add: defs ack_channel_def written_run_def)
  ultimately show ?thesis by (rule onprem_reachable.on_step)
qed

theorem onprem_commit_after_events_witness:
  "archive_msg ''/a'' \<in> set (on_committed committed_run) \<and>
     hy_extracted (on_hyd committed_run) = [(archive_msg ''/a'', [''tmp'', ''a''], [sample_envelope])] \<and>
     message_file tar_config (archive_msg ''/a'') = Some [''tmp'', ''a''] \<and>
     subseq [(archive_msg ''/a'', sample_envelope)] (hy_sent (on_hyd committed_run))"
proof -
  have m: "archive_msg ''/a'' \<in> set (on_committed committed_run)" "shouldProcess (archive_msg ''/a'')"
    "hy_extracted (on_hyd committed_run) = [(archive_msg ''/a'', [''tmp'', ''a''], [sample_envelope])]"
    by (simp_all add: committed_run_def archive_msg_def shouldProcess_def written_run_def)
  with onprem_commit_after_events [OF committed_run_reachable m(1)] show ?thesis by auto
qed

theorem onprem_accounts_witness:
  "mset (map (\<lambda>n. archive_msg ''/a'') [0 ..< 1]) = mset (on_committed committed_run) +
     mset (on_commit_failed committed_run) + mset (ack_channel committed_run) +
     mset (hy_dropped (on_hyd committed_run)) + mset (in_flight (on_hyd committed_run))"
  using onprem_accounts [OF committed_run_reachable] by (simp add: committed_run_def onprem_start_def)

text \<open>An archive, and a message that is not for the program.\<close>

definition archive_then_other :: "nat \<Rightarrow> kafka_msg" where
  "archive_then_other n = (if n = 0 then archive_msg ''/a'' else other_msg \<lparr> km_offset := n \<rparr>)"

theorem onprem_shutdown_loses_archive_witness:
  "\<exists>r. onprem_reachable tar_config archive_then_other 1 (onprem_start [] 0) r \<and> on_phase r = Exited 0 \<and>
     hy_download_channel (on_hyd r) = [(''/a'', archive_msg ''/a'')] \<and> 0 < committed_offset (on_committed r)"
proof -
  have "valid_utf8 ''/a''" by code_simp
  then have "OnPrem_ProcessMessage (archive_then_other 0) = Send_download ''/a''"
    by (simp add: archive_then_other_def archive_msg_action)
  moreover have "\<not> shouldProcess (archive_then_other (Suc 0))" "km_offset (archive_then_other (Suc 0)) = Suc 0"
    "0 < hc_download_size tar_config" "archive_then_other 0 = archive_msg ''/a''"
    by (simp_all add: archive_then_other_def shouldProcess_def other_msg_def tar_config_def)
  ultimately show ?thesis
    using onprem_shutdown_loses_archive [of 1 tar_config archive_then_other 0 "''/a''" "[]"] by auto
qed

end
