(* ===== verification/Notifications.thy ===== *)
theory Notifications
  imports Projection
begin

text \<open>
  \<^verbatim>\<open>NotificationStream\<close> of \<^verbatim>\<open>pkg/stream/notification.go\<close> over a \<^verbatim>\<open>KafkaWriter\<close>: what services write
  with it is what the projection reads, although the fields of \<^verbatim>\<open>Envelope\<close> and of
  \<^verbatim>\<open>types.Event\<close> differ in their capitals.
\<close>

definition notification_event :: "notifiable \<Rightarrow> jobject \<Rightarrow> event" where
  "notification_event x meta = \<lparr> ev_name = nt_type x, ev_payload = nt_payload x, ev_metadata = Some meta \<rparr>"

lemma field_of_capitals:
  "field_of event_fields ''Name'' = Some ''name''" "field_of event_fields ''Payload'' = Some ''payload''"
  "field_of event_fields ''Metadata'' = Some ''metadata''"
  by code_simp+

lemma decode_envelope:
  "wf_message_event (notification_event x meta) \<Longrightarrow>
     decode_event zero_event (envelope_json (nt_type x) (nt_payload x) (JObj meta)) = (notification_event x meta, False)"
  by (simp add: notification_event_def envelope_json_def decode_event_def field_members_def field_of_capitals
      zero_event_def decode_field_def decode_string_def wf_message_event_def decode_any_jwf decode_map_id)

lemma jok_envelope:
  "wf_message_event (notification_event x meta) \<Longrightarrow> jok (envelope_json (nt_type x) (nt_payload x) (JObj meta))"
  by (auto simp: notification_event_def envelope_json_def wf_message_event_def jwf_def wf_obj_def byte_def)

text \<open>
  C27. A notification is one message, whose key is the identifier of the cluster, or empty,
  and whose value the projection reads back as the event with the type, the payload and the
  metadata of the stream; an error of the producer is returned. That is for a pointer: when
  the interface holds the struct itself, the check for nil panics.
\<close>

theorem notification_read:
  assumes "wf_message_event (notification_event x meta)"
  shows "\<exists>d. Notify (NewNotificationStream (Some (KafkaWriter P)) (JObj meta)) w (Pointer x) =
      (case kp_WriteMessages P w (case nt_cluster_id x of None \<Rightarrow> [] | Some c \<Rightarrow> c) d of
         (w', err) \<Rightarrow> Return (w', if err then Some Write_failed else None)) \<and>
    (\<forall>msg. km_value msg = d \<longrightarrow> getEventFromMessage msg = Some (notification_event x meta)) \<and>
    Notify (NewNotificationStream (Some (KafkaWriter P)) (JObj meta)) w (Struct_value x) = Panic"
proof (intro exI conjI allI impI)
  let ?v = "envelope_json (nt_type x) (nt_payload x) (JObj meta)"
  have ok: "jok ?v" by (rule jok_envelope [OF assms])
  show "Notify (NewNotificationStream (Some (KafkaWriter P)) (JObj meta)) w (Pointer x) =
      (case kp_WriteMessages P w (case nt_cluster_id x of None \<Rightarrow> [] | Some c \<Rightarrow> c) (jprint ?v) of
         (w', err) \<Rightarrow> Return (w', if err then Some Write_failed else None))"
    by (simp add: Notify_def NewNotificationStream_def KafkaWriter_def KafkaWriter_Write_def json_Marshal_def
        jok_jfinite [OF ok] split: prod.split bool.split)
  show "getEventFromMessage msg = Some (notification_event x meta)" if "km_value msg = jprint ?v" for msg
    by (simp add: getEventFromMessage_def that json_parse_jprint ok decode_envelope [OF assms])
qed (simp add: Notify_def NewNotificationStream_def)

definition sample_notifiable :: notifiable where
  "sample_notifiable = \<lparr> nt_cluster_id = Some ''c1'', nt_type = ''ClusterState'',
     nt_payload = JObj [(''id'', JStr ''c1'')] \<rparr>"

theorem notification_read_witness:
  "\<exists>d. Notify (NewNotificationStream (Some (KafkaWriter \<lparr> kp_WriteMessages = (\<lambda>w k v. (w @ [(k, v)], False)),
        kp_Close = (\<lambda>w. w) \<rparr>)) (JObj [])) [] (Pointer sample_notifiable) = Return ([(''c1'', d)], None) \<and>
     getEventFromMessage \<lparr> km_key = ''c1'', km_value = d, km_headers = [], km_offset = 0 \<rparr> =
       Some (notification_event sample_notifiable [])"
proof -
  have "wf_message_event (notification_event sample_notifiable [])"
    by (simp add: wf_message_event_def notification_event_def sample_notifiable_def) code_simp
  from notification_read [OF this, of "\<lparr> kp_WriteMessages = (\<lambda>w k v. (w @ [(k, v)], False)), kp_Close = (\<lambda>w. w) \<rparr>" "[]"]
  obtain d where d: "Notify (NewNotificationStream (Some (KafkaWriter \<lparr> kp_WriteMessages = (\<lambda>w k v. (w @ [(k, v)], False)),
        kp_Close = (\<lambda>w. w) \<rparr>)) (JObj [])) [] (Pointer sample_notifiable) = Return ([(''c1'', d)], None)"
    "\<forall>msg. km_value msg = d \<longrightarrow> getEventFromMessage msg = Some (notification_event sample_notifiable [])"
    by (auto simp: sample_notifiable_def)
  then show ?thesis by (intro exI [of _ d]) simp
qed

end
