(* ===== verification/Spec2Isabelle.thy ===== *)
theory Spec2Isabelle
  imports Samples SnapshotHistory OnPremProgram Notifications
begin

text \<open>
  A verification of assisted-events-streams, the Go program that turns the events and
  states of the assisted installer into enriched events in opensearch.

  \<^bold>\<open>The program.\<close> Two processes read messages from kafka with the same loop,
  \<^verbatim>\<open>pkg/stream/reader.go\<close>. The consumer (\<^verbatim>\<open>internal/projection\<close>) keeps the latest state of
  every cluster, host and infra-env in redis; an event of a cluster is merged with these
  states, transformed (\<^verbatim>\<open>internal/projection/process\<close>, \<^verbatim>\<open>pkg/jsonedit\<close>) and handed to the bulk
  indexer of opensearch. A message is acknowledged on a channel, and committed from there.
  The hydrator (\<^verbatim>\<open>internal/onprem\<close>) gets messages with the address of an archive, downloads
  and unpacks it, and writes the states and events it holds to the topic of the consumer.

  \<^bold>\<open>The theories.\<close>
  \<^item> \<open>Prelude\<close>: strings, Go maps as lists sorted by key (\<open>'a gomap\<close>, with \<open>mget\<close>, \<open>mput\<close>,
    \<open>mdel\<close>), the iteration order of \<^verbatim>\<open>range\<close> as a parameter \<open>range_order\<close>, and \<open>go\<close>, the
    results of code that can panic.
  \<^item> \<open>GoFloat\<close>: float64 as the rationals of IEEE 754, with rounding to nearest even;
    \<open>JsonNumber\<close>, \<open>JsonString\<close>, \<open>JsonText\<close>, \<open>JsonTree\<close>: how \<^verbatim>\<open>encoding/json\<close> prints and parses
    values (type \<open>json\<close>), with the round trip \<open>json_parse_jprint\<close>. \<open>Decoding\<close>: decoded values
    are well-formed.
  \<^item> \<open>JsonLib\<close>: the locale \<open>json_edit_lib\<close> states what the code relies on of gjson and sjson;
    it is interpreted on an implementation over parsed trees. \<open>JsonEdit\<close> models
    \<^verbatim>\<open>pkg/jsonedit\<close> (\<^verbatim>\<open>Transform\<close>, \<^verbatim>\<open>Delete\<close>, \<^verbatim>\<open>Rename\<close>) on text, and \<open>JsonEditSpec\<close> shows that
    these implement edits of the JSON value.
  \<^item> \<open>Types\<close>, \<open>EventJson\<close>: \<^verbatim>\<open>internal/types\<close> with the JSON of its structs, both ways.
  \<^item> \<open>HostsSummary\<close>: \<^verbatim>\<open>process/hosts_summary.go\<close>. \<open>Md5\<close>, \<open>Enricher\<close>: the rest of
    \<^verbatim>\<open>internal/projection/process\<close>. \<open>EnricherSpec\<close> gives each stage of \<^verbatim>\<open>getTransformedEvent\<close>
    as a function on JSON values, \<open>Pipeline\<close> composes them, \<open>Secrets\<close> shows which keys of secrets
    and user names are gone, and \<open>UserNames\<close> what stands in their place: the MD5 sum of a user
    name, or the name itself where it is the text of a number. \<open>Samples\<close> applies these results to concrete events.
    \<open>BaseEvent\<close>: what \<^verbatim>\<open>GetBaseEnrichedEvent\<close> makes of stored states meets their conditions.
  \<^item> \<open>SnapshotRepository\<close>: \<^verbatim>\<open>internal/repository/redis/snapshot_repository.go\<close> over the locale
    \<open>redis_hashes\<close> of four redis commands; the contract of the repository, a map from
    identifiers to states, is the locale \<open>snapshot_contract\<close>. \<open>SnapshotHistory\<close>: how long the
    states are kept, over the locale \<open>redis_expiry\<close> of what time does to keys.
  \<^item> \<open>Stream\<close>: the rest of \<^verbatim>\<open>pkg/stream\<close>; \<open>Notifications\<close>: what its \<^verbatim>\<open>NotificationStream\<close> writes
    the projection reads. \<open>EventRepository\<close>: \<^verbatim>\<open>internal/repository/opensearch\<close>,
    with \<^verbatim>\<open>time.Parse\<close> as far as the name of the index needs it.
  \<^item> \<open>Projection\<close>: \<^verbatim>\<open>internal/projection/enriched_event_projection.go\<close>, whose handlers return
    the new state, the messages sent to the ack channel, and an error; \<open>ProjectionSpec\<close>: what
    each kind of message does.
  \<^item> \<open>Consumer\<close>: \<^verbatim>\<open>Consume\<close>, \<^verbatim>\<open>listenForCommit\<close>, the workers of the bulk indexer, and
    \<^verbatim>\<open>gracefulShutdown\<close> with the end of \<^verbatim>\<open>main\<close>, as the step relation \<open>reader_step\<close>, in any
    interleaving. A commit can fail at any time, and cannot succeed once the reader is closed,
    where kafka-go refuses it. \<open>Shutdown\<close>: how the process can end, and what a signal can break.
    \<open>ConsumerGroup\<close>: any number of consumers that share redis, at the same time and one after
    another. \<open>SystemSafety\<close>: such a group with all its parts connected (locale
    \<open>consumer_system\<close>), on messages that are tame: no host state with a string as \<^verbatim>\<open>infra_env\<close>,
    no cluster event with a \<^verbatim>\<open>host_summary\<close> of its own.
  \<^item> \<open>FileTree\<close>, \<open>EventExtractor\<close>: \<^verbatim>\<open>internal/onprem/event_extractor.go\<close> over a tree of files.
    \<open>Hydrator\<close>: \<^verbatim>\<open>downloader.go\<close> and \<^verbatim>\<open>hydrate.go\<close>, with the listener, its goroutines and its
    bounded or unbuffered channels as the step relation \<open>hydrator_step\<close>. \<open>OnPremEvents\<close>: what the hydrator
    writes the projection reads. \<open>Progress\<close>: neither process deadlocks.
  \<^item> \<open>Environment\<close>: \<^verbatim>\<open>envconfig.Process\<close> over a list of field specifications, with
    \<^verbatim>\<open>strconv.ParseInt\<close>, \<^verbatim>\<open>ParseBool\<close> and \<^verbatim>\<open>time.ParseDuration\<close>. \<open>Construction\<close>: the settings and the
    \<^verbatim>\<open>FromEnv\<close> constructors of both programs (type \<open>start\<close>: a value, \<^verbatim>\<open>log.Fatal\<close> or a panic).
    \<open>Programs\<close>: the two \<^verbatim>\<open>main\<close> functions up to their loops, the logger, and the results for a
    consumer and a hydrator that were started from an environment.
  \<^item> \<open>OnPremProgram\<close>: the process of \<^verbatim>\<open>cmd/onprem/main.go\<close> as the step relation \<open>onprem_step\<close>: the
    loop of \<^verbatim>\<open>reader.go\<close>, its committing goroutine and the signal handler around the steps of
    the hydrator, up to the end of \<^verbatim>\<open>main\<close>. Every reachable process holds a reachable hydrator.

  \<^bold>\<open>What is shown.\<close> The transformation of an event never panics, computes the composition of
  its stages, and leaves none of the keys of secrets and user names at the places the program
  knows; so on tame messages no document that reaches the indexer has these keys there, and no
  consumer panics while it processes a message, whatever other consumers do to the states. User
  names are replaced by their MD5 sums, except those that are themselves JSON text. The hosts summary has the counts and
  correctly rounded shares, whatever the iteration order of maps. The snapshot repository
  gives back the last state written for every identifier that has not expired; the states of
  clusters, which share one hash, live exactly as long as some cluster is written in every period. Each branch of the projection has
  its acknowledgements and errors. In every interleaving of the consumer, commits come only
  after indexing, and acknowledgements are neither lost nor made up; in every interleaving
  of the hydrator's process, messages are accounted for and committed only after their events
  were written; neither can get stuck on its channels. The safety of the consumer holds of
  whatever its \<^verbatim>\<open>main\<close> starts with a positive expiration. After a signal it can still index what
  it has and exit, but once \<^verbatim>\<open>gracefulShutdown\<close> has closed the reader nothing is committed.
  Extraction yields well-formed events, states first, and touches no other files. Several results state what goes wrong: user
  names that are numbers are not hashed, archives with \<^verbatim>\<open>..\<close> in a name escape their
  directory, large archives block for ever, documents that opensearch refuses are skipped
  by later commits, as are those in the queue, and archives not yet downloaded, when \<^verbatim>\<open>main\<close>
  exits; what is indexed during a shutdown is not committed; a second signal breaks the
  consumer, a bad channel size the hydrator, and a bad setting of opensearch loses the
  prefix of the indices, and clusters long gone do not expire while others are written.

  \<^bold>\<open>Bounds and fuel.\<close> The parser of JSON takes fuel; \<open>2 * length s + 1\<close> is enough for any
  text \<open>s\<close>, since every nested call follows at least one character that was read
  (\<open>JsonText\<close>). All other recursion is structural or has a measure (the loop of
  \<^verbatim>\<open>ParseDuration\<close> by the length of the text). Numbers read from the environment fit int64. The summary assumes at
  most \<open>2 ^ 52\<close> hosts, below which counting in float64 is exact.

  \<^bold>\<open>Parameters.\<close> gjson and sjson; SHA-1 UUIDs; the redis client; the producer, the reader
  and the SCRAM mechanism of kafka-go; the bulk indexer and the client of opensearch; HTTP,
  gzip and tar; the iteration order of maps.

  \<^bold>\<open>Not modelled.\<close> What is logged, and the mocks, which mockgen generates for the tests. Of what is modelled: the nesting limit of
  \<^verbatim>\<open>encoding/json\<close> (10000), file permissions and symbolic links, relative paths, what
  happens to the keys of redis while one message is processed, and other processes that change
  the same files.
\<close>

end
